(* ===== verification/Prelude.thy ===== *)
theory Prelude
  imports Complex_Main "HOL-Library.Word" "HOL-Library.Char_ord" "HOL-Library.List_Lexorder"
begin

text \<open>
  Shared vocabulary of the development: the type of a byte, the JavaScript values that
  JSON bodies and frames carry, the coercions the source applies to them, and generic lemmas
  on lists, prefixes and folds that several components use.

  JavaScript strings are modelled as Isabelle strings, one character per code unit, so code
  units range over 0..255. That covers every string the relay itself builds (hexadecimal,
  base64, storage keys, error texts) and every HTTP header value, which is a byte string.
\<close>

section \<open>Types and collections of facts\<close>

type_synonym byte = "8 word"
type_synonym bytes = "byte list"

named_theorems room_frame \<open>which fields of a room an operation leaves alone\<close>
named_theorems slot_facts \<open>how an operation moves sockets and slots\<close>

section \<open>JSON values and property access\<close>

text \<open>
  The result of JSON.parse. A number is kept exactly, as a rational; \<open>JObj\<close> lists the
  properties of the resulting object.
\<close>

datatype jsval =
    JNull
  | JBool bool
  | JNum rat
  | JStr string
  | JArr "jsval list"
  | JObj "(string \<times> jsval) list"

text \<open>
  \<open>v.name\<close>: \<open>Inl ()\<close> is the TypeError that reading a property of null raises,
  \<open>Inr None\<close> is undefined.
\<close>

fun jget :: "jsval \<Rightarrow> string \<Rightarrow> unit + jsval option" where
  "jget JNull name = Inl ()"
| "jget (JObj ps) name = Inr (map_of ps name)"
| "jget _ name = Inr None"

text \<open>\<open>typeof x === "string"\<close>, with the string.\<close>

fun as_string :: "jsval option \<Rightarrow> string option" where
  "as_string (Some (JStr s)) = Some s"
| "as_string _ = None"

text \<open>\<open>typeof x === "number" && Number.isInteger(x)\<close>, with the integer.\<close>

fun as_int :: "jsval option \<Rightarrow> int option" where
  "as_int (Some (JNum q)) = (if of_int \<lfloor>q\<rfloor> = q then Some \<lfloor>q\<rfloor> else None)"
| "as_int _ = None"

lemma as_int_of_int [simp]: "as_int (Some (JNum (of_int n))) = Some n"
  by simp

lemma jget_Inr_None_cases:
  "jget v name = Inl () \<longleftrightarrow> v = JNull"
  by (cases v) auto

section \<open>Array writes\<close>

text \<open>\<open>out.set(bs, o)\<close> on a typed array that is long enough.\<close>

definition set_at :: "'a list \<Rightarrow> nat \<Rightarrow> 'a list \<Rightarrow> 'a list" where
  "set_at out off bs = take off out @ bs @ drop (off + length bs) out"

lemma length_set_at [simp]:
  "off + length bs \<le> length out \<Longrightarrow> length (set_at out off bs) = length out"
  by (simp add: set_at_def)

lemma set_at_filled:
  "set_at (xs @ ys) (length xs) bs = xs @ bs @ drop (length bs) ys"
  by (simp add: set_at_def)

lemma set_at_replicate:
  assumes "length bs \<le> n"
  shows "set_at (xs @ replicate n z) (length xs) bs = xs @ bs @ replicate (n - length bs) z"
  using assms by (simp add: set_at_def)

section \<open>Lists, filters and folds\<close>

lemma filter_eq_singletonD: "filter P xs = [x] \<Longrightarrow> x \<in> set xs \<and> P x"
  by (metis filter_eq_ConsD list.set_intros(1) in_set_conv_decomp)

lemma length_filter_removeAll_le:
  "length (filter P (removeAll x xs)) \<le> length (filter P xs)"
  by (induction xs) auto

lemma length_filter_removeAll_less:
  assumes "x \<in> set xs" "P x"
  shows "length (filter P (removeAll x xs)) < length (filter P xs)"
  using assms
proof (induction xs)
  case (Cons y ys)
  then show ?case
    using length_filter_removeAll_le [of P x ys] by (auto simp: less_Suc_eq_le)
qed simp

lemma length_filter_mono:
  "(\<And>x. x \<in> set xs \<Longrightarrow> P x \<Longrightarrow> Q x) \<Longrightarrow> length (filter P xs) \<le> length (filter Q xs)"
  by (induction xs) (auto intro: le_SucI)

lemma length_all_equal:
  "distinct xs \<Longrightarrow> \<forall>x \<in> set xs. \<forall>y \<in> set xs. x = y \<Longrightarrow> length xs \<le> 1"
  using distinct_card [of xs] card_le_Suc0_iff_eq [of "set xs"] by simp

lemma fold_invariant_in:
  assumes "P s" "\<And>x s. x \<in> set xs \<Longrightarrow> P s \<Longrightarrow> P (f x s)"
  shows "P (fold f xs s)"
  using assms by (induction xs arbitrary: s) auto

lemma fold_field_eq:
  assumes "\<And>x s. x \<in> set xs \<Longrightarrow> g (f x s) = g s"
  shows "g (fold f xs s) = g s"
  using assms by (induction xs arbitrary: s) auto

lemma append_eq_same_length:
  "length xs = length ys \<Longrightarrow> xs @ us = ys @ vs \<longleftrightarrow> xs = ys \<and> us = vs"
  by auto

lemma map_of_filter_key:
  "map_of (filter (\<lambda>(k, v). P k) ps) k = (if P k then map_of ps k else None)"
  by (induction ps) auto

lemma distinct_map_filter_fst:
  "distinct (map fst ps) \<Longrightarrow> distinct (map fst (filter Q ps))"
  by (induction ps) auto

lemma map_of_filter_distinct:
  assumes "distinct (map fst ps)"
  shows "map_of (filter Q ps) k
    = (case map_of ps k of None \<Rightarrow> None | Some v \<Rightarrow> if Q (k, v) then Some v else None)"
  using assms
proof (induction ps)
  case (Cons p ps)
  show ?case
  proof (cases "k = fst p")
    case True
    with Cons.prems have "map_of ps k = None"
      by (simp add: map_of_eq_None_iff)
    with True Cons show ?thesis by (cases p) auto
  next
    case False
    with Cons show ?thesis by (cases p) auto
  qed
qed simp

end
