(* ===== verification/Bytes.thy ===== *)
theory Bytes
  imports Prelude
begin

text \<open>
  The byte-level helpers of \<^verbatim>\<open>src/room.js\<close>: base64 over \<open>btoa\<close>/\<open>atob\<close>, concatenation,
  the canonical encoding, and the join and delete transcripts that a signature covers. The
  lemmas show that base64 round-trips, that the canonical encoding is injective, and hence
  that a transcript determines role, nonce, room and origin and that the domains never meet.
\<close>

section \<open>UTF-8 and big-endian lengths\<close>

definition byte_of :: "nat \<Rightarrow> byte" where
  "byte_of n = word_of_nat n"

lemma unat_byte_of [simp]: "unat (byte_of n) = n mod 256"
  by (simp add: byte_of_def unat_of_nat)

lemma byte_of_unat [simp]: "byte_of (unat b) = b"
  by (simp add: byte_of_def)

lemma unat_byte_less [simp]: "unat (b :: byte) < 256"
  using unsigned_less [of b] by simp

text \<open>\<open>new TextEncoder().encode(s)\<close>, for code units up to 255.\<close>

definition utf8_char :: "char \<Rightarrow> bytes" where
  "utf8_char c =
     (let n = of_char c :: nat
      in if n < 128 then [byte_of n]
         else [byte_of (192 + n div 64), byte_of (128 + n mod 64)])"

definition utf8_encode :: "string \<Rightarrow> bytes" where
  "utf8_encode s = concat (map utf8_char s)"

definition be32 :: "nat \<Rightarrow> bytes" where
  "be32 n = [byte_of (n div 2 ^ 24), byte_of (n div 2 ^ 16), byte_of (n div 2 ^ 8), byte_of n]"

definition be32_value :: "bytes \<Rightarrow> nat" where
  "be32_value bs = foldl (\<lambda>acc b. acc * 256 + unat b) 0 bs"

lemma length_be32 [simp]: "length (be32 n) = 4"
  by (simp add: be32_def)

lemma be32_round:
  assumes "n < 2 ^ 32"
  shows "be32_value (be32 n) = n"
proof -
  let ?a = "n div 256" and ?b = "n div 256 div 256" and ?c = "n div 256 div 256 div 256"
  have "?c < 256"
    using assms by (simp add: div_mult2_eq [symmetric] less_mult_imp_div_less)
  then have "?c mod 256 = ?c" by simp
  moreover have "?c * 256 + ?b mod 256 = ?b" "?b * 256 + ?a mod 256 = ?a" "?a * 256 + n mod 256 = n"
    by (rule div_mult_mod_eq)+
  moreover have "n div 2 ^ 24 = ?c" "n div 2 ^ 16 = ?b" "n div 2 ^ 8 = ?a"
    by (simp_all add: div_mult2_eq [symmetric])
  ultimately show ?thesis
    by (simp only: be32_value_def be32_def foldl.simps unat_byte_of mult_zero_left add_0)
qed

lemma be32_inj: "m < 2 ^ 32 \<Longrightarrow> n < 2 ^ 32 \<Longrightarrow> be32 m = be32 n \<longleftrightarrow> m = n"
  by (metis be32_round)

text \<open>The first byte says how long a code unit's encoding is, so encodings are uniquely readable.\<close>

lemma of_char_less: "(of_char c :: nat) < 256"
  by (rule nat_of_char_less_256)

lemma utf8_char_prefix:
  assumes "utf8_char c @ xs = utf8_char d @ ys"
  shows "c = d \<and> xs = ys"
proof -
  let ?m = "of_char c :: nat" and ?n = "of_char d :: nat"
  have bnd: "?m < 256" "?n < 256" by (rule of_char_less)+
  have bytes_eq: "a mod 256 = b mod 256" if "byte_of a = byte_of b" for a b
    using that by (metis unat_byte_of)
  have "?m = ?n \<and> xs = ys"
  proof (cases "?m < 128"; cases "?n < 128")
    assume "?m < 128" "?n < 128"
    with assms show ?thesis
      by (auto simp: utf8_char_def dest!: bytes_eq)
  next
    assume A: "?m < 128" "\<not> ?n < 128"
    with assms have "byte_of ?m = byte_of (192 + ?n div 64)"
      by (simp add: utf8_char_def Let_def)
    from bytes_eq [OF this] A bnd show ?thesis by simp
  next
    assume A: "\<not> ?m < 128" "?n < 128"
    with assms have "byte_of (192 + ?m div 64) = byte_of ?n"
      by (simp add: utf8_char_def Let_def)
    from bytes_eq [OF this] A bnd show ?thesis by simp
  next
    assume A: "\<not> ?m < 128" "\<not> ?n < 128"
    with assms have e: "byte_of (192 + ?m div 64) = byte_of (192 + ?n div 64)"
      "byte_of (128 + ?m mod 64) = byte_of (128 + ?n mod 64)" "xs = ys"
      by (auto simp: utf8_char_def Let_def)
    have "?m div 64 = ?n div 64"
      using bytes_eq [OF e(1)] bnd by simp
    moreover have "?m mod 64 = ?n mod 64"
      using bytes_eq [OF e(2)] by (simp add: mod_less)
    ultimately show ?thesis
      using e(3) by (metis div_mult_mod_eq)
  qed
  then show ?thesis by simp
qed

lemma utf8_char_neq_Nil [simp]: "utf8_char c \<noteq> []"
  by (simp add: utf8_char_def Let_def)

lemma utf8_encode_inj: "utf8_encode s = utf8_encode t \<longleftrightarrow> s = t"
proof
  show "utf8_encode s = utf8_encode t \<Longrightarrow> s = t"
  proof (induction s arbitrary: t)
    case Nil
    then show ?case by (cases t) (auto simp: utf8_encode_def)
  next
    case (Cons c s)
    then obtain d u where t: "t = d # u"
      by (cases t) (auto simp: utf8_encode_def)
    with Cons.prems have "utf8_char c @ utf8_encode s = utf8_char d @ utf8_encode u"
      by (simp add: utf8_encode_def)
    from utf8_char_prefix [OF this] Cons.IH t show ?case by simp
  qed
qed simp

section \<open>Base64\<close>

definition b64_alphabet :: string where
  "b64_alphabet = ''ABCDEFGHIJKLMNOPQRSTUVWXYZabcdefghijklmnopqrstuvwxyz0123456789+/''"

definition b64_char :: "nat \<Rightarrow> char" where
  "b64_char n = b64_alphabet ! n"

fun index_of :: "'a \<Rightarrow> 'a list \<Rightarrow> nat option" where
  "index_of x [] = None"
| "index_of x (y # ys) = (if x = y then Some 0 else map_option Suc (index_of x ys))"

definition b64_val :: "char \<Rightarrow> nat option" where
  "b64_val c = index_of c b64_alphabet"

text \<open>\<open>btoa(String.fromCharCode(...bytes))\<close>: three bytes become four characters.\<close>

fun b64 :: "bytes \<Rightarrow> string" where
  "b64 [] = []"
| "b64 [a] = [b64_char (unat a div 4), b64_char (unat a mod 4 * 16), CHR ''='', CHR ''='']"
| "b64 [a, b] = [b64_char (unat a div 4), b64_char (unat a mod 4 * 16 + unat b div 16),
     b64_char (unat b mod 16 * 4), CHR ''='']"
| "b64 (a # b # c # rest) = b64_char (unat a div 4) #
     b64_char (unat a mod 4 * 16 + unat b div 16) #
     b64_char (unat b mod 16 * 4 + unat c div 64) # b64_char (unat c mod 64) # b64 rest"

text \<open>
  \<open>atob\<close>, the forgiving decoder: whitespace is dropped; when the length is then a multiple of
  four, up to two trailing \<open>=\<close> are; a remainder of one character or a character outside the
  alphabet is an error; the bits that do not fill a byte are discarded.
\<close>

definition b64_space :: "char \<Rightarrow> bool" where
  "b64_space c \<longleftrightarrow> of_char c \<in> {9 :: nat, 10, 12, 13, 32}"

definition strip_pad :: "string \<Rightarrow> string" where
  "strip_pad s =
     (if length s mod 4 = 0 \<and> s \<noteq> [] \<and> last s = CHR ''=''
      then (let t = butlast s in if t \<noteq> [] \<and> last t = CHR ''='' then butlast t else t)
      else s)"

fun b64_groups :: "nat list \<Rightarrow> bytes option" where
  "b64_groups [] = Some []"
| "b64_groups [p] = None"
| "b64_groups [p, q] = Some [byte_of (p * 4 + q div 16)]"
| "b64_groups [p, q, r] = Some [byte_of (p * 4 + q div 16), byte_of (q mod 16 * 16 + r div 4)]"
| "b64_groups (p # q # r # s # rest) = map_option
     (\<lambda>bs. byte_of (p * 4 + q div 16) # byte_of (q mod 16 * 16 + r div 4)
         # byte_of (r mod 4 * 64 + s) # bs) (b64_groups rest)"

definition b64ToBytes :: "string \<Rightarrow> bytes option" where
  "b64ToBytes s =
     (let t = strip_pad (filter (\<lambda>c. \<not> b64_space c) s)
      in if list_all (\<lambda>c. b64_val c \<noteq> None) t then b64_groups (map (the \<circ> b64_val) t) else None)"

lemma b64_char_facts:
  "\<forall>n \<in> set [0..<64]. b64_val (b64_char n) = Some n \<and> \<not> b64_space (b64_char n)
     \<and> b64_char n \<noteq> CHR ''=''"
  by code_simp

lemma b64_val_char [simp]: "n < 64 \<Longrightarrow> b64_val (b64_char n) = Some n"
  using b64_char_facts by simp

lemma b64_char_space [simp]: "n < 64 \<Longrightarrow> \<not> b64_space (b64_char n)"
  using b64_char_facts by simp

lemma b64_char_pad [simp]: "n < 64 \<Longrightarrow> b64_char n \<noteq> CHR ''=''"
  using b64_char_facts by simp

lemma b64_pad_space [simp]: "\<not> b64_space (CHR ''='')"
  by (simp add: b64_space_def)

lemma unpack:
  fixes x q k :: nat
  assumes "q < k"
  shows "(x * k + q) div k = x" "(x * k + q) mod k = q"
  using assms by simp_all

lemma b64_hi:
  fixes a :: byte
  shows "unat a div 4 < 64" "unat a div 16 < 16" "unat a div 64 < 4"
  using unat_byte_less [of a] by (simp_all add: less_mult_imp_div_less)

lemma b64_mid: "x mod 4 * 16 + y < 64" if "y < 16" for x y :: nat
  using that mod_less_divisor [of 4 x] by linarith

lemma b64_low: "x mod 16 * 4 + y < 64" if "y < 4" for x y :: nat
  using that mod_less_divisor [of 16 x] by linarith

lemma b64_sextets:
  fixes a b c :: byte
  shows "unat a div 4 < 64" "unat a mod 4 * 16 < 64" "unat a mod 4 * 16 + unat b div 16 < 64"
    "unat b mod 16 * 4 < 64" "unat b mod 16 * 4 + unat c div 64 < 64" "unat c mod 64 < 64"
  using b64_mid [of 0 "unat a"] b64_low [of 0 "unat b"] by (simp_all add: b64_hi b64_mid b64_low)

lemma b64_first: "unat a div 4 * 4 + (unat a mod 4 * 16 + y) div 16 = unat a"
  if "y < 16" for a :: byte
  using that by (simp add: unpack)

lemma b64_second: "(x * 16 + unat b div 16) mod 16 * 16 + (unat b mod 16 * 4 + y) div 4 = unat b"
  if "y < 4" for b :: byte
  using that by (simp add: unpack b64_hi)

lemma b64_third: "(x * 4 + unat c div 64) mod 4 * 64 + unat c mod 64 = unat c" for c :: byte
  by (simp add: unpack b64_hi)

lemma b64_no_space: "filter (\<lambda>c. \<not> b64_space c) (b64 bs) = b64 bs"
  by (induction bs rule: b64.induct) (simp_all add: b64_sextets)

lemma length_b64: "4 dvd length (b64 bs)"
proof (induction bs rule: b64.induct)
  case (4 a b c rest)
  then obtain k where "length (b64 rest) = 4 * k" by (auto simp: dvd_def)
  then have "length (b64 (a # b # c # rest)) = 4 * Suc k" by simp
  then show ?case by (rule dvdI)
next
  case (2 a)
  have "length (b64 [a]) = 4 * 1" by simp
  then show ?case by (rule dvdI)
next
  case (3 a b)
  have "length (b64 [a, b]) = 4 * 1" by simp
  then show ?case by (rule dvdI)
qed simp

text \<open>The characters of \<open>b64 bs\<close> before the padding, and their sextets.\<close>

fun b64_sx :: "bytes \<Rightarrow> nat list" where
  "b64_sx [] = []"
| "b64_sx [a] = [unat a div 4, unat a mod 4 * 16]"
| "b64_sx [a, b] = [unat a div 4, unat a mod 4 * 16 + unat b div 16, unat b mod 16 * 4]"
| "b64_sx (a # b # c # rest) = unat a div 4 # (unat a mod 4 * 16 + unat b div 16) #
     (unat b mod 16 * 4 + unat c div 64) # unat c mod 64 # b64_sx rest"

fun b64_padding :: "bytes \<Rightarrow> string" where
  "b64_padding [] = []"
| "b64_padding [a] = ''==''"
| "b64_padding [a, b] = ''=''"
| "b64_padding (a # b # c # rest) = b64_padding rest"

lemma b64_split: "b64 bs = map b64_char (b64_sx bs) @ b64_padding bs"
  by (induction bs rule: b64_padding.induct) simp_all

lemma b64_padding_cases:
  "b64_padding bs = [] \<or> b64_padding bs = ''='' \<and> bs \<noteq> [] \<or> b64_padding bs = ''==''"
  by (induction bs rule: b64_padding.induct) auto

lemma b64_sx_less: "n \<in> set (b64_sx bs) \<Longrightarrow> n < 64"
  by (induction bs rule: b64_sx.induct) (auto simp: b64_sextets)

lemma b64_sx_last: "b64_sx bs \<noteq> [] \<Longrightarrow> b64_char (last (b64_sx bs)) \<noteq> CHR ''=''"
  using b64_sx_less [of "last (b64_sx bs)" bs] by simp

lemma strip_pad_none:
  assumes "xs \<noteq> [] \<Longrightarrow> last xs \<noteq> CHR ''=''"
  shows "strip_pad xs = xs"
  using assms by (auto simp: strip_pad_def)

lemma strip_pad_one:
  assumes "xs \<noteq> []" "last xs \<noteq> CHR ''=''" "4 dvd length (xs @ ''='')"
  shows "strip_pad (xs @ ''='') = xs"
  using assms by (simp add: strip_pad_def Let_def)

lemma strip_pad_two:
  assumes "4 dvd length (xs @ ''=='')"
  shows "strip_pad (xs @ ''=='') = xs"
  using assms by (simp add: strip_pad_def Let_def butlast_append)

lemma b64_sx_Nil: "b64_sx bs = [] \<longleftrightarrow> bs = []"
  by (cases bs rule: b64_sx.cases) auto

lemma strip_pad_b64: "strip_pad (b64 bs) = map b64_char (b64_sx bs)"
proof -
  let ?m = "map b64_char (b64_sx bs)"
  have last: "?m \<noteq> [] \<Longrightarrow> last ?m \<noteq> CHR ''=''"
    using b64_sx_last [of bs] by (simp add: last_map)
  consider (0) "b64_padding bs = []" | (1) "b64_padding bs = ''=''" "bs \<noteq> []"
    | (2) "b64_padding bs = ''==''"
    using b64_padding_cases [of bs] by blast
  then show ?thesis
  proof cases
    case 0
    with strip_pad_none [OF last] show ?thesis by (simp add: b64_split)
  next
    case 1
    with last length_b64 [of bs] show ?thesis
      by (simp add: b64_split strip_pad_one b64_sx_Nil)
  next
    case 2
    with length_b64 [of bs] show ?thesis
      by (simp add: b64_split strip_pad_two)
  qed
qed

lemma b64_groups_sx: "b64_groups (b64_sx bs) = Some bs"
proof (induction bs rule: b64_sx.induct)
  case (2 a)
  then show ?case using b64_first [of 0 a] by simp
next
  case (3 a b)
  then show ?case
    using b64_first [of "unat b div 16" a] b64_second [of 0 "unat a mod 4" b] by (simp add: b64_hi)
next
  case (4 a b c rest)
  then show ?case
    using b64_first [of "unat b div 16" a] b64_second [of "unat c div 64" "unat a mod 4" b]
      b64_third [of "unat b mod 16" c] by (simp add: b64_hi)
qed simp

lemma b64_roundtrip_aux: "b64ToBytes (b64 bs) = Some bs"
proof -
  have "list_all (\<lambda>c. b64_val c \<noteq> None) (map b64_char (b64_sx bs))"
    by (auto simp: list_all_iff dest: b64_sx_less)
  moreover have "map (the \<circ> b64_val) (map b64_char (b64_sx bs)) = b64_sx bs"
    by (auto simp: map_idI b64_sx_less)
  ultimately show ?thesis
    by (simp add: b64ToBytes_def b64_no_space strip_pad_b64 b64_groups_sx)
qed

text \<open>
  Base64 round trip: whatever bytes the relay encodes (nonces, tokens, tickets, attested
  key ids), decoding the text gives exactly those bytes back.
\<close>

theorem b64_roundtrip: "b64ToBytes (b64 bs) = Some bs"
  by (rule b64_roundtrip_aux)

section \<open>Canonical encoding\<close>

definition concatBytes :: "bytes \<Rightarrow> bytes \<Rightarrow> bytes" where
  "concatBytes a b =
     (let out = replicate (length a + length b) 0 in set_at (set_at out 0 a) (length a) b)"

lemma concatBytes_eq: "concatBytes a b = a @ b"
  using set_at_replicate [of a "length a + length b" "[]" "0::byte"]
    set_at_replicate [of b "length b" a "0::byte"]
  by (simp add: concatBytes_def)

text \<open>
  \<open>canonicalEncode\<close>: one buffer of the total size is allocated and each element is written into
  it behind its four length bytes, \<open>off\<close> being the write position.
\<close>

fun canonical_loop :: "bytes \<Rightarrow> nat \<Rightarrow> bytes list \<Rightarrow> bytes" where
  "canonical_loop out off [] = out"
| "canonical_loop out off (e # es) =
     canonical_loop (set_at (set_at out off (be32 (length e))) (off + 4) e) (off + 4 + length e) es"

definition canonical_total :: "bytes list \<Rightarrow> nat" where
  "canonical_total elems = sum_list (map (\<lambda>e. 4 + length e) elems)"

definition canonicalEncode :: "string \<Rightarrow> bytes list \<Rightarrow> bytes" where
  "canonicalEncode domain fields =
     (let elems = utf8_encode domain # fields
      in canonical_loop (replicate (canonical_total elems) 0) 0 elems)"

text \<open>The reference reading: the elements, each behind its length.\<close>

definition framed :: "bytes list \<Rightarrow> bytes" where
  "framed elems = concat (map (\<lambda>e. be32 (length e) @ e) elems)"

lemma canonical_loop_framed:
  "canonical_loop (pre @ replicate (canonical_total es) 0) (length pre) es = pre @ framed es"
proof (induction es arbitrary: pre)
  case Nil
  then show ?case by (simp add: canonical_total_def framed_def)
next
  case (Cons e es)
  let ?n = "canonical_total (e # es)" and ?h = "be32 (length e)"
  have n: "?n = 4 + (length e + canonical_total es)"
    by (simp add: canonical_total_def)
  have "set_at (pre @ replicate ?n 0) (length pre) ?h
      = (pre @ ?h) @ replicate (length e + canonical_total es) 0"
    by (simp add: set_at_replicate n)
  moreover have "set_at ((pre @ ?h) @ replicate (length e + canonical_total es) 0) (length (pre @ ?h)) e
      = (pre @ ?h @ e) @ replicate (canonical_total es) 0"
    by (subst set_at_replicate) simp_all
  moreover have "length (pre @ ?h) = length pre + 4" "length (pre @ ?h @ e) = length pre + 4 + length e"
    by simp_all
  ultimately show ?case
    using Cons.IH [of "pre @ ?h @ e"] by (simp add: framed_def add.assoc)
qed

lemma canonicalEncode_framed_aux: "canonicalEncode domain fields = framed (utf8_encode domain # fields)"
  using canonical_loop_framed [of "[]"] by (simp add: canonicalEncode_def Let_def)

text \<open>
  The write loop of canonicalEncode fills its buffer exactly: the result is the domain and
  the fields in order, each behind its four-byte big-endian length, with no slack and no overlap.
\<close>

theorem canonicalEncode_framed: "canonicalEncode domain fields = framed (utf8_encode domain # fields)"
  by (rule canonicalEncode_framed_aux)

lemma framed_inj:
  assumes "framed es = framed fs" "\<forall>e \<in> set es. length e < 2 ^ 32" "\<forall>f \<in> set fs. length f < 2 ^ 32"
  shows "es = fs"
  using assms
proof (induction es arbitrary: fs)
  case Nil
  then show ?case by (cases fs) (auto simp: framed_def be32_def)
next
  case (Cons e es)
  then obtain f gs where fs: "fs = f # gs"
    by (cases fs) (auto simp: framed_def be32_def)
  with Cons.prems have eq: "be32 (length e) @ e @ framed es = be32 (length f) @ f @ framed gs"
    by (simp add: framed_def)
  then have "be32 (length e) = be32 (length f)" "e @ framed es = f @ framed gs"
    by (simp_all add: append_eq_same_length)
  moreover from this Cons.prems fs have "length e = length f"
    by (simp add: be32_inj)
  ultimately show ?case
    using Cons fs by (simp add: append_eq_same_length)
qed

lemma canonicalEncode_inj_aux:
  assumes "canonicalEncode d fs = canonicalEncode d' fs'"
    and "\<forall>e \<in> set (utf8_encode d # fs). length e < 2 ^ 32"
    and "\<forall>e \<in> set (utf8_encode d' # fs'). length e < 2 ^ 32"
  shows "d = d' \<and> fs = fs'"
proof -
  have "framed (utf8_encode d # fs) = framed (utf8_encode d' # fs')"
    using assms(1) by (simp add: canonicalEncode_framed_aux)
  from framed_inj [OF this assms(2,3)] show ?thesis
    by (simp add: utf8_encode_inj)
qed

text \<open>
  C10. Unambiguous encoding: two canonical encodings agree only if the domains and the field
  lists are the same. The hypotheses are the range of the four-byte length prefix.
\<close>

theorem canonicalEncode_inj:
  assumes "canonicalEncode d fs = canonicalEncode d' fs'"
    and "\<forall>e \<in> set (utf8_encode d # fs). length e < 2 ^ 32"
    and "\<forall>e \<in> set (utf8_encode d' # fs'). length e < 2 ^ 32"
  shows "d = d' \<and> fs = fs'"
  using assms by (rule canonicalEncode_inj_aux)

theorem canonicalEncode_inj_witness:
  "''ab'' = ''ab'' \<and> [[1, 2], [3 :: byte]] = [[1, 2], [3]]"
  by (rule canonicalEncode_inj) (simp_all add: utf8_encode_def utf8_char_def Let_def)

section \<open>Transcripts\<close>

datatype role = Mac | Phone

definition PROTOCOL_VERSION :: nat where
  "PROTOCOL_VERSION = 1"

fun ROLE_BYTE :: "role \<Rightarrow> nat" where
  "ROLE_BYTE Mac = 1"
| "ROLE_BYTE Phone = 2"

text \<open>The bytes a join signs; \<open>None\<close> when decoding the nonce raises.\<close>

definition joinTranscript :: "role \<Rightarrow> string \<Rightarrow> string \<Rightarrow> string \<Rightarrow> bytes option" where
  "joinTranscript rl nonceB64 roomName origin =
     map_option (\<lambda>nonce. canonicalEncode ''iterm2-relay-join''
       [[byte_of PROTOCOL_VERSION], [byte_of (ROLE_BYTE rl)], nonce, utf8_encode roomName,
        utf8_encode origin])
     (b64ToBytes nonceB64)"

text \<open>The bytes a room deletion signs.\<close>

definition deleteTranscript :: "string \<Rightarrow> string \<Rightarrow> string \<Rightarrow> bytes option" where
  "deleteTranscript challengeB64 roomName origin =
     map_option (\<lambda>ch. canonicalEncode ''iterm2-relay-delete''
       [[byte_of PROTOCOL_VERSION], ch, utf8_encode roomName, utf8_encode origin])
     (b64ToBytes challengeB64)"

definition short :: "bytes \<Rightarrow> bool" where
  "short bs \<longleftrightarrow> length bs < 2 ^ 32"

lemma short_domains:
  "short (utf8_encode ''iterm2-relay-join'')" "short (utf8_encode ''iterm2-relay-delete'')"
  "short [b]"
  by (simp_all add: short_def utf8_encode_def utf8_char_def Let_def)

lemma byte_of_small_inj: "m < 256 \<Longrightarrow> n < 256 \<Longrightarrow> byte_of m = byte_of n \<longleftrightarrow> m = n"
  by (metis mod_less unat_byte_of)

lemma ROLE_BYTE_inj: "byte_of (ROLE_BYTE r) = byte_of (ROLE_BYTE r') \<longleftrightarrow> r = r'"
  by (cases r; cases r') (simp_all add: byte_of_small_inj)

text \<open>
  C11. A join transcript binds everything it is meant to: equal transcripts of well-formed
  nonces carry the same role, the same nonce bytes, the same room name and the same origin, so a
  signature made for one join cannot be presented for another.
\<close>

theorem joinTranscript_binds:
  assumes "joinTranscript r (b64 n) room origin = joinTranscript r' (b64 n') room' origin'"
    and "\<forall>e \<in> {n, n', utf8_encode room, utf8_encode room', utf8_encode origin, utf8_encode origin'}. short e"
  shows "r = r' \<and> n = n' \<and> room = room' \<and> origin = origin'"
proof -
  have eq: "canonicalEncode ''iterm2-relay-join''
        [[byte_of PROTOCOL_VERSION], [byte_of (ROLE_BYTE r)], n, utf8_encode room, utf8_encode origin]
      = canonicalEncode ''iterm2-relay-join''
        [[byte_of PROTOCOL_VERSION], [byte_of (ROLE_BYTE r')], n', utf8_encode room', utf8_encode origin']"
    using assms(1) by (simp add: joinTranscript_def b64_roundtrip_aux)
  show ?thesis
    using canonicalEncode_inj_aux [OF eq] assms(2) short_domains
    by (auto simp: short_def utf8_encode_inj ROLE_BYTE_inj)
qed

theorem joinTranscript_binds_witness:
  "Mac = Mac \<and> [1, 2, 3 :: byte] = [1, 2, 3] \<and> ''r'' = ''r'' \<and> ''o'' = ''o''"
  by (rule joinTranscript_binds) (simp_all add: short_def utf8_encode_def utf8_char_def Let_def)

text \<open>
  Domain separation: no join transcript is ever a delete transcript, whatever the roles,
  nonces, rooms and origins, so a captured join signature cannot authorise deleting a room.
\<close>

theorem join_delete_disjoint:
  assumes "joinTranscript r nonce room origin = Some t" "deleteTranscript ch room' origin' = Some u"
  shows "t \<noteq> u"
proof
  let ?j = "utf8_encode ''iterm2-relay-join''" and ?d = "utf8_encode ''iterm2-relay-delete''"
  assume "t = u"
  moreover obtain xs ys where "t = framed (?j # xs)" "u = framed (?d # ys)"
    using assms by (auto simp: joinTranscript_def deleteTranscript_def canonicalEncode_framed_aux)
  ultimately have "be32 (length ?j) @ ?j @ framed xs = be32 (length ?d) @ ?d @ framed ys"
    by (simp add: framed_def)
  then have "be32 (length ?j) = be32 (length ?d)"
    by (simp add: append_eq_same_length)
  then have "length ?j = length ?d"
    by (subst (asm) be32_inj) (simp_all add: utf8_encode_def utf8_char_def Let_def)
  then show False
    by (simp add: utf8_encode_def utf8_char_def Let_def)
qed

theorem join_delete_disjoint_witness:
  "the (joinTranscript Mac ''AAAA'' ''r'' ''o'') \<noteq> the (deleteTranscript ''AAAA'' ''r'' ''o'')"
proof (rule join_delete_disjoint)
  have "b64ToBytes ''AAAA'' = Some [0, 0, 0]" by code_simp
  then show "joinTranscript Mac ''AAAA'' ''r'' ''o'' = Some (the (joinTranscript Mac ''AAAA'' ''r'' ''o''))"
    "deleteTranscript ''AAAA'' ''r'' ''o'' = Some (the (deleteTranscript ''AAAA'' ''r'' ''o''))"
    by (simp_all add: joinTranscript_def deleteTranscript_def)
qed

end
