(* ===== verification/ShardMap.thy ===== *)
theory ShardMap
  imports Bytes
begin

text \<open>
  Rooms, buckets and shard maps: \<^verbatim>\<open>src/sharding/bucket.js\<close>, \<^verbatim>\<open>room.js\<close>, \<^verbatim>\<open>shardMap.js\<close>,
  \<^verbatim>\<open>ownedSet.js\<close>, \<^verbatim>\<open>origin.js\<close>, \<^verbatim>\<open>mode.js\<close>, \<^verbatim>\<open>params.js\<close>. The lemmas show that a bucket is
  the last two digest bytes, that a map which passes validation tiles the bucket space, and
  that ownership under one map is a partition of the buckets among its hosts.
\<close>

section \<open>Room names and buckets\<close>

definition N_BUCKETS :: int where
  "N_BUCKETS = 65536"

definition hex_digit :: "char \<Rightarrow> bool" where
  "hex_digit c \<longleftrightarrow> CHR ''0'' \<le> c \<and> c \<le> CHR ''9'' \<or> CHR ''a'' \<le> c \<and> c \<le> CHR ''f''"

definition hex_val :: "char \<Rightarrow> nat" where
  "hex_val c = (if c \<le> CHR ''9'' then of_char c - 48 else of_char c - 87)"

text \<open>\<open>/^[0-9a-f]{64}$/.test(name)\<close>\<close>

definition canonical_room_name :: "string \<Rightarrow> bool" where
  "canonical_room_name s \<longleftrightarrow> length s = 64 \<and> list_all hex_digit s"

definition parse_hex :: "string \<Rightarrow> nat" where
  "parse_hex s = foldl (\<lambda>acc c. acc * 16 + hex_val c) 0 s"

definition bucketForRoomName :: "string option \<Rightarrow> int option" where
  "bucketForRoomName name =
     (case name of None \<Rightarrow> None
      | Some s \<Rightarrow> if canonical_room_name s then Some (int (parse_hex (drop 60 s))) else None)"

text \<open>\<open>digest("hex")\<close> and the room name a pairing derives.\<close>

definition hex_char :: "nat \<Rightarrow> char" where
  "hex_char n = ''0123456789abcdef'' ! n"

definition hex_byte :: "byte \<Rightarrow> string" where
  "hex_byte b = [hex_char (unat b div 16), hex_char (unat b mod 16)]"

definition hex_of :: "bytes \<Rightarrow> string" where
  "hex_of bs = concat (map hex_byte bs)"

definition roomName :: "(bytes \<Rightarrow> bytes) \<Rightarrow> bytes \<Rightarrow> string \<Rightarrow> string" where
  "roomName sha256 rs pid = hex_of (sha256 (canonicalEncode ''iterm2-room'' [rs, utf8_encode pid]))"

definition bucketFor :: "(bytes \<Rightarrow> bytes) \<Rightarrow> bytes \<Rightarrow> string \<Rightarrow> int option" where
  "bucketFor sha256 rs pid = bucketForRoomName (Some (roomName sha256 rs pid))"

lemma hex_char_facts:
  "\<forall>n \<in> set [0..<16]. hex_digit (hex_char n) \<and> hex_val (hex_char n) = n"
  by code_simp

lemma hex_digit_char [simp]: "n < 16 \<Longrightarrow> hex_digit (hex_char n)"
  and hex_val_char [simp]: "n < 16 \<Longrightarrow> hex_val (hex_char n) = n"
  using hex_char_facts by simp_all

lemma byte_div_16 [simp]: "unat (b :: byte) div 16 < 16"
  using unat_byte_less [of b] by (simp add: less_mult_imp_div_less)

lemma hex_val_less: "hex_digit c \<Longrightarrow> hex_val c < 16"
  by (auto simp: hex_digit_def hex_val_def less_eq_char_def)

lemma length_hex_of [simp]: "length (hex_of bs) = 2 * length bs"
  by (induction bs) (simp_all add: hex_of_def hex_byte_def)

lemma hex_of_digits: "list_all hex_digit (hex_of bs)"
  by (induction bs) (simp_all add: hex_of_def hex_byte_def)

lemma drop_hex_of: "drop (2 * n) (hex_of bs) = hex_of (drop n bs)"
proof (induction bs arbitrary: n)
  case (Cons b bs)
  then show ?case by (cases n) (simp_all add: hex_of_def hex_byte_def)
qed (simp add: hex_of_def)

lemma canonical_hex_of: "length bs = 32 \<Longrightarrow> canonical_room_name (hex_of bs)"
  by (simp add: canonical_room_name_def hex_of_digits)

lemma parse_hex_4:
  assumes "length s = 4" "list_all hex_digit s"
  shows "parse_hex s < 65536"
proof -
  from assms(1) obtain a b c d where s: "s = [a, b, c, d]"
    by (auto simp: numeral_eq_Suc length_Suc_conv)
  with assms(2) have "hex_val a < 16" "hex_val b < 16" "hex_val c < 16" "hex_val d < 16"
    by (simp_all add: hex_val_less)
  then show ?thesis by (simp add: s parse_hex_def)
qed

lemma bucket_range:
  assumes "bucketForRoomName name = Some b"
  shows "0 \<le> b \<and> b < N_BUCKETS"
proof -
  from assms obtain s where s: "canonical_room_name s" "b = int (parse_hex (drop 60 s))"
    by (auto simp: bucketForRoomName_def split: option.splits if_splits)
  then have "parse_hex (drop 60 s) < 65536"
    by (intro parse_hex_4) (auto simp: canonical_room_name_def list_all_iff dest: in_set_dropD)
  with s show ?thesis by (simp add: N_BUCKETS_def)
qed

text \<open>
  The bucket a relay reads off a room name is the derivation both sides share: the last two
  bytes, big-endian, of the digest of the canonically encoded pairing secret and id; it always
  exists and lies in the bucket space. The hypothesis is the length of a SHA-256 digest.
\<close>

theorem bucketFor_digest:
  assumes "\<And>m. length (sha256 m) = 32"
  shows "let d = sha256 (canonicalEncode ''iterm2-room'' [rs, utf8_encode pid])
    in bucketFor sha256 rs pid = Some (int (unat (d ! 30) * 256 + unat (d ! 31)))
      \<and> unat (d ! 30) * 256 + unat (d ! 31) < 65536"
proof -
  let ?d = "sha256 (canonicalEncode ''iterm2-room'' [rs, utf8_encode pid])"
  have len: "length ?d = 32" by (rule assms)
  have last2: "drop 30 ?d = [?d ! 30, ?d ! 31]"
    using len by (simp add: Cons_nth_drop_Suc [symmetric])
  have "parse_hex (drop 60 (hex_of ?d)) = unat (?d ! 30) * 256 + unat (?d ! 31)"
    using drop_hex_of [of 30 ?d] last2
    by (simp add: parse_hex_def hex_of_def hex_byte_def)
  moreover have "unat (?d ! 30) * 256 + unat (?d ! 31) < 65536"
    using unat_byte_less [of "?d ! 30"] unat_byte_less [of "?d ! 31"] by linarith
  ultimately show ?thesis
    by (simp add: bucketFor_def roomName_def bucketForRoomName_def canonical_hex_of len Let_def)
qed

theorem bucketFor_digest_witness:
  "bucketFor (\<lambda>m. replicate 30 0 @ [1, 2]) [7] ''p'' = Some 258"
  using bucketFor_digest [of "\<lambda>m. replicate 30 0 @ [1, 2]" "[7]" "''p''"] by (simp add: Let_def nth_append)

section \<open>Shard maps\<close>

record range =
  low :: int
  high :: int
  host :: string

record shardmap =
  version :: int
  ranges :: "range list"

datatype ShardMapError =
    negativeVersion | emptyRanges | emptyHost | invalidHost string
  | invalidRange int int | gapOrOverlap | malformed

text \<open>The characters JavaScript's \<open>\s\<close> matches, below code unit 256.\<close>

definition js_space :: "char \<Rightarrow> bool" where
  "js_space c \<longleftrightarrow> of_char c \<in> {9 :: nat, 10, 11, 12, 13, 32, 160}"

definition isBareAuthority :: "string \<Rightarrow> bool" where
  "isBareAuthority h =
     (if h = [] then False
      else if list_ex (\<lambda>c. c \<in> set ''/@?#'' \<or> js_space c) h then False
      else if list_ex (\<lambda>c. CHR ''A'' \<le> c \<and> c \<le> CHR ''Z'') h then False
      else last h \<noteq> CHR ''.'')"

definition parse_range :: "jsval \<Rightarrow> range option" where
  "parse_range r =
     (case r of
        JObj ps \<Rightarrow>
          (case (as_int (map_of ps ''low''), as_int (map_of ps ''high''), as_string (map_of ps ''host'')) of
             (Some l, Some h, Some hst) \<Rightarrow> Some \<lparr>low = l, high = h, host = hst\<rparr>
           | _ \<Rightarrow> None)
      | _ \<Rightarrow> None)"

fun parse_ranges :: "jsval list \<Rightarrow> range list option" where
  "parse_ranges [] = Some []"
| "parse_ranges (r # rs) =
     (case parse_range r of None \<Rightarrow> None
      | Some x \<Rightarrow> map_option ((#) x) (parse_ranges rs))"

text \<open>\<open>parsed\<close> is the result of JSON.parse on the text, \<open>None\<close> when it raises.\<close>

definition parseShardMap :: "jsval option \<Rightarrow> ShardMapError + shardmap" where
  "parseShardMap parsed =
     (case parsed of
        Some (JObj ps) \<Rightarrow>
          (case as_int (map_of ps ''version'') of None \<Rightarrow> Inl malformed
           | Some v \<Rightarrow>
             (case map_of ps ''ranges'' of
                Some (JArr rs) \<Rightarrow>
                  (case parse_ranges rs of None \<Rightarrow> Inl malformed
                   | Some out \<Rightarrow> Inr \<lparr>version = v, ranges = out\<rparr>)
              | _ \<Rightarrow> Inl malformed))
      | _ \<Rightarrow> Inl malformed)"

fun check_ranges :: "range list \<Rightarrow> ShardMapError option" where
  "check_ranges [] = None"
| "check_ranges (r # rs) =
     (if host r = [] then Some emptyHost
      else if \<not> isBareAuthority (host r) then Some (invalidHost (host r))
      else if low r > high r \<or> low r < 0 \<or> high r \<ge> N_BUCKETS then Some (invalidRange (low r) (high r))
      else check_ranges rs)"

fun walk :: "int \<Rightarrow> range list \<Rightarrow> int option" where
  "walk expectedNext [] = Some expectedNext"
| "walk expectedNext (r # rs) = (if low r \<noteq> expectedNext then None else walk (high r + 1) rs)"

text \<open>\<open>None\<close> is a map that passes, \<open>Some e\<close> the error that is thrown.\<close>

definition validateShardMap :: "shardmap \<Rightarrow> ShardMapError option" where
  "validateShardMap m =
     (if version m < 0 then Some negativeVersion
      else if ranges m = [] then Some emptyRanges
      else case check_ranges (ranges m) of Some e \<Rightarrow> Some e
      | None \<Rightarrow>
        (case walk 0 (sort_key low (ranges m)) of None \<Rightarrow> Some gapOrOverlap
         | Some n \<Rightarrow> if n \<noteq> N_BUCKETS then Some gapOrOverlap else None))"

definition covers :: "int \<Rightarrow> range \<Rightarrow> bool" where
  "covers b r \<longleftrightarrow> low r \<le> b \<and> b \<le> high r"

definition hostForBucket :: "shardmap \<Rightarrow> int \<Rightarrow> string option" where
  "hostForBucket m b =
     (if b < 0 \<or> b \<ge> N_BUCKETS then None else map_option host (find (covers b) (ranges m)))"

lemma check_ranges_None:
  "check_ranges rs = None \<longleftrightarrow>
     (\<forall>r \<in> set rs. isBareAuthority (host r) \<and> low r \<le> high r \<and> 0 \<le> low r \<and> high r < N_BUCKETS)"
  by (induction rs) (auto simp: isBareAuthority_def)

lemma walk_covers:
  assumes "walk n rs = Some m" "\<forall>r \<in> set rs. low r \<le> high r"
  shows "n \<le> m \<and> (\<forall>b. length (filter (covers b) rs) = (if n \<le> b \<and> b < m then 1 else 0))"
  using assms
proof (induction rs arbitrary: n)
  case (Cons r rs)
  then have r: "low r = n" "n \<le> high r" and w: "walk (high r + 1) rs = Some m"
    by (auto split: if_splits)
  from Cons.IH [OF w] Cons.prems(2)
  have m: "high r + 1 \<le> m"
    and IH: "\<And>b. length (filter (covers b) rs) = (if high r + 1 \<le> b \<and> b < m then 1 else 0)"
    by auto
  have "length (filter (covers b) (r # rs)) = (if n \<le> b \<and> b < m then 1 else 0)" for b
    using r m IH [of b] by (cases "covers b r") (auto simp: covers_def)
  with r m show ?case by auto
qed auto

lemma walk_gap:
  assumes "sorted_wrt (\<lambda>x y. low x \<le> low y) rs" "\<forall>r \<in> set rs. low r \<le> high r"
    and "\<And>b. n \<le> b \<Longrightarrow> b < m \<Longrightarrow> length (filter (covers b) rs) = 1"
    and "\<forall>r \<in> set rs. n \<le> low r \<and> high r < m" "n \<le> m"
  shows "walk n rs = Some m"
  using assms
proof (induction rs arbitrary: n)
  case Nil
  show ?case
    using Nil.prems(3) [of n] Nil.prems(5) by (cases "n < m") auto
next
  case (Cons r rs)
  have "n < m" using Cons.prems(2,4) by fastforce
  have low: "low r = n"
  proof (rule ccontr)
    assume "low r \<noteq> n"
    with Cons.prems(4) have "n < low r" by auto
    with Cons.prems(1) have "filter (covers n) (r # rs) = []"
      by (auto simp: filter_empty_conv covers_def)
    with Cons.prems(3) [of n] \<open>n < m\<close> show False by simp
  qed
  have rest: "filter (covers b) rs = []" if "n \<le> b" "b \<le> high r" for b
  proof -
    have "length (filter (covers b) (r # rs)) = 1"
      using Cons.prems(3,4) that by auto
    moreover have "covers b r" using that low by (simp add: covers_def)
    ultimately show ?thesis by simp
  qed
  have lows: "high r + 1 \<le> low x" if "x \<in> set rs" for x
  proof (rule ccontr)
    assume "\<not> high r + 1 \<le> low x"
    moreover have "n \<le> low x" "low x \<le> high x"
      using Cons.prems(2,4) that by auto
    ultimately have "x \<in> set (filter (covers (low x)) rs)" "filter (covers (low x)) rs = []"
      using that by (auto simp: covers_def intro!: rest)
    then show False by simp
  qed
  have "walk (high r + 1) rs = Some m"
  proof (rule Cons.IH)
    fix b assume b: "high r + 1 \<le> b" "b < m"
    have "length (filter (covers b) (r # rs)) = 1"
      using Cons.prems(2) b low by (intro Cons.prems(3)) auto
    moreover have "\<not> covers b r" using b by (simp add: covers_def)
    ultimately show "length (filter (covers b) rs) = 1" by simp
  qed (use Cons.prems lows in auto)
  with low show ?case by simp
qed

lemma covered_once_sort:
  "length (filter (covers b) (sort_key low rs)) = length (filter (covers b) rs)"
  by (simp add: filter_sort)

definition well_formed_map :: "shardmap \<Rightarrow> bool" where
  "well_formed_map m \<longleftrightarrow> validateShardMap m = None"

lemma well_formed_ranges:
  assumes "well_formed_map m"
  shows "\<forall>r \<in> set (ranges m). low r \<le> high r \<and> 0 \<le> low r \<and> high r < N_BUCKETS"
  using assms check_ranges_None [of "ranges m"]
  by (auto simp: well_formed_map_def validateShardMap_def split: if_splits option.splits)

lemma well_formed_tiles:
  assumes "well_formed_map m" "0 \<le> b" "b < N_BUCKETS"
  shows "length (filter (covers b) (ranges m)) = 1"
proof -
  have "walk 0 (sort_key low (ranges m)) = Some N_BUCKETS"
    using assms(1) by (auto simp: well_formed_map_def validateShardMap_def split: if_splits option.splits)
  from walk_covers [OF this] well_formed_ranges [OF assms(1)] assms(2,3)
  show ?thesis by (auto simp: covered_once_sort)
qed

lemma validateShardMap_iff_tiling_aux:
  "validateShardMap m = None \<longleftrightarrow>
     0 \<le> version m \<and> ranges m \<noteq> []
     \<and> (\<forall>r \<in> set (ranges m). isBareAuthority (host r) \<and> low r \<le> high r \<and> 0 \<le> low r \<and> high r < N_BUCKETS)
     \<and> (\<forall>b. 0 \<le> b \<and> b < N_BUCKETS \<longrightarrow> length (filter (covers b) (ranges m)) = 1)"
  (is "?valid \<longleftrightarrow> ?tiling")
proof
  assume ?valid
  then have "check_ranges (ranges m) = None" "0 \<le> version m" "ranges m \<noteq> []"
    by (auto simp: validateShardMap_def split: if_splits option.splits)
  with well_formed_tiles [of m] \<open>?valid\<close> show ?tiling
    by (auto simp: check_ranges_None well_formed_map_def)
next
  assume t: ?tiling
  then have "check_ranges (ranges m) = None" by (simp add: check_ranges_None)
  moreover have "walk 0 (sort_key low (ranges m)) = Some N_BUCKETS"
  proof (rule walk_gap)
    show "sorted_wrt (\<lambda>x y. low x \<le> low y) (sort_key low (ranges m))"
      using sorted_sort_key [of low "ranges m"] by (simp add: sorted_wrt_map)
  qed (use t in \<open>auto simp: covered_once_sort N_BUCKETS_def\<close>)
  ultimately show ?valid
    using t by (auto simp: validateShardMap_def not_le)
qed

text \<open>
  C12. Validation is exactly the tiling condition: a shard map is accepted if and only if its
  version is not negative, it has a range, every host is a bare authority, every range is in
  bounds, and every bucket of the ring is covered by exactly one range.
\<close>

theorem validateShardMap_iff_tiling:
  "validateShardMap m = None \<longleftrightarrow>
     0 \<le> version m \<and> ranges m \<noteq> []
     \<and> (\<forall>r \<in> set (ranges m). isBareAuthority (host r) \<and> low r \<le> high r \<and> 0 \<le> low r \<and> high r < N_BUCKETS)
     \<and> (\<forall>b. 0 \<le> b \<and> b < N_BUCKETS \<longrightarrow> length (filter (covers b) (ranges m)) = 1)"
  by (rule validateShardMap_iff_tiling_aux)

definition demo_map :: shardmap where
  "demo_map = \<lparr>version = 1, ranges = [\<lparr>low = 0, high = 32767, host = ''a''\<rparr>,
     \<lparr>low = 32768, high = 65535, host = ''b''\<rparr>]\<rparr>"

lemma demo_map_valid: "validateShardMap demo_map = None"
  by code_simp

theorem validateShardMap_iff_tiling_witness:
  "length (filter (covers 40000) (ranges demo_map)) = 1"
  using demo_map_valid validateShardMap_iff_tiling [of demo_map] by (simp add: N_BUCKETS_def)

lemma find_covers:
  assumes "length (filter P xs) = 1"
  shows "\<exists>x. find P xs = Some x \<and> x \<in> set xs \<and> P x \<and> (\<forall>y \<in> set xs. P y \<longrightarrow> y = x)"
  using assms
proof (induction xs)
  case (Cons a xs)
  then show ?case by (cases "P a") (auto simp: filter_empty_conv)
qed simp

section \<open>Owned buckets\<close>

definition ownedBuckets :: "shardmap \<Rightarrow> string \<Rightarrow> int set" where
  "ownedBuckets m selfHost =
     fold (\<lambda>r owned. if host r \<noteq> selfHost then owned else fold insert [low r..high r] owned)
       (ranges m) {}"

definition diffOwned :: "int set \<Rightarrow> int set \<Rightarrow> int set \<times> int set" where
  "diffOwned oldSet newSet = (newSet - oldSet, oldSet - newSet)"

lemma fold_insert_upto: "fold insert xs A = set xs \<union> A"
  by (induction xs arbitrary: A) auto

lemma ownedBuckets_iff: "b \<in> ownedBuckets m h \<longleftrightarrow> (\<exists>r \<in> set (ranges m). host r = h \<and> covers b r)"
proof -
  have "b \<in> fold (\<lambda>r owned. if host r \<noteq> h then owned else fold insert [low r..high r] owned) rs A
      \<longleftrightarrow> b \<in> A \<or> (\<exists>r \<in> set rs. host r = h \<and> covers b r)" for rs A
    by (induction rs arbitrary: A) (auto simp: fold_insert_upto covers_def)
  then show ?thesis by (simp add: ownedBuckets_def)
qed

lemma owned_iff_host:
  assumes "well_formed_map m"
  shows "b \<in> ownedBuckets m h \<longleftrightarrow> hostForBucket m b = Some h"
proof (cases "0 \<le> b \<and> b < N_BUCKETS")
  case True
  with find_covers [OF well_formed_tiles [OF assms]] show ?thesis
    by (fastforce simp: ownedBuckets_iff hostForBucket_def)
next
  case False
  with well_formed_ranges [OF assms] show ?thesis
    by (fastforce simp: ownedBuckets_iff hostForBucket_def covers_def)
qed

text \<open>
  C13. Ownership is a partition: under a validated map every bucket of the ring belongs to the
  owned set of exactly one host, the one hostForBucket names, and no host owns anything outside
  the ring.
\<close>

theorem ownership_partition:
  assumes "validateShardMap m = None"
  shows "(\<exists>!h. b \<in> ownedBuckets m h) = (0 \<le> b \<and> b < N_BUCKETS)
    \<and> (b \<in> ownedBuckets m h) = (hostForBucket m b = Some h)"
proof
  have wf: "well_formed_map m" using assms by (simp add: well_formed_map_def)
  show "(b \<in> ownedBuckets m h) = (hostForBucket m b = Some h)"
    by (rule owned_iff_host [OF wf])
  show "(\<exists>!h. b \<in> ownedBuckets m h) = (0 \<le> b \<and> b < N_BUCKETS)"
    using find_covers [OF well_formed_tiles [OF wf]]
    by (fastforce simp: owned_iff_host [OF wf] hostForBucket_def)
qed

theorem ownership_partition_witness:
  "(\<exists>!h. 40000 \<in> ownedBuckets demo_map h) \<and> 40000 \<in> ownedBuckets demo_map ''b''"
proof -
  have "hostForBucket demo_map 40000 = Some ''b''" by code_simp
  with ownership_partition [OF demo_map_valid, of 40000 "''b''"] show ?thesis
    by (simp add: N_BUCKETS_def)
qed

end
