(* ===== verification/ShardStore.thy ===== *)
theory ShardStore
  imports ShardMap
begin

text \<open>
  The shard-map state a relay holds and the gate that reads it: \<^verbatim>\<open>src/sharding/mode.js\<close>,
  \<^verbatim>\<open>origin.js\<close>, \<^verbatim>\<open>params.js\<close>, \<^verbatim>\<open>shardMapStore.js\<close>, \<^verbatim>\<open>shardMapPoller.js\<close> and \<^verbatim>\<open>admission.js\<close>.
  The network fetch and JSON.parse are arguments. The lemmas show that every poll keeps the
  store consistent with a validated map, that versions only grow, that the reported differences
  add up to the owned set, and that boxes holding the same map never admit the same room.
\<close>

section \<open>Mode, origin and parameters\<close>

datatype mode = MODE_DIRECT | MODE_DISTRIBUTED

text \<open>\<open>Boolean(s)\<close> for a string or undefined.\<close>

definition truthy_str :: "string option \<Rightarrow> bool" where
  "truthy_str s = (case s of None \<Rightarrow> False | Some t \<Rightarrow> t \<noteq> [])"

datatype config_error = HalfDistributed | OriginMismatch string string
  | ttlNotBelowPoll | drainDelayTooShort | nonPositiveRate

definition resolveMode :: "string option \<Rightarrow> string option \<Rightarrow> config_error + mode" where
  "resolveMode shardMapUrl selfHost =
     (let hasUrl = truthy_str shardMapUrl; hasHost = truthy_str selfHost
      in if hasUrl \<and> hasHost then Inr MODE_DISTRIBUTED
         else if \<not> hasUrl \<and> \<not> hasHost then Inr MODE_DIRECT
         else Inl HalfDistributed)"

definition originForHost :: "string \<Rightarrow> string" where
  "originForHost h = ''https://'' @ h"

definition assertOriginMatches :: "string \<Rightarrow> string \<Rightarrow> config_error + unit" where
  "assertOriginMatches configured h =
     (if configured \<noteq> originForHost h then Inl (OriginMismatch configured (originForHost h)) else Inr ())"

definition validateParams :: "rat \<Rightarrow> rat \<Rightarrow> rat \<Rightarrow> rat \<Rightarrow> config_error + unit" where
  "validateParams ttlMs pollMs drainDelayMs evictionRate =
     (if \<not> ttlMs < pollMs then Inl ttlNotBelowPoll
      else if \<not> drainDelayMs \<ge> 2 * pollMs then Inl drainDelayTooShort
      else if \<not> evictionRate > 0 then Inl nonPositiveRate
      else Inr ())"

definition SHARDMAP_TTL_MS :: rat where "SHARDMAP_TTL_MS = 5000"
definition SHARDMAP_POLL_INTERVAL_MS :: rat where "SHARDMAP_POLL_INTERVAL_MS = 10000"
definition RESHARD_DRAIN_DELAY_MS :: rat where "RESHARD_DRAIN_DELAY_MS = 20000"
definition RESHARD_EVICTION_RATE :: rat where "RESHARD_EVICTION_RATE = 10"

lemma default_params_valid:
  "validateParams SHARDMAP_TTL_MS SHARDMAP_POLL_INTERVAL_MS RESHARD_DRAIN_DELAY_MS
     RESHARD_EVICTION_RATE = Inr ()"
  by (simp add: validateParams_def SHARDMAP_TTL_MS_def SHARDMAP_POLL_INTERVAL_MS_def
      RESHARD_DRAIN_DELAY_MS_def RESHARD_EVICTION_RATE_def)

section \<open>The store\<close>

record store =
  st_selfHost :: string
  st_map :: "shardmap option"
  st_owned :: "int set"

record diff =
  adopted :: bool
  acquired :: "int set"
  relinquished :: "int set"

definition EMPTY_DIFF :: diff where
  "EMPTY_DIFF = \<lparr>adopted = False, acquired = {}, relinquished = {}\<rparr>"

definition new_store :: "string \<Rightarrow> store" where
  "new_store selfHost = \<lparr>st_selfHost = selfHost, st_map = None, st_owned = {}\<rparr>"

definition st_version :: "store \<Rightarrow> int" where
  "st_version st = (case st_map st of None \<Rightarrow> -1 | Some m \<Rightarrow> version m)"

definition hasMap :: "store \<Rightarrow> bool" where
  "hasMap st \<longleftrightarrow> st_map st \<noteq> None"

definition applyFetched :: "shardmap \<Rightarrow> store \<Rightarrow> diff \<times> store" where
  "applyFetched m st =
     (if (case st_map st of None \<Rightarrow> False | Some held \<Rightarrow> version m \<le> version held)
      then (EMPTY_DIFF, st)
      else let newOwned = ownedBuckets m (st_selfHost st);
               (acq, rel) = diffOwned (st_owned st) newOwned
           in (\<lparr>adopted = True, acquired = acq, relinquished = rel\<rparr>,
               st\<lparr>st_map := Some m, st_owned := newOwned\<rparr>))"

definition applyFetchError :: "store \<Rightarrow> store" where
  "applyFetchError st = st"

definition ownsBucket :: "store \<Rightarrow> int \<Rightarrow> bool" where
  "ownsBucket st b \<longleftrightarrow> b \<in> st_owned st"

section \<open>The poller\<close>

text \<open>What \<open>fetchText\<close> did, the callbacks one fetch step makes, and its result.\<close>

datatype fetch_reply = FetchFailed | FetchText string
datatype poll_call = OnError | OnAdopt shardmap diff | OnOk bool int
datatype poll_result = PollFailed string | PollOk bool "int set" "int set" int

definition fetchOnce ::
  "(string \<Rightarrow> jsval option) \<Rightarrow> fetch_reply \<Rightarrow> store \<Rightarrow> poll_result \<times> poll_call list \<times> store" where
  "fetchOnce json reply st =
     (case reply of
        FetchFailed \<Rightarrow> (PollFailed ''fetch'', [OnError], applyFetchError st)
      | FetchText text \<Rightarrow>
        (case parseShardMap (json text) of
           Inl e \<Rightarrow> (PollFailed ''parse'', [OnError], applyFetchError st)
         | Inr m \<Rightarrow>
           (case validateShardMap m of
              Some e \<Rightarrow> (PollFailed ''parse'', [OnError], applyFetchError st)
            | None \<Rightarrow>
              (case applyFetched m st of (d, st') \<Rightarrow>
                 (PollOk (adopted d) (acquired d) (relinquished d) (version m),
                  (if adopted d then [OnAdopt m d] else []) @ [OnOk (adopted d) (version m)],
                  st')))))"

fun poll_run :: "(string \<Rightarrow> jsval option) \<Rightarrow> fetch_reply list \<Rightarrow> store \<Rightarrow> store" where
  "poll_run json [] st = st"
| "poll_run json (r # rs) st = poll_run json rs (snd (snd (fetchOnce json r st)))"

definition store_ok :: "store \<Rightarrow> bool" where
  "store_ok st \<longleftrightarrow>
     (case st_map st of None \<Rightarrow> st_owned st = {}
      | Some m \<Rightarrow> well_formed_map m \<and> st_owned st = ownedBuckets m (st_selfHost st))"

lemma store_ok_new: "store_ok (new_store h)"
  by (simp add: store_ok_def new_store_def)

lemma fetchOnce_cases:
  obtains (kept) "snd (snd (fetchOnce json r st)) = st" "\<forall>m d. OnAdopt m d \<notin> set (fst (snd (fetchOnce json r st)))"
  | (took) m d where "well_formed_map m"
      "\<forall>held. st_map st = Some held \<longrightarrow> version held < version m"
      "snd (snd (fetchOnce json r st)) = st\<lparr>st_map := Some m, st_owned := ownedBuckets m (st_selfHost st)\<rparr>"
      "fst (snd (fetchOnce json r st)) = [OnAdopt m d, OnOk True (version m)]"
      "acquired d = ownedBuckets m (st_selfHost st) - st_owned st"
      "relinquished d = st_owned st - ownedBuckets m (st_selfHost st)"
proof (cases "\<exists>m d. OnAdopt m d \<in> set (fst (snd (fetchOnce json r st)))")
  case False
  then have "snd (snd (fetchOnce json r st)) = st"
    by (auto simp: fetchOnce_def applyFetchError_def applyFetched_def diffOwned_def EMPTY_DIFF_def Let_def
        split: fetch_reply.splits sum.splits option.splits prod.splits if_splits)
  with False kept show thesis by blast
next
  case True
  then show thesis
    by (auto simp: fetchOnce_def applyFetched_def diffOwned_def EMPTY_DIFF_def well_formed_map_def Let_def
        split: fetch_reply.splits sum.splits option.splits prod.splits if_splits intro!: took)
qed

lemma fetchOnce_self [simp]: "st_selfHost (snd (snd (fetchOnce json r st))) = st_selfHost st"
  by (cases rule: fetchOnce_cases [of json r st]) simp_all

lemma fetchOnce_ok: "store_ok st \<Longrightarrow> store_ok (snd (snd (fetchOnce json r st)))"
  by (cases rule: fetchOnce_cases [of json r st]) (simp_all add: store_ok_def)

lemma fetchOnce_version:
  assumes "store_ok st"
  shows "st_version st \<le> st_version (snd (snd (fetchOnce json r st)))"
proof (cases rule: fetchOnce_cases [of json r st])
  case (took m d)
  then have "0 \<le> version m"
    by (auto simp: well_formed_map_def validateShardMap_iff_tiling_aux)
  with took show ?thesis
    by (cases "st_map st") (auto simp: st_version_def)
qed simp

lemma poll_run_ok: "store_ok st \<Longrightarrow> store_ok (poll_run json rs st)"
  by (induction rs arbitrary: st) (simp_all add: fetchOnce_ok)

lemma poll_run_self [simp]: "st_selfHost (poll_run json rs st) = st_selfHost st"
  by (induction rs arbitrary: st) simp_all

lemma poll_run_version: "store_ok st \<Longrightarrow> st_version st \<le> st_version (poll_run json rs st)"
proof (induction rs arbitrary: st)
  case (Cons r rs)
  have "st_version st \<le> st_version (snd (snd (fetchOnce json r st)))"
    by (rule fetchOnce_version [OF Cons.prems])
  also have "\<dots> \<le> st_version (poll_run json rs (snd (snd (fetchOnce json r st))))"
    by (rule Cons.IH [OF fetchOnce_ok [OF Cons.prems]])
  finally show ?case by simp
qed simp

text \<open>
  C14. The store stays safe under any sequence of polls, failed, malformed, stale or good: from
  boot it always holds either no map and nothing owned, or a validated map and exactly the
  buckets that map gives this host, and the held version never goes back.
\<close>

theorem store_safe_after_polls:
  "(let st = poll_run json rs (new_store h) in
      (case st_map st of None \<Rightarrow> st_owned st = {}
       | Some m \<Rightarrow> validateShardMap m = None \<and> st_owned st = ownedBuckets m h)
      \<and> st_version st \<le> st_version (poll_run json later st))"
proof -
  let ?st = "poll_run json rs (new_store h)"
  have ok: "store_ok ?st" by (rule poll_run_ok [OF store_ok_new])
  have self: "st_selfHost ?st = h" by (simp add: new_store_def)
  show ?thesis
    using ok self poll_run_version [OF ok]
    by (auto simp: store_ok_def well_formed_map_def Let_def split: option.splits)
qed

text \<open>The owned set a listener builds from the callbacks alone.\<close>

definition listen :: "poll_call list \<Rightarrow> int set \<Rightarrow> int set" where
  "listen = fold (\<lambda>c owned. case c of OnAdopt m d \<Rightarrow> (owned - relinquished d) \<union> acquired d | _ \<Rightarrow> owned)"

fun poll_calls :: "(string \<Rightarrow> jsval option) \<Rightarrow> fetch_reply list \<Rightarrow> store \<Rightarrow> poll_call list" where
  "poll_calls json [] st = []"
| "poll_calls json (r # rs) st =
     fst (snd (fetchOnce json r st)) @ poll_calls json rs (snd (snd (fetchOnce json r st)))"

lemma listen_append: "listen (xs @ ys) A = listen ys (listen xs A)"
  by (simp add: listen_def)

lemma listen_no_adopt:
  "\<forall>m d. OnAdopt m d \<notin> set cs \<Longrightarrow> listen cs A = A"
  unfolding listen_def by (induction cs) (auto split: poll_call.splits)

lemma listen_fetchOnce:
  "listen (fst (snd (fetchOnce json r st))) (st_owned st) = st_owned (snd (snd (fetchOnce json r st)))"
  by (cases rule: fetchOnce_cases [of json r st]) (auto simp: listen_no_adopt, auto simp: listen_def)

text \<open>
  C15. The adoption callbacks are complete and exact: a listener that starts with nothing and
  applies only the acquired and relinquished sets it is told about, which is how the drain
  scheduler follows the map, ends with the very set the ownership gate consults.
\<close>

theorem callbacks_track_ownership:
  "listen (poll_calls json rs (new_store h)) {} = st_owned (poll_run json rs (new_store h))"
proof -
  have "listen (poll_calls json rs st) (st_owned st) = st_owned (poll_run json rs st)" for st
    by (induction rs arbitrary: st) (simp add: listen_def, simp add: listen_append listen_fetchOnce)
  from this [of "new_store h"] show ?thesis by (simp add: new_store_def)
qed

section \<open>The ownership gate\<close>

datatype decision = Admit "int option" | Reject nat string "int option"

definition REJECT_STATUS :: nat where
  "REJECT_STATUS = 421"

definition ownershipDecision :: "mode \<Rightarrow> string option \<Rightarrow> (int \<Rightarrow> bool) \<Rightarrow> decision" where
  "ownershipDecision md name owns =
     (if md = MODE_DIRECT then Admit None
      else case bucketForRoomName name of
        None \<Rightarrow> Reject REJECT_STATUS ''unroutable'' None
      | Some b \<Rightarrow> if owns b then Admit (Some b) else Reject REJECT_STATUS ''not-owner'' (Some b))"

fun admits :: "decision \<Rightarrow> bool" where
  "admits (Admit _) = True"
| "admits (Reject _ _ _) = False"

lemma admits_distributed:
  "admits (ownershipDecision MODE_DISTRIBUTED name owns)
    \<longleftrightarrow> (\<exists>b. bucketForRoomName name = Some b \<and> owns b)"
  by (auto simp: ownershipDecision_def split: option.splits)

text \<open>
  What the gate relies on: the provider answers ownership from the map it holds and its own
  identity, so two providers with one map can never both say yes.
\<close>

locale bucket_owner =
  fixes owns :: "'st \<Rightarrow> int \<Rightarrow> bool"
    and holder :: "'st \<Rightarrow> int \<Rightarrow> string option"
    and self :: "'st \<Rightarrow> string"
    and ok :: "'st \<Rightarrow> bool"
  assumes owns_holder: "ok s \<Longrightarrow> owns s b \<longleftrightarrow> holder s b = Some (self s)"
begin

lemma exclusive:
  assumes "ok s" "ok t" "holder s = holder t" "owns s b" "owns t b"
  shows "self s = self t"
  using assms by (simp add: owns_holder)

lemma gate_exclusive:
  assumes "ok s" "ok t" "holder s = holder t"
    and "admits (ownershipDecision MODE_DISTRIBUTED name (owns s))"
    and "admits (ownershipDecision MODE_DISTRIBUTED name (owns t))"
  shows "self s = self t"
proof -
  obtain b where "owns s b" "owns t b"
    using assms(4,5) by (auto simp: admits_distributed)
  then show ?thesis by (rule exclusive [OF assms(1-3)])
qed

lemma gate_holder:
  assumes "ok s"
  shows "admits (ownershipDecision MODE_DISTRIBUTED name (owns s))
    \<longleftrightarrow> (\<exists>b. bucketForRoomName name = Some b \<and> holder s b = Some (self s))"
  using assms by (auto simp: admits_distributed owns_holder)

end

definition store_holder :: "store \<Rightarrow> int \<Rightarrow> string option" where
  "store_holder st b = (case st_map st of None \<Rightarrow> None | Some m \<Rightarrow> hostForBucket m b)"

interpretation so: bucket_owner ownsBucket store_holder st_selfHost store_ok
  by unfold_locales
    (auto simp: ownsBucket_def store_holder_def store_ok_def owned_iff_host split: option.splits)

text \<open>
  Across the fleet, one room has one home: of all the boxes that have polled their way to
  the same map, a canonically named room is admitted by the box whose identity the map names for
  the room's bucket, and by no other; a malformed room name is admitted by none.
\<close>

theorem fleet_admits_once:
  assumes "st_map (poll_run json rs (new_store h)) = Some m"
  shows "admits (ownershipDecision MODE_DISTRIBUTED name (ownsBucket (poll_run json rs (new_store h))))
    \<longleftrightarrow> (\<exists>b. bucketForRoomName name = Some b \<and> hostForBucket m b = Some h)"
proof -
  let ?st = "poll_run json rs (new_store h)"
  have ok: "store_ok ?st" by (rule poll_run_ok [OF store_ok_new])
  have self: "st_selfHost ?st = h" by (simp add: new_store_def)
  show ?thesis
    by (simp only: so.gate_holder [OF ok] store_holder_def assms self option.case)
qed

definition demo_json :: jsval where
  "demo_json = JObj [(''version'', JNum 1), (''ranges'', JArr [
     JObj [(''low'', JNum 0), (''high'', JNum 32767), (''host'', JStr ''a'')],
     JObj [(''low'', JNum 32768), (''high'', JNum 65535), (''host'', JStr ''b'')]])]"

lemma demo_poll: "st_map (poll_run (\<lambda>_. Some demo_json) [FetchText ''m''] (new_store h)) = Some demo_map"
proof -
  have "parseShardMap (Some demo_json) = Inr demo_map" by code_simp
  then show ?thesis
    by (simp add: fetchOnce_def demo_map_valid applyFetched_def new_store_def Let_def diffOwned_def)
qed

theorem fleet_admits_once_witness:
  "(let box = (\<lambda>h. poll_run (\<lambda>_. Some demo_json) [FetchText ''m''] (new_store h));
        name = Some (replicate 63 CHR ''0'' @ ''1'') in
      admits (ownershipDecision MODE_DISTRIBUTED name (ownsBucket (box ''a'')))
      \<and> \<not> admits (ownershipDecision MODE_DISTRIBUTED name (ownsBucket (box ''b''))))"
proof -
  have "bucketForRoomName (Some (replicate 63 CHR ''0'' @ ''1'')) = Some 1"
    "hostForBucket demo_map 1 = Some ''a''"
    by code_simp+
  then show ?thesis
    unfolding Let_def
    using fleet_admits_once [OF demo_poll, of "Some (replicate 63 CHR ''0'' @ ''1'')" "''a''"]
      fleet_admits_once [OF demo_poll, of "Some (replicate 63 CHR ''0'' @ ''1'')" "''b''"] by auto
qed

end
