(* ===== verification/Drain.thy ===== *)
theory Drain
  imports ShardStore "HOL-Library.AList"
begin

text \<open>
  The drain scheduler, \<^verbatim>\<open>src/sharding/drainScheduler.js\<close>: the buckets a reshard took away are
  closed room by room, after a delay and at a bounded rate. The JavaScript Map of episodes is an
  association list in insertion order, and tokens are exact rationals. The lemmas show that no
  room is closed early, after a re-acquisition, or faster than the rate allows, and that the
  drain makes progress.
\<close>

section \<open>State and operations\<close>

record episode =
  deadline :: int
  evicted :: "string list"

record drain =
  dr_delay :: int
  dr_rate :: rat
  dr_cap :: rat
  dr_draining :: "(int \<times> episode) list"
  dr_tokens :: rat
  dr_lastRun :: int

definition new_drain :: "int \<Rightarrow> rat \<Rightarrow> int \<Rightarrow> drain" where
  "new_drain drainDelayMs rate now =
     \<lparr>dr_delay = drainDelayMs, dr_rate = rate, dr_cap = max 1 rate, dr_draining = [],
      dr_tokens = 0, dr_lastRun = now\<rparr>"

definition relinquish :: "int \<Rightarrow> int \<Rightarrow> drain \<Rightarrow> drain" where
  "relinquish b now d =
     d\<lparr>dr_draining := AList.update b \<lparr>deadline = now + dr_delay d, evicted = []\<rparr> (dr_draining d)\<rparr>"

definition reacquire :: "int \<Rightarrow> drain \<Rightarrow> drain" where
  "reacquire b d = d\<lparr>dr_draining := AList.delete b (dr_draining d)\<rparr>"

text \<open>The inner loop over one bucket's live rooms: starved, tokens left, evicted set, evictions.\<close>

fun drain_rooms :: "string list \<Rightarrow> rat \<Rightarrow> string list \<Rightarrow> bool \<times> rat \<times> string list \<times> string list" where
  "drain_rooms [] tok ev = (False, tok, ev, [])"
| "drain_rooms (i # ids) tok ev =
     (if i \<in> set ev then drain_rooms ids tok ev
      else if tok < 1 then (True, tok, ev, [])
      else (case drain_rooms ids (tok - 1) (ev @ [i]) of (starved, t, e, out) \<Rightarrow>
              (starved, t, e, i # out)))"

text \<open>
  The outer loop over the episodes: a bucket still deferring is kept, a bucket that ran out of
  tokens ends the scan, and a bucket whose live rooms were all evicted is dropped.
\<close>

fun drain_buckets ::
  "(int \<Rightarrow> string list) \<Rightarrow> int \<Rightarrow> (int \<times> episode) list \<Rightarrow> rat \<Rightarrow>
   (int \<times> episode) list \<times> rat \<times> (int \<times> string) list" where
  "drain_buckets live now [] tok = ([], tok, [])"
| "drain_buckets live now ((b, ep) # rest) tok =
     (if deadline ep > now
      then (case drain_buckets live now rest tok of (dr, t, out) \<Rightarrow> ((b, ep) # dr, t, out))
      else (case drain_rooms (live b) tok (evicted ep) of (starved, t, ev, out) \<Rightarrow>
              if starved then ((b, ep\<lparr>evicted := ev\<rparr>) # rest, t, map (Pair b) out)
              else (case drain_buckets live now rest t of (dr, t', out') \<Rightarrow>
                      (dr, t', map (Pair b) out @ out'))))"

definition accrued :: "int \<Rightarrow> drain \<Rightarrow> rat" where
  "accrued t d = min (dr_cap d) (dr_tokens d + of_int (t - dr_lastRun d) * dr_rate d / 1000)"

text \<open>One tick: the evicted rooms, each with its bucket, and the new state.\<close>

definition run :: "(int \<Rightarrow> string list) \<Rightarrow> int \<Rightarrow> drain \<Rightarrow> (int \<times> string) list \<times> drain" where
  "run live t d =
     (case drain_buckets live t (dr_draining d) (accrued t d) of (dr, tok, out) \<Rightarrow>
        (out, d\<lparr>dr_draining := dr, dr_tokens := tok, dr_lastRun := t\<rparr>))"

definition drainingBuckets :: "drain \<Rightarrow> int set" where
  "drainingBuckets d = set (map fst (dr_draining d))"

definition drainingCount :: "drain \<Rightarrow> nat" where
  "drainingCount d = length (dr_draining d)"

section \<open>One pass\<close>

lemma drain_rooms_tokens:
  assumes "drain_rooms ids tok ev = (starved, t, e, out)"
  shows "t = tok - of_nat (length out) \<and> (0 \<le> tok \<longrightarrow> 0 \<le> t) \<and> e = ev @ out
    \<and> set out \<subseteq> set ids - set ev \<and> (\<not> starved \<longrightarrow> set ids \<subseteq> set e) \<and> length out \<le> length ids"
  using assms
proof (induction ids tok ev arbitrary: starved t e out rule: drain_rooms.induct)
  case (2 i ids tok ev)
  show ?case
  proof (cases "i \<in> set ev \<or> tok < 1")
    case True
    show ?thesis
    proof (cases "i \<in> set ev")
      case True
      with "2.prems" have "drain_rooms ids tok ev = (starved, t, e, out)" by simp
      from "2.IH"(1) [OF True this] True show ?thesis by auto
    next
      case False
      with \<open>i \<in> set ev \<or> tok < 1\<close> "2.prems" show ?thesis by auto
    qed
  next
    case False
    then obtain out' where r: "drain_rooms ids (tok - 1) (ev @ [i]) = (starved, t, e, out')"
      and "out = i # out'"
      using "2.prems" by (auto split: prod.splits)
    moreover have "i \<notin> set ev" "\<not> tok < 1" using False by auto
    ultimately show ?thesis
      using "2.IH"(2) [OF _ _ r] by auto
  qed
qed auto

lemma drain_rooms_starved:
  "drain_rooms ids tok ev = (True, t, e, out) \<Longrightarrow> t < 1"
  by (induction ids tok ev arbitrary: t e out rule: drain_rooms.induct)
    (auto split: if_splits prod.splits)

lemma drain_buckets_tokens:
  assumes "drain_buckets live now dr tok = (dr', t, out)"
  shows "t = tok - of_nat (length out) \<and> (0 \<le> tok \<longrightarrow> 0 \<le> t)"
  using assms
proof (induction live now dr tok arbitrary: dr' t out rule: drain_buckets.induct)
  case (2 live now b ep rest tok)
  show ?case
  proof (cases "deadline ep > now")
    case True
    with 2 show ?thesis by (auto split: prod.splits)
  next
    case False
    obtain starved t1 ev out1 where r: "drain_rooms (live b) tok (evicted ep) = (starved, t1, ev, out1)"
      by (cases "drain_rooms (live b) tok (evicted ep)") auto
    note rooms = drain_rooms_tokens [OF r]
    show ?thesis
    proof (cases starved)
      case True
      with "2.prems" False r rooms show ?thesis by auto
    next
      case nst: False
      obtain dr2 t2 out2 where b: "drain_buckets live now rest t1 = (dr2, t2, out2)"
        by (cases "drain_buckets live now rest t1") auto
      with "2.prems" False r nst have "t = t2" "out = map (Pair b) out1 @ out2" by auto
      with "2.IH"(2) [OF False r [symmetric] refl refl nst b] rooms show ?thesis by auto
    qed
  qed
qed auto

lemma drain_buckets_evicts:
  assumes "drain_buckets live now dr tok = (dr', t, out)" "(b, i) \<in> set out"
  shows "\<exists>ep. (b, ep) \<in> set dr \<and> deadline ep \<le> now \<and> i \<in> set (live b) \<and> i \<notin> set (evicted ep)"
  using assms
proof (induction live now dr tok arbitrary: dr' t out rule: drain_buckets.induct)
  case (2 live now c ep rest tok)
  show ?case
  proof (cases "deadline ep > now")
    case True
    with 2 show ?thesis by (fastforce split: prod.splits)
  next
    case False
    obtain starved t1 ev out1 where r: "drain_rooms (live c) tok (evicted ep) = (starved, t1, ev, out1)"
      by (cases "drain_rooms (live c) tok (evicted ep)") auto
    note rooms = drain_rooms_tokens [OF r]
    show ?thesis
    proof (cases starved)
      case True
      with "2.prems" False r rooms show ?thesis by fastforce
    next
      case nst: False
      obtain dr2 t2 out2 where b: "drain_buckets live now rest t1 = (dr2, t2, out2)"
        by (cases "drain_buckets live now rest t1") auto
      with "2.prems" False r nst have "(b, i) \<in> set (map (Pair c) out1) \<or> (b, i) \<in> set out2" by auto
      with "2.IH"(2) [OF False r [symmetric] refl refl nst b] rooms False show ?thesis
        by fastforce
    qed
  qed
qed auto

text \<open>The episodes left behind: the same keys and deadlines, at most more evicted rooms.\<close>

lemma drain_buckets_kept:
  assumes "drain_buckets live now dr tok = (dr', t, out)" "(b, ep') \<in> set dr'"
  shows "\<exists>ep. (b, ep) \<in> set dr \<and> deadline ep' = deadline ep"
  using assms
proof (induction live now dr tok arbitrary: dr' t out rule: drain_buckets.induct)
  case (2 live now c ep rest tok)
  then show ?case
    by (fastforce split: if_splits prod.splits)
qed auto

lemma drain_buckets_distinct:
  assumes "drain_buckets live now dr tok = (dr', t, out)" "distinct (map fst dr)"
  shows "distinct (map fst dr')"
  using assms
proof (induction live now dr tok arbitrary: dr' t out rule: drain_buckets.induct)
  case (2 live now c ep rest tok)
  have new: "c \<notin> fst ` set dr1" if "drain_buckets live now rest u = (dr1, v, o1)" for u dr1 v o1
    using drain_buckets_kept [OF that] "2.prems"(2) by force
  from 2 show ?case
    by (auto split: if_splits prod.splits dest: new)
qed auto

text \<open>With enough tokens the pass finishes every episode that is due.\<close>

definition pending :: "(int \<Rightarrow> string list) \<Rightarrow> int \<Rightarrow> (int \<times> episode) list \<Rightarrow> nat" where
  "pending live now dr =
     sum_list (map (\<lambda>(b, ep). if deadline ep > now then 0 else length (live b)) dr)"

lemma drain_rooms_enough:
  assumes "of_nat (length ids) \<le> tok" "drain_rooms ids tok ev = (starved, t, e, out)"
  shows "\<not> starved"
  using assms
  by (induction ids tok ev arbitrary: starved t e out rule: drain_rooms.induct)
    (auto split: if_splits prod.splits)

lemma drain_buckets_complete:
  assumes "drain_buckets live now dr tok = (dr', t, out)" "of_nat (pending live now dr) \<le> tok"
  shows "dr' = filter (\<lambda>(b, ep). deadline ep > now) dr
    \<and> (\<forall>(b, ep) \<in> set dr. deadline ep \<le> now \<longrightarrow> (\<forall>i \<in> set (live b) - set (evicted ep). (b, i) \<in> set out))"
  using assms
proof (induction live now dr tok arbitrary: dr' t out rule: drain_buckets.induct)
  case (2 live now c ep rest tok)
  show ?case
  proof (cases "deadline ep > now")
    case True
    with 2 show ?thesis by (fastforce simp: pending_def split: prod.splits)
  next
    case False
    obtain starved t1 ev out1 where r: "drain_rooms (live c) tok (evicted ep) = (starved, t1, ev, out1)"
      by (cases "drain_rooms (live c) tok (evicted ep)") auto
    note rooms = drain_rooms_tokens [OF r]
    have enough: "of_nat (length (live c)) + of_nat (pending live now rest) \<le> tok"
      using "2.prems"(2) False by (simp add: pending_def)
    then have "of_nat (length (live c)) \<le> tok" by (rule order_trans [rotated]) simp
    from drain_rooms_enough [OF this r] have nst: "\<not> starved" .
    obtain dr2 t2 out2 where b: "drain_buckets live now rest t1 = (dr2, t2, out2)"
      by (cases "drain_buckets live now rest t1") auto
    have "length out1 \<le> length (live c)"
      using rooms by simp
    then have "rat_of_nat (length out1) \<le> of_nat (length (live c))" by simp
    with enough rooms have "of_nat (pending live now rest) \<le> t1" by linarith
    from "2.IH"(2) [OF False r [symmetric] refl refl nst b this] "2.prems"(1) False r nst b rooms
    show ?thesis by fastforce
  qed
qed (auto simp: pending_def)

lemma drain_buckets_progress:
  assumes "drain_buckets live now dr tok = (dr', t, [])" "1 \<le> tok" "(b, ep) \<in> set dr" "deadline ep \<le> now"
  shows "set (live b) \<subseteq> set (evicted ep)"
  using assms
proof (induction live now dr tok arbitrary: dr' t rule: drain_buckets.induct)
  case (2 live now c ep' rest tok)
  show ?case
  proof (cases "deadline ep' > now")
    case True
    with 2 show ?thesis by (auto split: prod.splits)
  next
    case False
    obtain starved t1 ev out1 where r: "drain_rooms (live c) tok (evicted ep') = (starved, t1, ev, out1)"
      by (cases "drain_rooms (live c) tok (evicted ep')") auto
    note rooms = drain_rooms_tokens [OF r]
    have out1: "out1 = []" using "2.prems"(1) False r by (auto split: if_splits prod.splits)
    then have nst: "\<not> starved"
      using rooms "2.prems"(2) drain_rooms_starved [of "live c" tok "evicted ep'"] r by auto
    obtain dr2 t2 out2 where b: "drain_buckets live now rest t1 = (dr2, t2, out2)"
      by (cases "drain_buckets live now rest t1") auto
    with "2.prems"(1) False r nst have b': "drain_buckets live now rest t1 = (dr2, t2, [])" by auto
    have t1: "1 \<le> t1" using rooms out1 "2.prems"(2) by simp
    show ?thesis
    proof (cases "(b, ep) = (c, ep')")
      case True
      with rooms out1 nst show ?thesis by auto
    next
      case False
      with "2.prems"(3) have "(b, ep) \<in> set rest" by auto
      from "2.IH"(2) [OF \<open>\<not> deadline ep' > now\<close> r [symmetric] refl refl nst b' t1 this "2.prems"(4)]
      show ?thesis .
    qed
  qed
qed auto

section \<open>Histories\<close>

text \<open>
  What happens to a scheduler: a bucket is relinquished or reacquired when a map is adopted, and
  a timer ticks. A tick carries the time and what \<open>liveRooms\<close> would answer.
\<close>

datatype drain_event =
    Relinquish int int
  | Reacquire int
  | Tick int "int \<Rightarrow> string list"

fun drain_step :: "drain_event \<Rightarrow> drain \<Rightarrow> (int \<times> string) list \<times> drain" where
  "drain_step (Relinquish b t) d = ([], relinquish b t d)"
| "drain_step (Reacquire b) d = ([], reacquire b d)"
| "drain_step (Tick t live) d = run live t d"

fun drain_after :: "drain_event list \<Rightarrow> drain \<Rightarrow> drain" where
  "drain_after [] d = d"
| "drain_after (e # es) d = drain_after es (snd (drain_step e d))"

fun evictions :: "drain_event list \<Rightarrow> drain \<Rightarrow> (int \<times> string) list" where
  "evictions [] d = []"
| "evictions (e # es) d = fst (drain_step e d) @ evictions es (snd (drain_step e d))"

lemma drain_after_append: "drain_after (xs @ ys) d = drain_after ys (drain_after xs d)"
  by (induction xs arbitrary: d) simp_all

lemma drain_step_const [simp]:
  "dr_delay (snd (drain_step e d)) = dr_delay d"
  "dr_rate (snd (drain_step e d)) = dr_rate d"
  "dr_cap (snd (drain_step e d)) = dr_cap d"
  by (cases e; simp add: relinquish_def reacquire_def run_def split: prod.splits)+

lemma drain_after_const [simp]:
  "dr_delay (drain_after es d) = dr_delay d" "dr_cap (drain_after es d) = dr_cap d"
  by (induction es arbitrary: d) simp_all

text \<open>When a bucket was last given up, as the history tells it; None once it was taken back.\<close>

definition last_relinquish :: "int \<Rightarrow> drain_event list \<Rightarrow> int option" where
  "last_relinquish b es = fold (\<lambda>e r. case e of
       Relinquish c t \<Rightarrow> if c = b then Some t else r
     | Reacquire c \<Rightarrow> if c = b then None else r
     | Tick _ _ \<Rightarrow> r) es None"

lemma last_relinquish_snoc:
  "last_relinquish b (es @ [Relinquish c t]) = (if c = b then Some t else last_relinquish b es)"
  "last_relinquish b (es @ [Reacquire c]) = (if c = b then None else last_relinquish b es)"
  "last_relinquish b (es @ [Tick t l]) = last_relinquish b es"
  by (simp_all add: last_relinquish_def)

definition tracks :: "drain_event list \<Rightarrow> drain \<Rightarrow> bool" where
  "tracks es d \<longleftrightarrow> distinct (map fst (dr_draining d))
     \<and> (\<forall>b ep. (b, ep) \<in> set (dr_draining d) \<longrightarrow> last_relinquish b es = Some (deadline ep - dr_delay d))"

lemma tracks_step:
  assumes "tracks es d"
  shows "tracks (es @ [e]) (snd (drain_step e d))"
proof (cases e)
  case (Relinquish c t)
  let ?v = "\<lparr>deadline = t + dr_delay d, evicted = []\<rparr>"
  let ?u = "AList.update c ?v (dr_draining d)"
  have dist: "distinct (map fst ?u)"
    using assms by (simp add: tracks_def distinct_update)
  have "ep = ?v \<and> b = c \<or> (b, ep) \<in> set (dr_draining d) \<and> b \<noteq> c" if "(b, ep) \<in> set ?u" for b ep
  proof -
    from that dist have "map_of ?u b = Some ep" by simp
    then show ?thesis
      by (auto simp: update_conv' dest: map_of_SomeD split: if_splits)
  qed
  with assms Relinquish dist show ?thesis
    by (fastforce simp: tracks_def relinquish_def last_relinquish_snoc)
next
  case (Reacquire c)
  then show ?thesis
    using assms by (auto simp: tracks_def reacquire_def last_relinquish_snoc AList.delete_eq distinct_map_filter_fst)
next
  case (Tick t live)
  obtain dr tok out where b: "drain_buckets live t (dr_draining d) (accrued t d) = (dr, tok, out)"
    by (cases "drain_buckets live t (dr_draining d) (accrued t d)") auto
  then show ?thesis
    using assms Tick drain_buckets_distinct [OF b] drain_buckets_kept [OF b]
    by (fastforce simp: tracks_def run_def last_relinquish_snoc)
qed

lemma tracks_after: "tracks es (drain_after es (new_drain delay rate t0))"
proof (induction es rule: rev_induct)
  case Nil
  show ?case by (simp add: tracks_def new_drain_def)
next
  case (snoc e es)
  then show ?case by (simp add: drain_after_append tracks_step)
qed

text \<open>
  C16. No room moves early or needlessly: whatever the history, a tick closes a room only if its
  bucket was given up at least the drain delay before and has not been taken back since, and only
  if the room is live in that bucket.
\<close>

theorem drain_never_early:
  assumes "(b, room) \<in> set (fst (run live t (drain_after es (new_drain delay rate t0))))"
  shows "\<exists>t'. last_relinquish b es = Some t' \<and> t' + delay \<le> t \<and> room \<in> set (live b)"
proof -
  let ?d = "drain_after es (new_drain delay rate t0)"
  obtain dr tok out where r: "drain_buckets live t (dr_draining ?d) (accrued t ?d) = (dr, tok, out)"
    by (cases "drain_buckets live t (dr_draining ?d) (accrued t ?d)") auto
  with assms obtain ep where "(b, ep) \<in> set (dr_draining ?d)" "deadline ep \<le> t" "room \<in> set (live b)"
    using drain_buckets_evicts [OF r] by (auto simp: run_def)
  moreover have "dr_delay ?d = delay" by (simp add: new_drain_def)
  ultimately show ?thesis
    using tracks_after [of es delay rate t0] by (fastforce simp: tracks_def)
qed

theorem drain_never_early_witness:
  "\<exists>t'. last_relinquish 7 [Relinquish 7 0] = Some t' \<and> t' + 20000 \<le> 20100
    \<and> ''r'' \<in> set (if (7 :: int) = 7 then [''r''] else [])"
proof -
  let ?live = "\<lambda>b :: int. if b = 7 then [''r''] else []"
  have "(7, ''r'') \<in> set (fst (run ?live 20100 (drain_after [Relinquish 7 0] (new_drain 20000 10 0))))"
    by code_simp
  from drain_never_early [OF this] show ?thesis .
qed

section \<open>The rate\<close>

fun clock_ok :: "int \<Rightarrow> drain_event list \<Rightarrow> bool" where
  "clock_ok now [] = True"
| "clock_ok now (Tick t live # es) = (now \<le> t \<and> clock_ok t es)"
| "clock_ok now (_ # es) = clock_ok now es"

lemma run_budget:
  assumes "run live t d = (out, d')" "dr_lastRun d \<le> t" "0 \<le> dr_rate d" "0 \<le> dr_tokens d" "0 \<le> dr_cap d"
  shows "of_nat (length out) + dr_tokens d' \<le> dr_tokens d + of_int (t - dr_lastRun d) * dr_rate d / 1000
    \<and> 0 \<le> dr_tokens d' \<and> dr_lastRun d' = t \<and> of_nat (length out) + dr_tokens d' \<le> dr_cap d"
proof -
  obtain dr tok o' where r: "drain_buckets live t (dr_draining d) (accrued t d) = (dr, tok, o')"
    by (cases "drain_buckets live t (dr_draining d) (accrued t d)") auto
  have "0 \<le> of_int (t - dr_lastRun d) * dr_rate d / 1000"
    using assms(2,3) by simp
  then have "0 \<le> accrued t d"
    using assms(4,5) by (simp add: accrued_def)
  with drain_buckets_tokens [OF r] assms(1) r show ?thesis
    by (auto simp: run_def accrued_def)
qed

lemma evictions_budget:
  assumes "clock_ok (dr_lastRun d) es" "0 \<le> dr_rate d" "0 \<le> dr_tokens d" "0 \<le> dr_cap d"
  shows "of_nat (length (evictions es d)) + dr_tokens (drain_after es d)
      \<le> dr_tokens d + of_int (dr_lastRun (drain_after es d) - dr_lastRun d) * dr_rate d / 1000
    \<and> 0 \<le> dr_tokens (drain_after es d)"
  using assms
proof (induction es arbitrary: d)
  case (Cons e es)
  show ?case
  proof (cases e)
    case (Tick t live)
    obtain out d' where r: "run live t d = (out, d')" by (cases "run live t d") auto
    have "dr_lastRun d \<le> t" using Cons.prems(1) Tick by simp
    note b = run_budget [OF r this Cons.prems(2-4)]
    have same: "dr_rate d' = dr_rate d" "dr_cap d' = dr_cap d"
      using drain_step_const [of "Tick t live" d] r by simp_all
    have IH: "of_nat (length (evictions es d')) + dr_tokens (drain_after es d')
        \<le> dr_tokens d' + of_int (dr_lastRun (drain_after es d') - t) * dr_rate d / 1000
      \<and> 0 \<le> dr_tokens (drain_after es d')"
      using Cons.IH [of d'] Cons.prems b same Tick by auto
    have "of_int (dr_lastRun (drain_after es d') - dr_lastRun d) * dr_rate d / 1000
        = of_int (dr_lastRun (drain_after es d') - t) * dr_rate d / 1000
          + of_int (t - dr_lastRun d) * dr_rate d / 1000"
      by (simp add: field_simps)
    moreover have "length (evictions (e # es) d) = length out + length (evictions es d')"
      "drain_after (e # es) d = drain_after es d'"
      using Tick r by simp_all
    ultimately show ?thesis using IH b by (simp only: of_nat_add) (intro conjI TrueI; linarith)
  next
    case (Relinquish b t)
    then show ?thesis
      using Cons.IH [of "relinquish b t d"] Cons.prems by (simp add: relinquish_def)
  next
    case (Reacquire b)
    then show ?thesis
      using Cons.IH [of "reacquire b d"] Cons.prems by (simp add: reacquire_def)
  qed
qed simp

lemma tokens_below_cap:
  assumes "dr_tokens d \<le> dr_cap d"
  shows "dr_tokens (drain_after es d) \<le> dr_cap d"
  using assms
proof (induction es arbitrary: d)
  case (Cons e es)
  have "dr_tokens (snd (drain_step e d)) \<le> dr_cap d"
  proof (cases e)
    case (Tick t live)
    obtain dr tok out where b: "drain_buckets live t (dr_draining d) (accrued t d) = (dr, tok, out)"
      by (cases "drain_buckets live t (dr_draining d) (accrued t d)") auto
    with drain_buckets_tokens [OF b] Tick show ?thesis
      by (simp add: run_def accrued_def)
  qed (use Cons.prems in \<open>auto simp: relinquish_def reacquire_def\<close>)
  with Cons.IH [of "snd (drain_step e d)"] show ?case by simp
qed simp

lemma clock_ok_append:
  "clock_ok now (xs @ ys) \<Longrightarrow> clock_ok now xs"
  by (induction now xs rule: clock_ok.induct) auto

lemma clock_ok_rest:
  "clock_ok (dr_lastRun d) (xs @ ys) \<Longrightarrow> clock_ok (dr_lastRun (drain_after xs d)) ys"
proof (induction xs arbitrary: d)
  case (Cons e xs)
  then show ?case
    by (cases e) (auto simp: relinquish_def reacquire_def run_def split: prod.splits)
qed simp

text \<open>
  The eviction rate holds over every stretch of every history: between any two points the
  scheduler closes at most one second's burst of rooms plus the rate times the elapsed time, and
  from start-up not even the burst is added. The hypotheses are that the rate is not negative
  and that the clock does not run backwards.
\<close>

theorem drain_rate_bound:
  assumes "0 \<le> rate" "clock_ok t0 (before @ es)"
  shows "let d0 = new_drain delay rate t0; d1 = drain_after before d0; d2 = drain_after es d1 in
      rat_of_nat (length (evictions es d1)) \<le> max 1 rate + of_int (dr_lastRun d2 - dr_lastRun d1) * rate / 1000
    \<and> rat_of_nat (length (evictions before d0)) \<le> of_int (dr_lastRun d1 - t0) * rate / 1000"
proof -
  let ?d0 = "new_drain delay rate t0"
  let ?d1 = "drain_after before ?d0"
  have d0: "dr_lastRun ?d0 = t0" "dr_rate ?d0 = rate" "dr_cap ?d0 = max 1 rate" "dr_tokens ?d0 = 0"
    by (simp_all add: new_drain_def)
  have rate1: "dr_rate ?d1 = rate"
    using d0 by (induction before arbitrary: rule: rev_induct) (simp_all add: drain_after_append)
  have b0: "rat_of_nat (length (evictions before ?d0)) + dr_tokens ?d1 \<le> of_int (dr_lastRun ?d1 - t0) * rate / 1000
      \<and> 0 \<le> dr_tokens ?d1"
    using evictions_budget [of ?d0 before] clock_ok_append [OF assms(2)] assms(1) d0 by simp
  have "clock_ok (dr_lastRun ?d1) es"
    using clock_ok_rest [of ?d0 before es] assms(2) d0 by simp
  then have "rat_of_nat (length (evictions es ?d1)) + dr_tokens (drain_after es ?d1)
      \<le> dr_tokens ?d1 + of_int (dr_lastRun (drain_after es ?d1) - dr_lastRun ?d1) * rate / 1000
      \<and> 0 \<le> dr_tokens (drain_after es ?d1)"
    using evictions_budget [of ?d1 es] assms(1) b0 rate1 d0 by simp
  moreover have "dr_tokens ?d1 \<le> max 1 rate"
    using tokens_below_cap [of ?d0 before] d0 by simp
  ultimately show ?thesis
    using b0 by (simp add: Let_def)
qed

theorem drain_rate_bound_witness:
  "(let d1 = drain_after [Relinquish 7 0, Tick 0 (\<lambda>b. [''r''])] (new_drain 20000 10 0);
        es = [Tick 20100 (\<lambda>b. [''r'', ''s''])]
    in rat_of_nat (length (evictions es d1)) \<le> 10 + of_int (dr_lastRun (drain_after es d1) - dr_lastRun d1) * 10 / 1000)"
  using drain_rate_bound [of 10 0 "[Relinquish 7 0, Tick 0 (\<lambda>b. [''r''])]" "[Tick 20100 (\<lambda>b. [''r'', ''s''])]" 20000]
  by (simp only: Let_def clock_ok.simps append.simps) simp

text \<open>
  The drain makes progress and finishes: a tick that has at least one token closes some room
  whenever a due bucket still has a live room not yet closed, and a tick with a token for every
  live room of the due buckets closes them all and drops exactly the due episodes.
\<close>

theorem drain_progress:
  assumes "run live t d = (out, d')"
  shows "(1 \<le> accrued t d \<and> (b, ep) \<in> set (dr_draining d) \<and> deadline ep \<le> t
        \<and> \<not> set (live b) \<subseteq> set (evicted ep) \<longrightarrow> out \<noteq> [])
    \<and> (of_nat (pending live t (dr_draining d)) \<le> accrued t d \<longrightarrow>
        dr_draining d' = filter (\<lambda>(b, ep). deadline ep > t) (dr_draining d)
        \<and> (\<forall>(b, ep) \<in> set (dr_draining d). deadline ep \<le> t \<longrightarrow>
             (\<forall>i \<in> set (live b) - set (evicted ep). (b, i) \<in> set out)))"
proof -
  obtain dr tok o' where r: "drain_buckets live t (dr_draining d) (accrued t d) = (dr, tok, o')"
    by (cases "drain_buckets live t (dr_draining d) (accrued t d)") auto
  with assms have out: "out = o'" "dr_draining d' = dr" by (auto simp: run_def)
  show ?thesis
    using drain_buckets_progress [of live t "dr_draining d" "accrued t d" dr tok b ep]
      drain_buckets_complete [OF r] r out by auto
qed

theorem drain_progress_witness:
  "fst (run (\<lambda>b. [''r'']) 20100 (drain_after [Relinquish 7 0] (new_drain 20000 10 0))) \<noteq> []"
proof -
  let ?d = "drain_after [Relinquish 7 0] (new_drain 20000 10 0)"
  have "1 \<le> accrued 20100 ?d" "dr_draining ?d = [(7, \<lparr>deadline = 20000, evicted = []\<rparr>)]"
    by (simp_all add: accrued_def relinquish_def new_drain_def)
  with drain_progress [where live = "\<lambda>b. [''r'']" and t = 20100 and d = ?d and b = 7
      and ep = "\<lparr>deadline = 20000, evicted = []\<rparr>", OF prod.collapse [symmetric]]
  show ?thesis by simp
qed

end
