(* ===== verification/Storage.thy ===== *)
theory Storage
  imports Prelude "HOL-Library.AList"
begin

text \<open>
  \<^verbatim>\<open>host/storage.js\<close>: one SQLite file with a row per (room, key) and a row per room alarm,
  and the room-scoped storage object each room uses. A stored value is kept abstract: the relay
  stores only JSON-safe values, which survive stringify and parse unchanged. The lemmas show that
  rooms cannot touch each other's rows, that the room-scoped operations are those of one key-value
  store, what a prefix listing returns, and that consuming a key succeeds exactly once.
\<close>

section \<open>LIKE\<close>

text \<open>ASCII case folding, which SQLite applies when it compares under LIKE.\<close>

definition ascii_lower :: "char \<Rightarrow> char" where
  "ascii_lower c = (if CHR ''A'' \<le> c \<and> c \<le> CHR ''Z'' then char_of ((of_char c :: nat) + 32) else c)"

text \<open>\<open>s LIKE p ESCAPE '\'\<close>: a percent sign is any run, an underscore any one character.\<close>

fun like :: "string \<Rightarrow> string \<Rightarrow> bool" where
  "like [] s = (s = [])"
| "like (p # ps) s =
     (if p = CHR ''%'' then like ps s \<or> (case s of [] \<Rightarrow> False | c # cs \<Rightarrow> like (p # ps) cs)
      else if p = CHR 0x5C
      then (case ps of [] \<Rightarrow> False | q # qs \<Rightarrow>
              (case s of [] \<Rightarrow> False | c # cs \<Rightarrow> ascii_lower q = ascii_lower c \<and> like qs cs))
      else (case s of [] \<Rightarrow> False
            | c # cs \<Rightarrow> (p = CHR ''_'' \<or> ascii_lower p = ascii_lower c) \<and> like ps cs))"

definition like_escape :: "char \<Rightarrow> string" where
  "like_escape c = (if c \<in> {CHR 0x5C, CHR ''%'', CHR ''_''} then [CHR 0x5C, c] else [c])"

definition likePrefix :: "string \<Rightarrow> string" where
  "likePrefix p = concat (map like_escape p) @ ''%''"

definition ci_prefix :: "string \<Rightarrow> string \<Rightarrow> bool" where
  "ci_prefix p s \<longleftrightarrow> length p \<le> length s \<and> map ascii_lower (take (length p) s) = map ascii_lower p"

lemma like_percent: "like ''%'' s"
  by (induction s) simp_all

lemma like_prefix_ci: "like (likePrefix p) s \<longleftrightarrow> ci_prefix p s"
proof (induction p arbitrary: s)
  case Nil
  show ?case by (simp add: likePrefix_def like_percent ci_prefix_def del: like.simps)
next
  case (Cons c p)
  have step: "likePrefix (c # p) = like_escape c @ likePrefix p"
    by (simp add: likePrefix_def)
  have one: "like (like_escape c @ q) t
      \<longleftrightarrow> (case t of [] \<Rightarrow> False | d # ds \<Rightarrow> ascii_lower c = ascii_lower d \<and> like q ds)" for q t
    by (cases t) (auto simp: like_escape_def)
  show ?case
    by (cases s) (auto simp: step one Cons.IH ci_prefix_def)
qed

lemma prefix_ci_prefix: "ci_prefix p (p @ s)"
  by (simp add: ci_prefix_def)

section \<open>The database\<close>

record 'v backend =
  kv_rows :: "((string \<times> string) \<times> 'v) list"
  alarm_rows :: "(string \<times> int) list"

definition empty_backend :: "'v backend" where
  "empty_backend = \<lparr>kv_rows = [], alarm_rows = []\<rparr>"

definition be_get :: "string \<Rightarrow> string \<Rightarrow> 'v backend \<Rightarrow> 'v option" where
  "be_get room key be = map_of (kv_rows be) (room, key)"

definition be_put :: "string \<Rightarrow> string \<Rightarrow> 'v \<Rightarrow> 'v backend \<Rightarrow> 'v backend" where
  "be_put room key v be = be\<lparr>kv_rows := AList.update (room, key) v (kv_rows be)\<rparr>"

definition be_delete :: "string \<Rightarrow> string \<Rightarrow> 'v backend \<Rightarrow> bool \<times> 'v backend" where
  "be_delete room key be =
     ((room, key) \<in> fst ` set (kv_rows be), be\<lparr>kv_rows := AList.delete (room, key) (kv_rows be)\<rparr>)"

definition be_deleteAll :: "string \<Rightarrow> 'v backend \<Rightarrow> 'v backend" where
  "be_deleteAll room be = be\<lparr>kv_rows := filter (\<lambda>((r, k), v). r \<noteq> room) (kv_rows be)\<rparr>"

definition be_list :: "string \<Rightarrow> string \<Rightarrow> 'v backend \<Rightarrow> (string \<times> 'v) list" where
  "be_list room prefix be =
     sort_key fst (map (\<lambda>((r, k), v). (k, v))
       (filter (\<lambda>((r, k), v). r = room \<and> like (likePrefix prefix) k) (kv_rows be)))"

definition be_getAlarm :: "string \<Rightarrow> 'v backend \<Rightarrow> int option" where
  "be_getAlarm room be = map_of (alarm_rows be) room"

definition be_setAlarm :: "string \<Rightarrow> int \<Rightarrow> 'v backend \<Rightarrow> 'v backend" where
  "be_setAlarm room due be = be\<lparr>alarm_rows := AList.update room due (alarm_rows be)\<rparr>"

definition be_deleteAlarm :: "string \<Rightarrow> 'v backend \<Rightarrow> 'v backend" where
  "be_deleteAlarm room be = be\<lparr>alarm_rows := AList.delete room (alarm_rows be)\<rparr>"

definition roomsWithState :: "'v backend \<Rightarrow> string list" where
  "roomsWithState be = remdups (map (fst \<circ> fst) (kv_rows be) @ map fst (alarm_rows be))"

text \<open>The primary keys.\<close>

definition be_ok :: "'v backend \<Rightarrow> bool" where
  "be_ok be \<longleftrightarrow> distinct (map fst (kv_rows be)) \<and> distinct (map fst (alarm_rows be))"

lemma be_ok_ops:
  "be_ok empty_backend"
  "be_ok be \<Longrightarrow> be_ok (be_put room k v be)"
  "be_ok be \<Longrightarrow> be_ok (snd (be_delete room k be))"
  "be_ok be \<Longrightarrow> be_ok (be_deleteAll room be)"
  "be_ok be \<Longrightarrow> be_ok (be_setAlarm room due be)"
  "be_ok be \<Longrightarrow> be_ok (be_deleteAlarm room be)"
  by (simp_all add: be_ok_def empty_backend_def be_put_def be_delete_def be_deleteAll_def
      be_setAlarm_def be_deleteAlarm_def distinct_update AList.delete_eq distinct_map_filter_fst)

section \<open>One room's store\<close>

text \<open>
  What a room sees: its own rows, as a key-value list with distinct keys. These are the
  operations of \<open>RoomStorage\<close>; \<open>del\<close> also returns whether a row was removed.
\<close>

type_synonym 'v kvs = "(string \<times> 'v) list"

definition kv_get :: "string \<Rightarrow> 'v kvs \<Rightarrow> 'v option" where
  "kv_get k st = map_of st k"

definition kv_put :: "string \<Rightarrow> 'v \<Rightarrow> 'v kvs \<Rightarrow> 'v kvs" where
  "kv_put k v st = AList.update k v st"

definition kv_delete :: "string \<Rightarrow> 'v kvs \<Rightarrow> bool \<times> 'v kvs" where
  "kv_delete k st = (k \<in> fst ` set st, AList.delete k st)"

definition kv_list :: "string \<Rightarrow> 'v kvs \<Rightarrow> (string \<times> 'v) list" where
  "kv_list prefix st = sort_key fst (filter (\<lambda>(k, v). like (likePrefix prefix) k) st)"

definition kv_ok :: "'v kvs \<Rightarrow> bool" where
  "kv_ok st \<longleftrightarrow> distinct (map fst st)"

definition slice :: "string \<Rightarrow> 'v backend \<Rightarrow> 'v kvs" where
  "slice room be = map (\<lambda>((r, k), v). (k, v)) (filter (\<lambda>((r, k), v). r = room) (kv_rows be))"

lemma slice_get: "be_get room k be = kv_get k (slice room be)"
proof -
  have "map_of rs (room, k) = map_of (map (\<lambda>((r, k), v). (k, v)) (filter (\<lambda>((r, k), v). r = room) rs)) k"
    for rs :: "((string \<times> string) \<times> 'a) list"
    by (induction rs) auto
  then show ?thesis by (simp add: be_get_def kv_get_def slice_def)
qed

lemma slice_put:
  "slice room' (be_put room k v be) = (if room' = room then kv_put k v (slice room be) else slice room' be)"
proof -
  have "map (\<lambda>((r, k), v). (k, v)) (filter (\<lambda>((r, k), v). r = room') (AList.update (room, k) v rs))
      = (let old = map (\<lambda>((r, k), v). (k, v)) (filter (\<lambda>((r, k), v). r = room') rs)
         in if room' = room then AList.update k v old else old)"
    for rs :: "((string \<times> string) \<times> 'a) list"
    by (induction rs) (auto simp: Let_def)
  then show ?thesis by (simp add: be_put_def kv_put_def slice_def Let_def)
qed

lemma slice_delete:
  "slice room' (snd (be_delete room k be))
    = (if room' = room then snd (kv_delete k (slice room be)) else slice room' be)"
  "fst (be_delete room k be) = fst (kv_delete k (slice room be))"
proof -
  have "map (\<lambda>((r, k), v). (k, v)) (filter (\<lambda>((r, k), v). r = room') (AList.delete (room, k) rs))
      = (let old = map (\<lambda>((r, k), v). (k, v)) (filter (\<lambda>((r, k), v). r = room') rs)
         in if room' = room then AList.delete k old else old)"
    for rs :: "((string \<times> string) \<times> 'a) list"
    by (induction rs) (auto simp: Let_def AList.delete_eq)
  then show "slice room' (snd (be_delete room k be))
    = (if room' = room then snd (kv_delete k (slice room be)) else slice room' be)"
    by (simp add: be_delete_def kv_delete_def slice_def Let_def)
  show "fst (be_delete room k be) = fst (kv_delete k (slice room be))"
    by (force simp: be_delete_def kv_delete_def slice_def)
qed

lemma slice_deleteAll: "slice room' (be_deleteAll room be) = (if room' = room then [] else slice room' be)"
proof -
  have "map (\<lambda>((r, k), v). (k, v)) (filter (\<lambda>((r, k), v). r = room') (filter (\<lambda>((r, k), v). r \<noteq> room) rs))
      = (if room' = room then [] else map (\<lambda>((r, k), v). (k, v)) (filter (\<lambda>((r, k), v). r = room') rs))"
    for rs :: "((string \<times> string) \<times> 'a) list"
    by (induction rs) auto
  then show ?thesis by (simp add: be_deleteAll_def slice_def)
qed

lemma slice_list: "be_list room prefix be = kv_list prefix (slice room be)"
proof -
  have "map (\<lambda>((r, k), v). (k, v)) (filter (\<lambda>((r, k), v). r = room \<and> P k) rs)
      = filter (\<lambda>(k, v). P k) (map (\<lambda>((r, k), v). (k, v)) (filter (\<lambda>((r, k), v). r = room) rs))"
    for P and rs :: "((string \<times> string) \<times> 'a) list"
    by (induction rs) auto
  then show ?thesis by (simp add: be_list_def kv_list_def slice_def)
qed

lemma slice_ok: "be_ok be \<Longrightarrow> kv_ok (slice room be)"
proof -
  have "distinct (map fst rs) \<Longrightarrow>
      distinct (map fst (map (\<lambda>((r, k), v). (k, v)) (filter (\<lambda>((r, k), v). r = room) rs)))"
    for rs :: "((string \<times> string) \<times> 'a) list"
    by (induction rs) force+
  then show "be_ok be \<Longrightarrow> kv_ok (slice room be)"
    by (simp add: be_ok_def kv_ok_def slice_def)
qed

lemma alarm_ops:
  "be_getAlarm room' (be_setAlarm room due be) = (if room' = room then Some due else be_getAlarm room' be)"
  "be_getAlarm room' (be_deleteAlarm room be) = (if room' = room then None else be_getAlarm room' be)"
  "be_getAlarm room' (be_deleteAll room be) = be_getAlarm room' be"
  by (simp_all add: be_getAlarm_def be_setAlarm_def be_deleteAlarm_def be_deleteAll_def update_conv'
      delete_conv')


section \<open>The interface a room relies on\<close>

locale kv_store =
  fixes get :: "string \<Rightarrow> 's \<Rightarrow> 'v option"
    and put :: "string \<Rightarrow> 'v \<Rightarrow> 's \<Rightarrow> 's"
    and del :: "string \<Rightarrow> 's \<Rightarrow> bool \<times> 's"
    and listing :: "string \<Rightarrow> 's \<Rightarrow> (string \<times> 'v) list"
    and invar :: "'s \<Rightarrow> bool"
  assumes get_put: "get k' (put k v s) = (if k' = k then Some v else get k' s)"
    and get_del: "get k' (snd (del k s)) = (if k' = k then None else get k' s)"
    and del_found: "fst (del k s) \<longleftrightarrow> get k s \<noteq> None"
    and invar_put: "invar s \<Longrightarrow> invar (put k v s)"
    and invar_del: "invar s \<Longrightarrow> invar (snd (del k s))"
    and listing_get: "invar s \<Longrightarrow> (k, v) \<in> set (listing p s) \<longleftrightarrow> get k s = Some v \<and> ci_prefix p k"
begin

lemma put_get_same [simp]: "get k (put k v s) = Some v"
  by (simp add: get_put)

lemma put_get_other: "k' \<noteq> k \<Longrightarrow> get k' (put k v s) = get k' s"
  by (simp add: get_put)

text \<open>Deleting is a compare-and-swap: of two deletions of a key only the first finds it.\<close>

lemma del_once: "fst (del k s) \<Longrightarrow> \<not> fst (del k (snd (del k s)))"
  by (simp add: del_found get_del)

lemma listing_prefix_complete: "invar s \<Longrightarrow> get (p @ x) s = Some v \<Longrightarrow> (p @ x, v) \<in> set (listing p s)"
  by (simp add: listing_get prefix_ci_prefix)

lemma listing_after_del:
  assumes "invar s"
  shows "(k', v) \<in> set (listing p (snd (del k s))) \<longleftrightarrow> k' \<noteq> k \<and> (k', v) \<in> set (listing p s)"
  using assms by (auto simp: listing_get invar_del get_del)

end

interpretation kv: kv_store kv_get kv_put kv_delete kv_list kv_ok
proof unfold_locales
  fix st :: "'v kvs" and k p v
  assume "kv_ok st"
  then show "(k, v) \<in> set (kv_list p st) \<longleftrightarrow> kv_get k st = Some v \<and> ci_prefix p k"
    by (auto simp: kv_list_def kv_ok_def kv_get_def like_prefix_ci)
next
  fix st :: "'v kvs" and k
  show "fst (kv_delete k st) \<longleftrightarrow> kv_get k st \<noteq> None"
    by (simp add: kv_delete_def kv_get_def map_of_eq_None_iff)
next
  fix st :: "'v kvs" and k
  assume "kv_ok st"
  then show "kv_ok (snd (kv_delete k st))"
    by (simp add: kv_ok_def kv_delete_def AList.delete_eq distinct_map_filter_fst)
qed (auto simp: kv_get_def kv_put_def kv_delete_def kv_ok_def update_conv' delete_conv' distinct_update)

text \<open>
  A prefix listing returns exactly the stored entries whose key has the prefix up to ASCII
  case, in key order: a percent sign, an underscore or a backslash in the prefix matches only
  itself. The hypothesis is the primary key on the rows.
\<close>

theorem list_is_prefix_query:
  assumes "distinct (map fst st)"
  shows "set (kv_list p st) = {(k, v). kv_get k st = Some v \<and> ci_prefix p k} \<and> sorted (map fst (kv_list p st))"
  using kv.listing_get [of st _ _ p] assms by (auto simp: kv_ok_def kv_list_def)

theorem list_is_prefix_query_witness:
  "set (kv_list ''t%'' [(''t%1'', 1 :: nat), (''ta1'', 2)])
      = {(k, v). kv_get k [(''t%1'', 1), (''ta1'', 2)] = Some v \<and> ci_prefix ''t%'' k}
    \<and> sorted (map fst (kv_list ''t%'' [(''t%1'', 1 :: nat), (''ta1'', 2)]))"
  by (rule list_is_prefix_query) simp

text \<open>The case folding is visible: a listing of one prefix returns keys that do not have it.\<close>

lemma list_folds_case: "kv_list ''ticket:'' [(''TICKET:x'', 1 :: nat)] = [(''TICKET:x'', 1)]"
  by code_simp

end
