(* ===== verification/Cbor.thy ===== *)
theory Cbor
  imports Bytes "HOL-Library.AList"
begin

text \<open>
  The CBOR codec of \<^verbatim>\<open>src/cbor.js\<close>. The decoder is recursive over hostile input, so the
  model spends one unit of fuel per call; \<open>decode\<close> supplies the input length plus one,
  which the lemmas show is always enough: every item consumes a byte. TextDecoder is an argument.
  The lemmas show that the decoder answers on every input and that it inverts the encoder on the
  values the encoder handles faithfully.
\<close>

section \<open>Values\<close>

text \<open>
  The values the decoder builds. A map is a JavaScript object: its own properties in insertion
  order and the prototype that an assignment to the key \<open>__proto__\<close> has installed, if any.
\<close>

datatype cval =
    CUint nat
  | CBytes bytes
  | CText string
  | CArr "cval list"
  | CMap "(string \<times> cval) list" "cval option"

datatype cbor_error = UnexpectedEnd | BytesPastEnd | UnsafeLength | BadLength nat
  | UnsupportedMajor nat | NonTextKey | TrailingBytes

fun is_object :: "cval \<Rightarrow> bool" where
  "is_object (CUint _) = False"
| "is_object (CText _) = False"
| "is_object _ = True"

definition obj_assign ::
  "string \<Rightarrow> cval \<Rightarrow> (string \<times> cval) list \<times> cval option \<Rightarrow> (string \<times> cval) list \<times> cval option" where
  "obj_assign key v ob = (case ob of (props, proto) \<Rightarrow>
     if key = ''__proto__'' then (if is_object v then (props, Some v) else (props, proto))
     else (AList.update key v props, proto))"

text \<open>\<open>v.key\<close>: own properties, then the prototype.\<close>

fun cget :: "cval \<Rightarrow> string \<Rightarrow> cval option" where
  "cget (CMap props proto) key =
     (case map_of props key of Some v \<Rightarrow> Some v
      | None \<Rightarrow> (case proto of None \<Rightarrow> None | Some p \<Rightarrow> cget p key))"
| "cget _ key = None"

section \<open>Reading\<close>

definition readUint8 :: "bytes \<Rightarrow> nat \<Rightarrow> cbor_error + nat \<times> nat" where
  "readUint8 v pos = (if pos \<ge> length v then Inl UnexpectedEnd else Inr (unat (v ! pos), pos + 1))"

fun readUintN_from :: "nat \<Rightarrow> bytes \<Rightarrow> nat \<Rightarrow> nat \<Rightarrow> cbor_error + nat \<times> nat" where
  "readUintN_from 0 v pos val = Inr (val, pos)"
| "readUintN_from (Suc n) v pos val =
     (case readUint8 v pos of Inl e \<Rightarrow> Inl e
      | Inr (b, pos') \<Rightarrow> readUintN_from n v pos' (val * 256 + b))"

definition readUintN :: "bytes \<Rightarrow> nat \<Rightarrow> nat \<Rightarrow> cbor_error + nat \<times> nat" where
  "readUintN v pos n = readUintN_from n v pos 0"

definition readLength :: "bytes \<Rightarrow> nat \<Rightarrow> nat \<Rightarrow> cbor_error + nat \<times> nat" where
  "readLength v pos minor =
     (if minor < 24 then Inr (minor, pos)
      else if minor = 24 then readUint8 v pos
      else if minor = 25 then readUintN v pos 2
      else if minor = 26 then readUintN v pos 4
      else if minor = 27 then
        (case readUintN v pos 4 of Inl e \<Rightarrow> Inl e
         | Inr (hi, pos1) \<Rightarrow>
           (case readUintN v pos1 4 of Inl e \<Rightarrow> Inl e
            | Inr (lo, pos2) \<Rightarrow>
              if hi > 0x1fffff then Inl UnsafeLength else Inr (hi * 0x100000000 + lo, pos2)))
      else Inl (BadLength minor))"

definition readBytes :: "bytes \<Rightarrow> nat \<Rightarrow> nat \<Rightarrow> cbor_error + bytes \<times> nat" where
  "readBytes v pos len =
     (if pos + len > length v then Inl BytesPastEnd else Inr (take len (drop pos v), pos + len))"

text \<open>
  The loops of an array and of a map over the reader \<open>rd\<close> of one item, then the item itself;
  \<open>None\<close> is out of fuel.
\<close>

type_synonym item_reader = "nat \<Rightarrow> (cbor_error + cval \<times> nat) option"
type_synonym obj = "(string \<times> cval) list \<times> cval option"

fun readArray :: "item_reader \<Rightarrow> nat \<Rightarrow> nat \<Rightarrow> nat \<Rightarrow> (cbor_error + cval list \<times> nat) option" where
  "readArray rd 0 count pos = None"
| "readArray rd (Suc fuel) count pos =
     (if count = 0 then Some (Inr ([], pos))
      else case rd pos of None \<Rightarrow> None
      | Some (Inl e) \<Rightarrow> Some (Inl e)
      | Some (Inr (x, pos1)) \<Rightarrow>
        (case readArray rd fuel (count - 1) pos1 of None \<Rightarrow> None
         | Some (Inl e) \<Rightarrow> Some (Inl e)
         | Some (Inr (xs, pos2)) \<Rightarrow> Some (Inr (x # xs, pos2))))"

fun readMap :: "item_reader \<Rightarrow> nat \<Rightarrow> nat \<Rightarrow> nat \<Rightarrow> obj \<Rightarrow> (cbor_error + obj \<times> nat) option" where
  "readMap rd 0 count pos ob = None"
| "readMap rd (Suc fuel) count pos ob =
     (if count = 0 then Some (Inr (ob, pos))
      else case rd pos of None \<Rightarrow> None
      | Some (Inl e) \<Rightarrow> Some (Inl e)
      | Some (Inr (CText k, pos1)) \<Rightarrow>
        (case rd pos1 of None \<Rightarrow> None
         | Some (Inl e) \<Rightarrow> Some (Inl e)
         | Some (Inr (x, pos2)) \<Rightarrow> readMap rd fuel (count - 1) pos2 (obj_assign k x ob))
      | Some (Inr (_, pos1)) \<Rightarrow> Some (Inl NonTextKey))"

fun readItem :: "(bytes \<Rightarrow> string) \<Rightarrow> bytes \<Rightarrow> nat \<Rightarrow> item_reader" where
  "readItem dec v 0 pos = None"
| "readItem dec v (Suc fuel) pos =
     (case readUint8 v pos of Inl e \<Rightarrow> Some (Inl e)
      | Inr (initial, pos1) \<Rightarrow>
        (let major = initial div 32
         in if major \<notin> {0, 2, 3, 4, 5} then Some (Inl (UnsupportedMajor major))
            else case readLength v pos1 (initial mod 32) of Inl e \<Rightarrow> Some (Inl e)
            | Inr (len, pos2) \<Rightarrow>
              if major = 0 then Some (Inr (CUint len, pos2))
              else if major = 4 then
                map_option (map_sum id (apfst CArr)) (readArray (readItem dec v fuel) fuel len pos2)
              else if major = 5 then
                map_option (map_sum id (apfst (\<lambda>(ps, pr). CMap ps pr)))
                  (readMap (readItem dec v fuel) fuel len pos2 ([], None))
              else
                (case readBytes v pos2 len of Inl e \<Rightarrow> Some (Inl e)
                 | Inr (bs, pos3) \<Rightarrow> Some (Inr (if major = 2 then CBytes bs else CText (dec bs), pos3)))))"

definition decode :: "(bytes \<Rightarrow> string) \<Rightarrow> bytes \<Rightarrow> (cbor_error + cval) option" where
  "decode dec v =
     (case readItem dec v (length v + 1) 0 of None \<Rightarrow> None
      | Some (Inl e) \<Rightarrow> Some (Inl e)
      | Some (Inr (x, pos)) \<Rightarrow> Some (if pos \<noteq> length v then Inl TrailingBytes else Inr x))"

section \<open>Writing\<close>

text \<open>
  The four-byte form keeps the low 32 bits, as \<open>>>>\<close> and the typed array do. \<open>Object.keys\<close>
  lists the own properties only.
\<close>

definition writeTypeAndLength :: "nat \<Rightarrow> nat \<Rightarrow> bytes" where
  "writeTypeAndLength major len =
     (let hd = major * 32
      in if len < 24 then [byte_of (hd + len)]
         else if len < 0x100 then [byte_of (hd + 24), byte_of len]
         else if len < 0x10000 then [byte_of (hd + 25), byte_of (len div 256), byte_of len]
         else byte_of (hd + 26) # be32 len)"

fun encode :: "cval \<Rightarrow> bytes" where
  "encode (CUint n) = writeTypeAndLength 0 n"
| "encode (CBytes bs) = writeTypeAndLength 2 (length bs) @ bs"
| "encode (CText s) = writeTypeAndLength 3 (length (utf8_encode s)) @ utf8_encode s"
| "encode (CArr xs) = writeTypeAndLength 4 (length xs) @ concat (map encode xs)"
| "encode (CMap ps pr) = writeTypeAndLength 5 (length ps)
     @ concat (map (\<lambda>(k, v). encode (CText k) @ encode v) ps)"

section \<open>Termination\<close>

lemma readUint8_Inr: "readUint8 v pos = Inr (b, p) \<Longrightarrow> p = pos + 1 \<and> p \<le> length v \<and> b < 256"
  by (auto simp: readUint8_def split: if_splits)

lemma readUintN_from_Inr:
  "readUintN_from n v pos val = Inr (b, p) \<Longrightarrow> pos \<le> length v \<Longrightarrow> pos \<le> p \<and> p \<le> length v"
proof (induction n arbitrary: pos val)
  case (Suc n)
  then obtain c q where r: "readUint8 v pos = Inr (c, q)" "readUintN_from n v q (val * 256 + c) = Inr (b, p)"
    by (auto split: sum.splits)
  from readUint8_Inr [OF r(1)] Suc.IH [OF r(2)] show ?case by simp
qed simp

lemma readLength_Inr:
  "readLength v pos minor = Inr (n, p) \<Longrightarrow> pos \<le> length v \<Longrightarrow> pos \<le> p \<and> p \<le> length v"
  by (auto simp: readLength_def readUintN_def split: if_splits sum.splits
      dest!: readUint8_Inr dest: readUintN_from_Inr)
    (meson le_trans readUintN_from_Inr)+

lemma readBytes_Inr: "readBytes v pos len = Inr (bs, p) \<Longrightarrow> pos \<le> p \<and> p \<le> length v"
  by (auto simp: readBytes_def split: if_splits)

text \<open>A successful read moves forward and stays inside the input.\<close>

definition advances :: "bytes \<Rightarrow> item_reader \<Rightarrow> bool" where
  "advances v rd \<longleftrightarrow> (\<forall>pos x p. rd pos = Some (Inr (x, p)) \<longrightarrow> pos < p \<and> p \<le> length v)"

lemma readArray_Suc:
  assumes "readArray rd (Suc fuel) count pos = Some (Inr (xs, p))" "count \<noteq> 0"
  obtains x pos1 ys where "rd pos = Some (Inr (x, pos1))"
    "readArray rd fuel (count - 1) pos1 = Some (Inr (ys, p))" "xs = x # ys"
  using assms by (auto split: option.splits sum.splits)

lemma readMap_Suc:
  assumes "readMap rd (Suc fuel) count pos ob = Some (Inr (ob', p))" "count \<noteq> 0"
  obtains k pos1 x pos2 where "rd pos = Some (Inr (CText k, pos1))" "rd pos1 = Some (Inr (x, pos2))"
    "readMap rd fuel (count - 1) pos2 (obj_assign k x ob) = Some (Inr (ob', p))"
  using assms by (auto split: option.splits sum.splits cval.splits)

lemma readArray_forward:
  assumes "advances v rd" "readArray rd fuel count pos = Some (Inr (xs, p))" "pos \<le> length v"
  shows "pos \<le> p \<and> p \<le> length v"
  using assms(2,3)
proof (induction fuel arbitrary: count pos xs)
  case (Suc fuel)
  show ?case
  proof (cases "count = 0")
    case False
    from Suc.prems(1) this show ?thesis
    proof (rule readArray_Suc)
      fix x pos1 ys
      assume "rd pos = Some (Inr (x, pos1))" and r: "readArray rd fuel (count - 1) pos1 = Some (Inr (ys, p))"
      with assms(1) have "pos < pos1" "pos1 \<le> length v" by (auto simp: advances_def)
      with Suc.IH [OF r] show ?thesis by simp
    qed
  qed (use Suc.prems in simp)
qed simp

lemma readMap_forward:
  assumes "advances v rd" "readMap rd fuel count pos ob = Some (Inr (ob', p))" "pos \<le> length v"
  shows "pos \<le> p \<and> p \<le> length v"
  using assms(2,3)
proof (induction fuel arbitrary: count pos ob)
  case (Suc fuel)
  show ?case
  proof (cases "count = 0")
    case False
    from Suc.prems(1) this show ?thesis
    proof (rule readMap_Suc)
      fix k pos1 x pos2
      assume "rd pos = Some (Inr (CText k, pos1))" "rd pos1 = Some (Inr (x, pos2))"
        and r: "readMap rd fuel (count - 1) pos2 (obj_assign k x ob) = Some (Inr (ob', p))"
      with assms(1) have "pos < pos1" "pos1 < pos2" "pos2 \<le> length v" by (auto simp: advances_def)
      with Suc.IH [OF r] show ?thesis by simp
    qed
  qed (use Suc.prems in simp)
qed simp

lemma map_sum_InrE:
  assumes "map_sum id (apfst f) r = Inr (x, p)"
  obtains y where "r = Inr (y, p)"
  using assms by (cases r) auto

text \<open>What \<open>readItem\<close> does once the head byte and the length are read.\<close>

definition item_body :: "(bytes \<Rightarrow> string) \<Rightarrow> bytes \<Rightarrow> item_reader \<Rightarrow> nat \<Rightarrow> nat \<Rightarrow> nat \<Rightarrow> nat \<Rightarrow>
    (cbor_error + cval \<times> nat) option" where
  "item_body dec v rd fuel major len pos2 =
     (if major = 0 then Some (Inr (CUint len, pos2))
      else if major = 4 then map_option (map_sum id (apfst CArr)) (readArray rd fuel len pos2)
      else if major = 5 then
        map_option (map_sum id (apfst (\<lambda>(ps, pr). CMap ps pr))) (readMap rd fuel len pos2 ([], None))
      else
        (case readBytes v pos2 len of Inl e \<Rightarrow> Some (Inl e)
         | Inr (bs, pos3) \<Rightarrow> Some (Inr (if major = 2 then CBytes bs else CText (dec bs), pos3))))"

lemma readItem_Suc:
  "readItem dec v (Suc fuel) pos =
     (case readUint8 v pos of Inl e \<Rightarrow> Some (Inl e)
      | Inr (initial, pos1) \<Rightarrow>
        if initial div 32 \<notin> {0, 2, 3, 4, 5} then Some (Inl (UnsupportedMajor (initial div 32)))
        else case readLength v pos1 (initial mod 32) of Inl e \<Rightarrow> Some (Inl e)
        | Inr (len, pos2) \<Rightarrow> item_body dec v (readItem dec v fuel) fuel (initial div 32) len pos2)"
  by (simp add: item_body_def Let_def split: sum.split)

declare readItem.simps(2) [simp del]

lemma item_body_forward:
  assumes "advances v rd" "item_body dec v rd fuel major len pos = Some (Inr (x, p))" "pos \<le> length v"
  shows "pos \<le> p \<and> p \<le> length v"
proof -
  have arr: "pos \<le> p \<and> p \<le> length v"
    if "map_option (map_sum id (apfst f)) (readArray rd fuel len pos) = Some (Inr (x, p))" for f
  proof -
    from that obtain ys where "readArray rd fuel len pos = Some (Inr (ys, p))"
      by (auto elim: map_sum_InrE)
    from readArray_forward [OF assms(1) this assms(3)] show ?thesis .
  qed
  have mp: "pos \<le> p \<and> p \<le> length v"
    if "map_option (map_sum id (apfst f)) (readMap rd fuel len pos ([], None)) = Some (Inr (x, p))" for f
  proof -
    from that obtain ob where "readMap rd fuel len pos ([], None) = Some (Inr (ob, p))"
      by (auto elim: map_sum_InrE)
    from readMap_forward [OF assms(1) this assms(3)] show ?thesis .
  qed
  show ?thesis
    using assms(2,3) arr [of CArr] mp [of "\<lambda>(ps, pr). CMap ps pr"]
    by (auto simp: item_body_def split: if_splits sum.splits dest: readBytes_Inr)
qed

lemma readItem_forward: "advances v (readItem dec v fuel)"
proof (induction fuel)
  case 0
  then show ?case by (simp add: advances_def)
next
  case (Suc fuel)
  show ?case
    unfolding advances_def
  proof (intro allI impI)
    fix pos x p
    assume "readItem dec v (Suc fuel) pos = Some (Inr (x, p))"
    then obtain b pos1 len pos2 where r: "readUint8 v pos = Inr (b, pos1)"
      "readLength v pos1 (b mod 32) = Inr (len, pos2)"
      "item_body dec v (readItem dec v fuel) fuel (b div 32) len pos2 = Some (Inr (x, p))"
      by (auto simp: readItem_Suc split: sum.splits if_splits)
    from readUint8_Inr [OF r(1)] readLength_Inr [OF r(2)] item_body_forward [OF Suc r(3)]
    show "pos < p \<and> p \<le> length v" by simp
  qed
qed

lemma readArray_total:
  assumes "advances v rd" "\<And>q. pos \<le> q \<Longrightarrow> rd q \<noteq> None" "length v - pos < fuel" "pos \<le> length v"
  shows "readArray rd fuel count pos \<noteq> None"
  using assms(2-4)
proof (induction fuel arbitrary: count pos)
  case (Suc fuel)
  have "readArray rd fuel (count - 1) q \<noteq> None" if "rd pos = Some (Inr (x, q))" for x q
  proof -
    from that assms(1) have "pos < q" "q \<le> length v" by (auto simp: advances_def)
    with Suc.prems show ?thesis by (intro Suc.IH) auto
  qed
  with Suc.prems(1) [of pos] show ?case
    by (auto split: option.splits sum.splits)
qed simp

lemma readMap_total:
  assumes "advances v rd" "\<And>q. pos \<le> q \<Longrightarrow> rd q \<noteq> None" "length v - pos < fuel" "pos \<le> length v"
  shows "readMap rd fuel count pos ob \<noteq> None"
  using assms(2-4)
proof (induction fuel arbitrary: count pos ob)
  case (Suc fuel)
  have fwd: "pos < q \<and> q \<le> length v" if "rd pos = Some (Inr (x, q))" for x q
    using that assms(1) by (auto simp: advances_def)
  have "readMap rd fuel (count - 1) q' ob' \<noteq> None"
    if "rd pos = Some (Inr (x, q))" "rd q = Some (Inr (y, q'))" for x q y q' ob'
  proof -
    from that(2) assms(1) have "q < q'" "q' \<le> length v" by (auto simp: advances_def)
    with Suc.prems fwd [OF that(1)] show ?thesis by (intro Suc.IH) auto
  qed
  moreover have "rd q \<noteq> None" if "rd pos = Some (Inr (x, q))" for x q
    using fwd [OF that] by (intro Suc.prems(1)) simp
  ultimately show ?case
    using Suc.prems(1) [of pos] by (auto split: option.splits sum.splits cval.splits)
qed simp

lemma readItem_total: "length v - pos < fuel \<Longrightarrow> readItem dec v fuel pos \<noteq> None"
proof (induction fuel arbitrary: pos)
  case (Suc fuel)
  have "item_body dec v (readItem dec v fuel) fuel (b div 32) len pos2 \<noteq> None"
    if "readUint8 v pos = Inr (b, pos1)" "readLength v pos1 (b mod 32) = Inr (len, pos2)" for b pos1 len pos2
  proof -
    from that have "pos < pos2" "pos2 \<le> length v"
      using readUint8_Inr [OF that(1)] readLength_Inr [OF that(2)] by simp_all
    with Suc.prems have less: "length v - pos2 < fuel" by linarith
    with Suc.IH have rd: "\<And>q. pos2 \<le> q \<Longrightarrow> readItem dec v fuel q \<noteq> None" by auto
    show ?thesis
      using readArray_total [OF readItem_forward rd less \<open>pos2 \<le> length v\<close>]
        readMap_total [OF readItem_forward rd less \<open>pos2 \<le> length v\<close>]
      by (auto simp: item_body_def split: sum.splits)
  qed
  then show ?case
    unfolding readItem_Suc
    by (simp del: insert_iff split: sum.split)
qed simp

lemma decode_total_aux: "\<exists>r. decode dec v = Some r"
  using readItem_total [of v 0 "length v + 1" dec]
  by (auto simp: decode_def split: option.splits sum.splits)

text \<open>
  C38. The decoder answers on every input, hostile ones included: with the fuel decode supplies
  it always returns a value or an error, however long the declared counts are.
\<close>

theorem decode_total: "\<exists>r. decode dec v = Some r"
  by (rule decode_total_aux)

section \<open>Round trip\<close>

text \<open>
  The values the encoder handles faithfully: lengths and integers below 2^32, no
  own property called \<open>__proto__\<close>, and texts that TextDecoder reads back.
\<close>

definition text_ok :: "(bytes \<Rightarrow> string) \<Rightarrow> string \<Rightarrow> bool" where
  "text_ok dec s \<longleftrightarrow> length (utf8_encode s) < 2 ^ 32 \<and> dec (utf8_encode s) = s"

fun cbor_ok :: "(bytes \<Rightarrow> string) \<Rightarrow> cval \<Rightarrow> bool" where
  "cbor_ok dec (CUint n) = (n < 2 ^ 32)"
| "cbor_ok dec (CBytes bs) = (length bs < 2 ^ 32)"
| "cbor_ok dec (CText s) = text_ok dec s"
| "cbor_ok dec (CArr xs) = (length xs < 2 ^ 32 \<and> list_all (cbor_ok dec) xs)"
| "cbor_ok dec (CMap ps pr) =
     (pr = None \<and> length ps < 2 ^ 32 \<and> distinct (map fst ps) \<and> ''__proto__'' \<notin> fst ` set ps
      \<and> list_all (\<lambda>(k, x). text_ok dec k \<and> cbor_ok dec x) ps)"

lemma readUint8_drop:
  "drop pos v = x # rest \<Longrightarrow> readUint8 v pos = Inr (unat x, pos + 1) \<and> drop (pos + 1) v = rest"
proof -
  assume d: "drop pos v = x # rest"
  then have "pos < length v" by (metis drop_all list.discI not_le)
  with d show ?thesis
    by (auto simp: readUint8_def Cons_nth_drop_Suc [symmetric])
qed

lemma readBytes_drop:
  assumes "drop pos v = bs @ rest" "pos \<le> length v"
  shows "readBytes v pos (length bs) = Inr (bs, pos + length bs)"
proof -
  have "length (drop pos v) = length bs + length rest" using assms by simp
  with assms(2) have "pos + length bs \<le> length v" by simp
  then show ?thesis by (simp add: readBytes_def assms)
qed

lemma readUintN_from_drop:
  assumes "drop pos v = bs @ rest"
  shows "readUintN_from (length bs) v pos val
    = Inr (foldl (\<lambda>acc b. acc * 256 + unat b) val bs, pos + length bs)"
  using assms
proof (induction bs arbitrary: pos val)
  case (Cons b bs)
  from Cons.prems have "drop pos v = b # (bs @ rest)" by simp
  from readUint8_drop [OF this] Cons.IH [of "pos + 1" "val * 256 + unat b"] show ?case by simp
qed simp

lemma readUintN_be32:
  assumes "drop pos v = be32 n @ rest" "n < 2 ^ 32"
  shows "readUintN v pos 4 = Inr (n, pos + 4)"
  using readUintN_from_drop [OF assms(1), of 0] be32_round [OF assms(2)]
  by (simp add: readUintN_def be32_value_def)

lemma readUintN_two:
  assumes "drop pos v = byte_of (n div 256) # byte_of n # rest" "n < 0x10000"
  shows "readUintN v pos 2 = Inr (n, pos + 2)"
proof -
  have "drop pos v = [byte_of (n div 256), byte_of n] @ rest" using assms(1) by simp
  moreover have "length [byte_of (n div 256), byte_of n] = 2" by simp
  ultimately have "readUintN v pos 2 = Inr (n div 256 mod 256 * 256 + n mod 256, pos + 2)"
    using readUintN_from_drop [of pos v "[byte_of (n div 256), byte_of n]" rest 0]
    by (simp only: readUintN_def foldl.simps unat_byte_of mult_zero_left add_0)
  moreover have "n div 256 mod 256 = n div 256"
    using assms(2) by (simp add: less_mult_imp_div_less)
  ultimately show ?thesis by simp
qed

lemma head_round:
  assumes "drop pos v = writeTypeAndLength major n @ rest" "major < 8" "n < 2 ^ 32"
  shows "\<exists>b. readUint8 v pos = Inr (b, pos + 1) \<and> b div 32 = major
    \<and> readLength v (pos + 1) (b mod 32) = Inr (n, pos + length (writeTypeAndLength major n))
    \<and> drop (pos + length (writeTypeAndLength major n)) v = rest"
proof -
  have hd: "(major * 32 + m) mod 256 = major * 32 + m" "(major * 32 + m) div 32 = major"
    "(major * 32 + m) mod 32 = m" if "m < 32" for m
    using assms(2) that by (simp_all add: unpack)
  have rest: "drop (pos + length (writeTypeAndLength major n)) v = rest"
    using assms(1) by (metis add.commute append_eq_conv_conj drop_drop)
  consider (a) "n < 24" | (b) "24 \<le> n" "n < 0x100" | (c) "0x100 \<le> n" "n < 0x10000" | (d) "0x10000 \<le> n"
    by linarith
  then show ?thesis
  proof cases
    case a
    then have w: "writeTypeAndLength major n = [byte_of (major * 32 + n)]"
      by (simp add: writeTypeAndLength_def)
    from readUint8_drop [of pos v "byte_of (major * 32 + n)" rest] assms(1) w hd [of n] a rest
    show ?thesis by (auto simp: readLength_def)
  next
    case b
    then have w: "writeTypeAndLength major n = [byte_of (major * 32 + 24), byte_of n]"
      by (simp add: writeTypeAndLength_def)
    with assms(1) have "drop pos v = byte_of (major * 32 + 24) # byte_of n # rest" by simp
    from readUint8_drop [OF this] readUint8_drop [of "pos + 1" v "byte_of n" rest] w hd [of 24] b rest
    show ?thesis by (auto simp: readLength_def)
  next
    case c
    then have w: "writeTypeAndLength major n = [byte_of (major * 32 + 25), byte_of (n div 256), byte_of n]"
      by (simp add: writeTypeAndLength_def)
    with assms(1) have "drop pos v = byte_of (major * 32 + 25) # byte_of (n div 256) # byte_of n # rest" by simp
    note r0 = readUint8_drop [OF this]
    from this r0 readUintN_two [of "pos + 1" v n rest] c w hd [of 25] rest show ?thesis
      by (auto simp: readLength_def)
  next
    case d
    then have w: "writeTypeAndLength major n = byte_of (major * 32 + 26) # be32 n"
      by (simp add: writeTypeAndLength_def Let_def)
    with assms(1) have "drop pos v = byte_of (major * 32 + 26) # be32 n @ rest" by simp
    note r0 = readUint8_drop [OF this]
    from readUintN_be32 [of "pos + 1" v n rest] r0 w hd [of 26] rest assms(3) show ?thesis
      by (auto simp: readLength_def)
  qed
qed

text \<open>At every position from \<open>lo\<close> on where \<open>bs\<close> stands, the reader returns \<open>x\<close> and passes it.\<close>

definition reads :: "bytes \<Rightarrow> item_reader \<Rightarrow> nat \<Rightarrow> bytes \<Rightarrow> cval \<Rightarrow> bool" where
  "reads v rd lo bs x \<longleftrightarrow> (\<forall>pos rest. lo \<le> pos \<longrightarrow> pos \<le> length v \<longrightarrow> drop pos v = bs @ rest \<longrightarrow>
     rd pos = Some (Inr (x, pos + length bs)))"

lemma reads_step:
  assumes "reads v rd lo bs x" "lo \<le> pos" "pos \<le> length v" "drop pos v = bs @ rest"
  shows "rd pos = Some (Inr (x, pos + length bs))" "drop (pos + length bs) v = rest"
    "pos + length bs \<le> length v"
proof -
  from assms show "rd pos = Some (Inr (x, pos + length bs))" by (auto simp: reads_def)
  from assms(4) show "drop (pos + length bs) v = rest"
    by (metis add.commute append_eq_conv_conj drop_drop)
  have "length (drop pos v) = length bs + length rest" using assms(4) by simp
  with assms(3) show "pos + length bs \<le> length v" by simp
qed

lemma writeTypeAndLength_nonempty: "writeTypeAndLength m n \<noteq> []"
  by (simp add: writeTypeAndLength_def Let_def)

lemma encode_nonempty: "encode x \<noteq> []"
  by (cases x) (simp_all add: writeTypeAndLength_nonempty)

lemma encode_nonempty_length: "0 < length (encode x)"
  using encode_nonempty [of x] by simp

lemma readArray_round:
  assumes "\<And>x. x \<in> set xs \<Longrightarrow> reads v rd lo (encode x) x"
    and "lo \<le> pos" "pos \<le> length v" "drop pos v = concat (map encode xs) @ rest" "length v - pos < fuel"
  shows "readArray rd fuel (length xs) pos = Some (Inr (xs, pos + length (concat (map encode xs))))"
  using assms
proof (induction xs arbitrary: pos fuel)
  case Nil
  then show ?case by (cases fuel) simp_all
next
  case (Cons x xs)
  obtain f where f: "fuel = Suc f" using Cons.prems(5) by (cases fuel) auto
  have d: "drop pos v = encode x @ (concat (map encode xs) @ rest)" using Cons.prems(4) by simp
  note st = reads_step [OF Cons.prems(1) [OF list.set_intros(1)] Cons.prems(2,3) d]
  have "length v - (pos + length (encode x)) < f"
    using Cons.prems(5) f st(3) encode_nonempty_length [of x] by linarith
  from Cons.IH [of "pos + length (encode x)" f, OF Cons.prems(1) _ st(3) st(2) this] st(1) f Cons.prems(2)
  show ?case by (simp add: add.assoc)
qed

lemma readMap_round:
  assumes "\<And>k x. (k, x) \<in> set ps \<Longrightarrow> reads v rd lo (encode (CText k)) (CText k) \<and> reads v rd lo (encode x) x"
    and "lo \<le> pos" "pos \<le> length v" "length v - pos < fuel"
    and "drop pos v = concat (map (\<lambda>(k, x). encode (CText k) @ encode x) ps) @ rest"
  shows "readMap rd fuel (length ps) pos ob
    = Some (Inr (fold (\<lambda>(k, x). obj_assign k x) ps ob,
        pos + length (concat (map (\<lambda>(k, x). encode (CText k) @ encode x) ps))))"
  using assms
proof (induction ps arbitrary: pos fuel ob)
  case Nil
  then show ?case by (cases fuel) simp_all
next
  case (Cons p ps)
  obtain k x where p: "p = (k, x)" by (cases p)
  obtain f where f: "fuel = Suc f" using Cons.prems(4) by (cases fuel) auto
  let ?kb = "encode (CText k)" and ?tl = "concat (map (\<lambda>(k, x). encode (CText k) @ encode x) ps)"
  have d: "drop pos v = ?kb @ (encode x @ ?tl @ rest)" using Cons.prems(5) p by simp
  have rd: "reads v rd lo ?kb (CText k)" "reads v rd lo (encode x) x"
    using Cons.prems(1) [of k x] p by simp_all
  note k1 = reads_step [OF rd(1) Cons.prems(2,3) d]
  have lo: "lo \<le> pos + length ?kb" using Cons.prems(2) by simp
  note k2 = reads_step [OF rd(2) lo k1(3) k1(2)]
  have "length v - (pos + length ?kb + length (encode x)) < f"
    using Cons.prems(4) f k2(3) encode_nonempty_length [of x] by linarith
  moreover have "\<And>k x. (k, x) \<in> set ps \<Longrightarrow> reads v rd lo (encode (CText k)) (CText k) \<and> reads v rd lo (encode x) x"
    by (rule Cons.prems(1)) simp
  ultimately have "readMap rd f (length ps) (pos + length ?kb + length (encode x)) (obj_assign k x ob)
    = Some (Inr (fold (\<lambda>(k, x). obj_assign k x) ps (obj_assign k x ob),
        pos + length ?kb + length (encode x) + length ?tl))"
    using lo k2(2,3) by (intro Cons.IH) simp_all
  with k1(1) k2(1) show ?case unfolding f p by (simp add: add.assoc)
qed

lemma update_fresh: "k \<notin> fst ` set qs \<Longrightarrow> AList.update k x qs = qs @ [(k, x)]"
  by (induction qs) auto

text \<open>Distinct ordinary keys are appended in order.\<close>

lemma obj_assign_fold:
  assumes "distinct (map fst (qs @ ps))" "''__proto__'' \<notin> fst ` set ps"
  shows "fold (\<lambda>(k, x). obj_assign k x) ps (qs, pr) = (qs @ ps, pr)"
  using assms
proof (induction ps arbitrary: qs)
  case (Cons p ps)
  obtain k x where p: "p = (k, x)" by (cases p)
  have "AList.update k x qs = qs @ [(k, x)]"
    using Cons.prems(1) p by (intro update_fresh) auto
  with Cons.IH [of "qs @ [p]"] Cons.prems p show ?case
    by (auto simp: obj_assign_def)
qed simp

lemma readItem_round:
  "cbor_ok dec x \<Longrightarrow> length v - lo < fuel \<Longrightarrow> reads v (readItem dec v fuel) lo (encode x) x"
proof (induction fuel arbitrary: lo x)
  case (Suc fuel)
  show ?case
    unfolding reads_def
  proof (intro allI impI)
    fix pos rest
    assume lo: "lo \<le> pos" and le: "pos \<le> length v" and d: "drop pos v = encode x @ rest"
    let ?goal = "readItem dec v (Suc fuel) pos = Some (Inr (x, pos + length (encode x)))"
    have step: ?goal
      if enc: "encode x = writeTypeAndLength major n @ body" and m: "major \<in> {0, 2, 3, 4, 5}" "n < 2 ^ 32"
        and body: "\<And>q. pos < q \<Longrightarrow> q \<le> length v \<Longrightarrow> drop q v = body @ rest \<Longrightarrow> length v - q < fuel \<Longrightarrow>
          item_body dec v (readItem dec v fuel) fuel major n q = Some (Inr (x, q + length body))"
      for major n body
    proof -
      let ?w = "writeTypeAndLength major n"
      have d': "drop pos v = ?w @ (body @ rest)" using d enc by simp
      have "major < 8" using m by auto
      from head_round [OF d' this m(2)] obtain b where
        b: "readUint8 v pos = Inr (b, pos + 1)" "b div 32 = major"
          "readLength v (pos + 1) (b mod 32) = Inr (n, pos + length ?w)" "drop (pos + length ?w) v = body @ rest"
        by blast
      have "0 < length ?w" using writeTypeAndLength_nonempty by simp
      moreover have "length (drop pos v) = length ?w + length (body @ rest)" using d' by simp
      ultimately have q: "pos < pos + length ?w" "pos + length ?w \<le> length v" "length v - (pos + length ?w) < fuel"
        using le lo Suc.prems(2) 
        by (simp_all only: length_append length_drop)
      from body [OF q(1,2) b(4) q(3)] b m(1) show ?goal
        by (simp del: insert_iff add: readItem_Suc enc add.assoc)
    qed
    show ?goal
    proof (cases x)
      case (CUint n)
      with Suc.prems(1) show ?thesis
        by (intro step [of 0 n "[]"]) (simp_all add: item_body_def)
    next
      case (CBytes bs)
      with Suc.prems(1) show ?thesis
        by (intro step [of 2 "length bs" bs]) (simp_all add: item_body_def readBytes_drop)
    next
      case (CText s)
      with Suc.prems(1) show ?thesis
        by (intro step [of 3 "length (utf8_encode s)" "utf8_encode s"])
          (simp_all add: item_body_def readBytes_drop text_ok_def)
    next
      case (CArr xs)
      show ?thesis
      proof (rule step [of 4 "length xs" "concat (map encode xs)"])
        fix q
        assume "q \<le> length v" "drop q v = concat (map encode xs) @ rest" "length v - q < fuel"
        moreover from this Suc.prems(1) CArr have "reads v (readItem dec v fuel) q (encode y) y" if "y \<in> set xs" for y
          using that by (intro Suc.IH) (auto simp: list_all_iff)
        ultimately show "item_body dec v (readItem dec v fuel) fuel 4 (length xs) q
            = Some (Inr (x, q + length (concat (map encode xs))))"
          using readArray_round [of xs v "readItem dec v fuel" q q rest fuel] CArr
          by (simp add: item_body_def)
      qed (use CArr Suc.prems(1) in simp_all)
    next
      case (CMap ps pr)
      let ?body = "concat (map (\<lambda>(k, x). encode (CText k) @ encode x) ps)"
      have ok: "pr = None" "distinct (map fst ps)" "''__proto__'' \<notin> fst ` set ps" "length ps < 2 ^ 32"
        "\<And>k y. (k, y) \<in> set ps \<Longrightarrow> cbor_ok dec (CText k) \<and> cbor_ok dec y"
        using Suc.prems(1) CMap by (auto simp: list_all_iff)
      show ?thesis
      proof (rule step [of 5 "length ps" ?body])
        fix q
        assume q: "q \<le> length v" "drop q v = ?body @ rest" "length v - q < fuel"
        have rd: "reads v (readItem dec v fuel) q (encode (CText k)) (CText k)
            \<and> reads v (readItem dec v fuel) q (encode y) y" if "(k, y) \<in> set ps" for k y
          using ok(5) [OF that] q(3) by (intro conjI Suc.IH) simp_all
        from readMap_round [OF rd order_refl q(1,3,2), of "([], None)"]
          obj_assign_fold [of "[]" ps None] ok CMap
        show "item_body dec v (readItem dec v fuel) fuel 5 (length ps) q = Some (Inr (x, q + length ?body))"
          by (simp add: item_body_def)
      qed (use CMap ok in simp_all)
    qed
  qed
qed simp

lemma decode_encode_aux:
  assumes "cbor_ok dec x"
  shows "decode dec (encode x) = Some (Inr x)"
proof -
  have "reads (encode x) (readItem dec (encode x) (length (encode x) + 1)) 0 (encode x) x"
    by (rule readItem_round [OF assms]) simp
  from reads_step(1) [OF this, of 0 "[]"] show ?thesis
    by (simp add: decode_def)
qed

text \<open>
  C39. Codec round trip: decoding what the encoder wrote gives the value back, for integers and
  lengths below 2^32, maps with distinct ordinary keys and texts TextDecoder reads back.
\<close>

theorem decode_encode:
  assumes "cbor_ok dec x"
  shows "decode dec (encode x) = Some (Inr x)"
  using assms by (rule decode_encode_aux)

text \<open>ASCII is a concrete instance of the decoder.\<close>

definition ascii_decode :: "bytes \<Rightarrow> string" where
  "ascii_decode bs = map (\<lambda>b. char_of (unat b)) bs"

lemma ascii_decode_encode:
  "list_all (\<lambda>c. of_char c < (128 :: nat)) s \<Longrightarrow> ascii_decode (utf8_encode s) = s"
  by (induction s) (auto simp: ascii_decode_def utf8_encode_def utf8_char_def)

theorem decode_encode_witness:
  "let x = CMap [(''fmt'', CText ''a''), (''x5c'', CArr [CBytes [7], CUint 70000])] None
   in decode ascii_decode (encode x) = Some (Inr x)"
proof -
  have "cbor_ok ascii_decode (CMap [(''fmt'', CText ''a''), (''x5c'', CArr [CBytes [7], CUint 70000])] None)"
    by (simp add: text_ok_def ascii_decode_encode) (simp add: utf8_encode_def utf8_char_def)
  from decode_encode [OF this] show ?thesis unfolding Let_def .
qed

text \<open>
  Outside that domain the encoder does not report the loss: an integer from 2^32 on
  is written with its low 32 bits only.
\<close>

lemma encode_wraps:
  "encode (CUint (2 ^ 32 + 0x10000)) = encode (CUint 0x10000)"
  by (simp add: writeTypeAndLength_def be32_def byte_of_def)

text \<open>
  A map entry under \<open>__proto__\<close> is no entry: its properties show through the lookup of every
  key the map itself lacks.
\<close>

lemma proto_shows_through:
  "cget (case fold (\<lambda>(k, x). obj_assign k x) [(''__proto__'', CMap [(''authData'', v)] None)] ([], None) of
      (ps, pr) \<Rightarrow> CMap ps pr) ''authData'' = Some v"
  by (simp add: obj_assign_def)

end
