(* ===== verification/AppAttest.thy ===== *)
theory AppAttest
  imports Cbor
begin

unbundle bit_operations_syntax

text \<open>
  App Attest verification, \<^verbatim>\<open>src/appattest.js\<close>: the DER readers, the attestation
  procedure and the assertion procedure. WebCrypto, the x509 package and TextDecoder are the
  fields of \<open>attest_env\<close>; their objects are opaque handles. The lemmas characterise exactly what
  the two procedures accept and show that the DER readers invert the DER encoding they expect.
\<close>

section \<open>Errors and the outside world\<close>

text \<open>
  One constructor per throw site; \<open>Uncaught\<close> stands for an exception of the engine or of a
  library that is not an AppAttestError.
\<close>

datatype att_error =
    MalformedCbor cbor_error
  | UnexpectedFormat
  | BadShape
  | MissingChain
  | CertParseFailed
  | CertExpired
  | IntermediateUntrusted
  | LeafUntrusted
  | MissingNonceExtension
  | NonceMismatch
  | AuthDataTooShort
  | RpIdMismatch
  | AaguidMismatch string string
  | CredentialIdMismatch
  | KeyImportFailed
  | SignatureInvalid
  | BadSignatureTag
  | IntegerTooLarge
  | BadNonceTag
  | BadNonceLength
  | BadDerLength
  | Uncaught

type_synonym handle = nat

record attest_env =
  ae_text :: "bytes \<Rightarrow> string"
  ae_sha256 :: "bytes \<Rightarrow> bytes"
  ae_parse_cert :: "cval \<Rightarrow> handle option"
  ae_parse_pem :: "string \<Rightarrow> handle option"
  ae_not_before :: "handle \<Rightarrow> int"
  ae_not_after :: "handle \<Rightarrow> int"
  ae_export_key :: "handle \<Rightarrow> handle option"
  ae_cert_verify :: "handle \<Rightarrow> handle \<Rightarrow> bool"
  ae_extension :: "handle \<Rightarrow> string \<Rightarrow> bytes option"
  ae_export_raw :: "handle \<Rightarrow> bytes option"
  ae_import_p256 :: "bytes \<Rightarrow> handle option"
  ae_ecdsa_verify :: "handle \<Rightarrow> bytes \<Rightarrow> bytes \<Rightarrow> bool"

section \<open>Byte arrays\<close>

text \<open>\<open>a[i]\<close>: undefined outside the array, negative indices included.\<close>

definition idx :: "bytes \<Rightarrow> int \<Rightarrow> nat option" where
  "idx bs i = (if 0 \<le> i \<and> i < int (length bs) then Some (unat (bs ! nat i)) else None)"

text \<open>What undefined becomes under a bitwise operator.\<close>

definition or0 :: "nat option \<Rightarrow> nat" where
  "or0 x = (case x of None \<Rightarrow> 0 | Some n \<Rightarrow> n)"

text \<open>\<open>a.subarray(i, j)\<close>, with its relative and clamped indices.\<close>

definition rel_index :: "nat \<Rightarrow> int \<Rightarrow> nat" where
  "rel_index n i = nat (if i < 0 then max 0 (int n + i) else min i (int n))"

definition subarray :: "bytes \<Rightarrow> int \<Rightarrow> int \<Rightarrow> bytes" where
  "subarray bs i j = (let b = rel_index (length bs) i; e = rel_index (length bs) j
     in take (e - b) (drop b bs))"

definition equalBytes :: "bytes \<Rightarrow> bytes \<Rightarrow> bool" where
  "equalBytes a b =
     (if length a \<noteq> length b then False
      else fold (\<lambda>(x, y) diff. diff OR (x XOR y)) (zip a b) (0 :: byte) = 0)"

definition textToAaguid :: "string \<Rightarrow> bytes" where
  "textToAaguid text = set_at (replicate 16 0) 0 (utf8_encode text)"

definition AAGUID_PROD :: bytes where "AAGUID_PROD = textToAaguid ''appattest''"
definition AAGUID_DEV :: bytes where "AAGUID_DEV = textToAaguid ''appattestdevelop''"
definition NONCE_OID :: string where "NONCE_OID = ''1.2.840.113635.100.8.2''"

lemma or_fold_zero:
  "fold (\<lambda>(x, y) diff. diff OR (x XOR y)) ps d = (0 :: byte) \<longleftrightarrow> d = 0 \<and> (\<forall>(x, y) \<in> set ps. x = y)"
proof (induction ps arbitrary: d)
  case (Cons p ps)
  have "d OR (x XOR y) = 0 \<longleftrightarrow> d = 0 \<and> x = y" for x y :: byte
    by (auto simp: or_eq_0_iff dest: arg_cong [of "x XOR y" 0 "\<lambda>z. z XOR y"] simp: xor.assoc)
  with Cons.IH show ?case by (auto split: prod.splits)
qed simp

lemma equalBytes_aux: "equalBytes a b \<longleftrightarrow> a = b"
  by (auto simp: equalBytes_def or_fold_zero list_eq_iff_zip_eq set_zip)

text \<open>
  The constant-time comparison is equality: the accumulated difference is zero exactly when
  the two byte strings are the same, lengths included.
\<close>

theorem equalBytes_eq: "equalBytes a b \<longleftrightarrow> a = b"
  by (rule equalBytes_aux)

section \<open>DER\<close>

text \<open>
  Lengths are 32-bit integers built with \<open><<\<close> and \<open>|\<close>: the value is signed, and a
  byte read past the end counts as zero.
\<close>

fun der_len_loop :: "bytes \<Rightarrow> nat \<Rightarrow> int \<Rightarrow> 32 word \<Rightarrow> 32 word \<times> int" where
  "der_len_loop der 0 pos len = (len, pos)"
| "der_len_loop der (Suc n) pos len =
     der_len_loop der n (pos + 1) (push_bit 8 len OR of_nat (or0 (idx der pos)))"

definition readDerLength :: "bytes \<Rightarrow> int \<Rightarrow> att_error + int \<times> int" where
  "readDerLength der pos =
     (case idx der pos of
        None \<Rightarrow> Inl BadDerLength
      | Some first \<Rightarrow>
          if first < 0x80 then Inr (int first, pos + 1)
          else let n = first mod 0x80
               in if n = 0 \<or> n > 4 then Inl BadDerLength
                  else case der_len_loop der n (pos + 1) 0 of (len, p) \<Rightarrow> Inr (sint len, p))"

fun strip_sign :: "nat \<Rightarrow> bytes \<Rightarrow> bytes" where
  "strip_sign sz (b # bs) = (if sz < length (b # bs) \<and> b = 0 then strip_sign sz bs else b # bs)"
| "strip_sign sz [] = []"

definition readInt :: "bytes \<Rightarrow> nat \<Rightarrow> int \<Rightarrow> att_error + bytes \<times> int" where
  "readInt der sz pos =
     (if idx der pos \<noteq> Some 0x02 then Inl BadSignatureTag
      else case readDerLength der (pos + 1) of Inl e \<Rightarrow> Inl e
      | Inr (len, p) \<Rightarrow>
        (let val = strip_sign sz (subarray der p (p + len))
         in if sz < length val then Inl IntegerTooLarge
            else Inr (set_at (replicate sz 0) (sz - length val) val, p + len)))"

definition derEcdsaToRaw :: "bytes \<Rightarrow> nat \<Rightarrow> att_error + bytes" where
  "derEcdsaToRaw der sz =
     (if idx der 0 \<noteq> Some 0x30 then Inl BadSignatureTag
      else case readDerLength der 1 of Inl e \<Rightarrow> Inl e
      | Inr (_, p) \<Rightarrow>
        (case readInt der sz p of Inl e \<Rightarrow> Inl e
         | Inr (r, p1) \<Rightarrow>
           (case readInt der sz p1 of Inl e \<Rightarrow> Inl e
            | Inr (s, _) \<Rightarrow> Inr (concatBytes r s))))"

definition expect_tag :: "bytes \<Rightarrow> nat \<Rightarrow> int \<Rightarrow> att_error + int \<times> int" where
  "expect_tag der tag pos =
     (if idx der pos \<noteq> Some tag then Inl BadNonceTag else readDerLength der (pos + 1))"

definition parseNonceExtension :: "bytes \<Rightarrow> att_error + bytes" where
  "parseNonceExtension der =
     (case expect_tag der 0x30 0 of Inl e \<Rightarrow> Inl e
      | Inr (_, p1) \<Rightarrow>
        (case expect_tag der 0xa1 p1 of Inl e \<Rightarrow> Inl e
         | Inr (_, p2) \<Rightarrow>
           (case expect_tag der 0x04 p2 of Inl e \<Rightarrow> Inl e
            | Inr (len, p3) \<Rightarrow>
              if len \<noteq> 32 then Inl BadNonceLength else Inr (subarray der p3 (p3 + 32)))))"

lemma idx_append [simp]: "idx (pre @ b # post) (int (length pre)) = Some (unat b)"
  by (simp add: idx_def)

lemma subarray_append:
  "subarray (pre @ c @ post) (int (length pre)) (int (length pre) + int (length c)) = c"
proof -
  have "rel_index (length (pre @ c @ post)) (int (length pre)) = length pre"
    "rel_index (length (pre @ c @ post)) (int (length pre) + int (length c)) = length pre + length c"
    by (simp_all add: rel_index_def)
  then show ?thesis by (simp only: subarray_def Let_def) simp
qed

lemma readDerLength_short:
  "n < 128 \<Longrightarrow> readDerLength (pre @ byte_of n # post) (int (length pre)) = Inr (int n, int (length pre) + 1)"
  by (simp add: readDerLength_def)

text \<open>The DER encoding the readers expect: minimal integers with a sign byte, short lengths.\<close>

definition der_content :: "bytes \<Rightarrow> bytes" where
  "der_content v = (let m = dropWhile (\<lambda>b. b = 0) v
     in if m = [] then [0] else if 128 \<le> unat (hd m) then 0 # m else m)"

definition der_int :: "bytes \<Rightarrow> bytes" where
  "der_int v = 2 # byte_of (length (der_content v)) # der_content v"

definition der_sig :: "bytes \<Rightarrow> bytes \<Rightarrow> bytes" where
  "der_sig r s = 0x30 # byte_of (length (der_int r @ der_int s)) # der_int r @ der_int s"

lemma zeros_dropWhile:
  "replicate (length v - length (dropWhile (\<lambda>b. b = 0) v)) 0 @ dropWhile (\<lambda>b. b = 0) v = (v :: bytes)"
proof (induction v)
  case (Cons b v)
  have "length (dropWhile (\<lambda>b. b = 0) v) \<le> length v" by (rule length_dropWhile_le)
  with Cons show ?case by (simp add: Suc_diff_le)
qed simp

lemma strip_sign_short: "length v \<le> sz \<Longrightarrow> strip_sign sz v = v"
  by (cases v) simp_all

lemma padded_content:
  assumes "length v = sz" "0 < sz"
  shows "length (der_content v) \<le> Suc sz"
    and "length (strip_sign sz (der_content v)) \<le> sz"
    and "replicate (sz - length (strip_sign sz (der_content v))) 0 @ strip_sign sz (der_content v) = v"
proof -
  let ?m = "dropWhile (\<lambda>b. b = 0) v"
  have le: "length ?m \<le> sz" using assms(1) length_dropWhile_le [of "\<lambda>b. b = 0" v] by simp
  note z = zeros_dropWhile [of v, unfolded assms(1)]
  consider (a) "?m = []" | (b) "?m \<noteq> []" "128 \<le> unat (hd ?m)" | (c) "?m \<noteq> []" "\<not> 128 \<le> unat (hd ?m)"
    by blast
  then have "length (der_content v) \<le> Suc sz \<and> length (strip_sign sz (der_content v)) \<le> sz
    \<and> replicate (sz - length (strip_sign sz (der_content v))) 0 @ strip_sign sz (der_content v) = v"
  proof cases
    case a
    with z have "v = replicate sz 0" by simp
    moreover have "replicate (sz - 1) 0 @ [0] = replicate sz (0 :: byte)"
      using assms(2) replicate_append_same [of "sz - 1" "0 :: byte"] by (cases sz) simp_all
    ultimately show ?thesis using a assms(2) by (simp add: der_content_def strip_sign_short)
  next
    case b
    then have d: "der_content v = 0 # ?m" by (auto simp: der_content_def Let_def)
    show ?thesis
    proof (cases "length ?m = sz")
      case True
      then have "strip_sign sz (0 # ?m) = ?m" by (simp add: strip_sign_short)
      with True z show ?thesis by (simp add: d)
    next
      case False
      with le have "length ?m < sz" by simp
      then have "replicate (sz - length ?m) 0 = replicate (sz - Suc (length ?m)) 0 @ [0 :: byte]"
        by (simp add: replicate_append_same Suc_diff_Suc flip: replicate_Suc)
      with z \<open>length ?m < sz\<close> show ?thesis by (simp add: d)
    qed
  next
    case c
    then have "der_content v = ?m" by (auto simp: der_content_def Let_def)
    with le z show ?thesis by (simp add: strip_sign_short)
  qed
  then show "length (der_content v) \<le> Suc sz" "length (strip_sign sz (der_content v)) \<le> sz"
    "replicate (sz - length (strip_sign sz (der_content v))) 0 @ strip_sign sz (der_content v) = v"
    by blast+
qed

lemma readInt_der_int:
  assumes "length v = sz" "0 < sz" "sz < 62"
  shows "readInt (pre @ der_int v @ post) sz (int (length pre))
    = Inr (v, int (length pre) + int (length (der_int v)))"
proof -
  let ?c = "der_content v" and ?der = "pre @ der_int v @ post"
  note pad = padded_content [OF assms(1,2)]
  have der: "?der = (pre @ [2]) @ byte_of (length ?c) # (?c @ post)" "?der = pre @ 2 # (byte_of (length ?c) # ?c @ post)"
    "?der = (pre @ [2, byte_of (length ?c)]) @ ?c @ post"
    by (simp_all add: der_int_def)
  have tag: "idx ?der (int (length pre)) = Some 2"
    by (subst der(2), subst idx_append) simp
  have len: "readDerLength ?der (int (length pre) + 1) = Inr (int (length ?c), int (length pre) + 2)"
    using readDerLength_short [of "length ?c" "pre @ [2]" "?c @ post"] pad(1) assms(3)
    by (simp add: der(1) add.commute)
  have sub: "subarray ?der (int (length pre) + 2) (int (length pre) + 2 + int (length ?c)) = ?c"
    using subarray_append [of "pre @ [2, byte_of (length ?c)]" ?c post] by (simp add: der(3) add.commute)
  have "set_at (replicate sz 0) (sz - length (strip_sign sz ?c)) (strip_sign sz ?c) = v"
    using pad(2,3) by (simp add: set_at_def min_def)
  with tag len sub pad(2) show ?thesis
    by (simp add: readInt_def Let_def not_less der_int_def)
qed

lemma length_der_int: "length v = sz \<Longrightarrow> 0 < sz \<Longrightarrow> length (der_int v) \<le> sz + 3"
  using padded_content(1) [of v sz] by (simp add: der_int_def)

text \<open>
  Signature conversion: on the DER encoding of a pair of fixed-width integers, with minimal
  length and sign padding, the converter returns exactly the two integers side by side.
\<close>

theorem derEcdsaToRaw_der_sig:
  assumes "length r = sz" "length s = sz" "0 < sz" "sz \<le> 60"
  shows "derEcdsaToRaw (der_sig r s) sz = Inr (r @ s)"
proof -
  let ?n = "length (der_int r @ der_int s)" and ?d = "der_sig r s"
  have n: "?n < 128" using length_der_int [OF assms(1,3)] length_der_int [OF assms(2,3)] assms(4) by simp
  have i0: "idx ?d 0 = Some 0x30" by (simp add: idx_def der_sig_def)
  have len: "readDerLength ?d 1 = Inr (int ?n, 2)"
    using readDerLength_short [OF n, of "[0x30]" "der_int r @ der_int s"] by (simp add: der_sig_def)
  have dr: "?d = [0x30, byte_of ?n] @ der_int r @ der_int s" by (simp add: der_sig_def)
  have r: "readInt ?d sz 2 = Inr (r, 2 + int (length (der_int r)))"
    unfolding dr using readInt_der_int [OF assms(1,3), of "[0x30, byte_of ?n]" "der_int s"] assms(4) by simp
  have ds: "?d = ([0x30, byte_of ?n] @ der_int r) @ der_int s @ []" by (simp add: der_sig_def)
  have s: "readInt ?d sz (2 + int (length (der_int r))) = Inr (s, 2 + int (length (der_int r)) + int (length (der_int s)))"
    unfolding ds using readInt_der_int [OF assms(2,3), of "[0x30, byte_of ?n] @ der_int r" "[]"] assms(4)
    by (simp add: add.assoc)
  show ?thesis by (simp add: derEcdsaToRaw_def i0 len r s concatBytes_eq)
qed

theorem derEcdsaToRaw_der_sig_witness:
  "derEcdsaToRaw (der_sig [0, 200] [5, 6]) 2 = Inr [0, 200, 5, 6]"
  using derEcdsaToRaw_der_sig [of "[0, 200]" 2 "[5, 6]"] by simp

text \<open>
  Whatever bytes it is handed, the converter returns either an error or exactly two integers
  of the requested width, so the raw signature always has the length WebCrypto expects.
\<close>

theorem derEcdsaToRaw_width:
  "(case derEcdsaToRaw der sz of Inl e \<Rightarrow> True | Inr raw \<Rightarrow> length raw = 2 * sz)"
proof -
  have "length v = sz" if "readInt der sz p = Inr (v, q)" for p q v
    using that by (auto simp: readInt_def Let_def split: if_splits sum.splits)
  then show ?thesis
    by (auto simp: derEcdsaToRaw_def concatBytes_eq split: sum.splits)
qed

text \<open>
  The readers do not reject what lies outside the input: a length made of four bytes can be
  negative, and bytes past the end count as zero.
\<close>

lemma der_length_negative: "readDerLength [0x84, 0x80, 0, 0, 0] 0 = Inr (- (2 ^ 31), 5)"
  by code_simp

lemma der_length_past_end: "readDerLength [0x82, 0x01] 0 = Inr (256, 3)"
  by code_simp

definition nonce_extension :: "bytes \<Rightarrow> bytes" where
  "nonce_extension n = [0x30, 36, 0xa1, 34, 0x04, 32] @ n"

text \<open>
  The nonce reader returns the nonce of the credential certificate's extension, and accepts
  no other length in the octet string's header.
\<close>

theorem parseNonceExtension_reads:
  "parseNonceExtension (nonce_extension n) = Inr (take 32 n)"
proof -
  have i: "idx (nonce_extension n) 0 = Some 0x30" "idx (nonce_extension n) 2 = Some 0xa1"
    "idx (nonce_extension n) 4 = Some 0x04" "idx (nonce_extension n) 1 = Some 36"
    "idx (nonce_extension n) 3 = Some 34" "idx (nonce_extension n) 5 = Some 32"
    by (simp_all add: idx_def nonce_extension_def)
  have "subarray (nonce_extension n) 6 38 = take 32 n"
    by (simp add: subarray_def rel_index_def nonce_extension_def Let_def min_def)
  with i show ?thesis
    by (simp add: parseNonceExtension_def expect_tag_def readDerLength_def)
qed

section \<open>Attestation\<close>

text \<open>
  \<open>v instanceof Uint8Array\<close>. A decoded map whose \<open>__proto__\<close> is a byte string passes
  the test, although \<open>length\<close> and \<open>subarray\<close> then reject it as a receiver: \<open>real_u8\<close>
  is the bytes of a genuine array.
\<close>

fun is_u8 :: "cval \<Rightarrow> bool" where
  "is_u8 (CBytes _) = True"
| "is_u8 (CMap _ (Some p)) = is_u8 p"
| "is_u8 _ = False"

fun real_u8 :: "cval \<Rightarrow> att_error + bytes" where
  "real_u8 (CBytes bs) = Inr bs"
| "real_u8 _ = Inl Uncaught"

fun cval_truthy :: "cval \<Rightarrow> bool" where
  "cval_truthy (CUint n) = (n \<noteq> 0)"
| "cval_truthy (CText s) = (s \<noteq> [])"
| "cval_truthy _ = True"

text \<open>Sequencing of steps that may throw.\<close>

definition check :: "bool \<Rightarrow> 'e \<Rightarrow> 'e + 'a \<Rightarrow> 'e + 'a" where
  "check ok e k = (if ok then k else Inl e)"

definition try_get :: "'a option \<Rightarrow> 'e \<Rightarrow> ('a \<Rightarrow> 'e + 'b) \<Rightarrow> 'e + 'b" where
  "try_get x e k = (case x of None \<Rightarrow> Inl e | Some y \<Rightarrow> k y)"

definition try_bind :: "'e + 'a \<Rightarrow> ('a \<Rightarrow> 'e + 'b) \<Rightarrow> 'e + 'b" where
  "try_bind x k = (case x of Inl e \<Rightarrow> Inl e | Inr y \<Rightarrow> k y)"

lemma check_Inr [simp]: "check ok e k = Inr r \<longleftrightarrow> ok \<and> k = Inr r"
  by (simp add: check_def)

lemma try_get_Inr [simp]: "try_get x e k = Inr r \<longleftrightarrow> (\<exists>y. x = Some y \<and> k y = Inr r)"
  by (auto simp: try_get_def split: option.splits)

lemma try_bind_Inr [simp]: "try_bind x k = Inr r \<longleftrightarrow> (\<exists>y. x = Inr y \<and> k y = Inr r)"
  by (auto simp: try_bind_def split: sum.splits)

definition decode_object :: "attest_env \<Rightarrow> bytes \<Rightarrow> att_error + cval" where
  "decode_object E bs = (case decode (ae_text E) bs of
     Some (Inr obj) \<Rightarrow> Inr obj | Some (Inl e) \<Rightarrow> Inl (MalformedCbor e) | None \<Rightarrow> Inl Uncaught)"

text \<open>\<open>x5c[0]\<close> and \<open>x5c[1]\<close>, both byte arrays.\<close>

fun chain_pair :: "cval option \<Rightarrow> (cval \<times> cval) option" where
  "chain_pair (Some (CArr (a # b # rest))) = (if is_u8 a \<and> is_u8 b then Some (a, b) else None)"
| "chain_pair _ = None"

fun trim_nuls :: "string \<Rightarrow> string" where
  "trim_nuls s = rev (dropWhile (\<lambda>c. of_char c = (0 :: nat)) (rev s))"

definition expected_aaguid :: "string \<Rightarrow> bytes" where
  "expected_aaguid environment = (if environment = ''development'' then AAGUID_DEV else AAGUID_PROD)"

definition cred_id_len :: "bytes \<Rightarrow> int" where
  "cred_id_len authData = int (or0 (idx authData 53) * 256 + or0 (idx authData 54))"

definition verifyAttestation ::
  "attest_env \<Rightarrow> bytes \<Rightarrow> bytes \<Rightarrow> string \<Rightarrow> string \<Rightarrow> string \<Rightarrow> int \<Rightarrow> att_error + bytes \<times> bytes" where
  "verifyAttestation E attestationObject clientDataHash appId environment trustedRootPem now =
     try_bind (decode_object E attestationObject) (\<lambda>obj.
     check (cget obj ''fmt'' = Some (CText ''apple-appattest'')) UnexpectedFormat (
     try_get (cget obj ''attStmt'') BadShape (\<lambda>attStmt.
     try_get (cget obj ''authData'') BadShape (\<lambda>authVal.
     check (cval_truthy attStmt \<and> is_u8 authVal) BadShape (
     try_get (chain_pair (cget attStmt ''x5c'')) MissingChain (\<lambda>(leafDer, intDer).
     try_get (ae_parse_cert E leafDer) CertParseFailed (\<lambda>credCert.
     try_get (ae_parse_cert E intDer) CertParseFailed (\<lambda>intermediate.
     try_get (ae_parse_pem E trustedRootPem) CertParseFailed (\<lambda>root.
     check (\<not> (now < ae_not_before E credCert \<or> now > ae_not_after E credCert)) CertExpired (
     check (\<not> (now < ae_not_before E intermediate \<or> now > ae_not_after E intermediate)) CertExpired (
     try_get (ae_export_key E root) Uncaught (\<lambda>rootKey.
     check (ae_cert_verify E intermediate rootKey) IntermediateUntrusted (
     try_get (ae_export_key E intermediate) Uncaught (\<lambda>intKey.
     check (ae_cert_verify E credCert intKey) LeafUntrusted (
     try_bind (real_u8 authVal) (\<lambda>authData.
     let expectedNonce = ae_sha256 E (concatBytes authData clientDataHash) in
     try_get (ae_extension E credCert NONCE_OID) MissingNonceExtension (\<lambda>ext.
     try_bind (parseNonceExtension ext) (\<lambda>certNonce.
     check (equalBytes certNonce expectedNonce) NonceMismatch (
     try_get (ae_export_key E credCert) Uncaught (\<lambda>credKey.
     try_get (ae_export_raw E credKey) Uncaught (\<lambda>publicKeyRaw.
     let keyId = ae_sha256 E publicKeyRaw in
     check (\<not> length authData < 37) AuthDataTooShort (
     check (equalBytes (subarray authData 0 32) (ae_sha256 E (utf8_encode appId))) RpIdMismatch (
     let aaguid = subarray authData 37 53 in
     check (equalBytes aaguid (expected_aaguid environment))
       (AaguidMismatch (trim_nuls (ae_text E aaguid)) environment) (
     check (equalBytes (subarray authData 55 (55 + cred_id_len authData)) keyId) CredentialIdMismatch
       (Inr (keyId, publicKeyRaw))))))))))))))))))))))))))"

definition verifyAssertion ::
  "attest_env \<Rightarrow> bytes \<Rightarrow> bytes \<Rightarrow> bytes \<Rightarrow> string \<Rightarrow> att_error + nat" where
  "verifyAssertion E assertion clientDataHash publicKeyRaw appId =
     try_bind (decode_object E assertion) (\<lambda>obj.
     try_get (cget obj ''signature'') BadShape (\<lambda>sigVal.
     try_get (cget obj ''authenticatorData'') BadShape (\<lambda>authVal.
     check (is_u8 sigVal \<and> is_u8 authVal) BadShape (
     try_bind (real_u8 authVal) (\<lambda>authData.
     check (\<not> length authData < 37) AuthDataTooShort (
     let nonce = ae_sha256 E (concatBytes authData clientDataHash) in
     try_get (ae_import_p256 E publicKeyRaw) KeyImportFailed (\<lambda>key.
     try_bind (real_u8 sigVal) (\<lambda>der.
     try_bind (derEcdsaToRaw der 32) (\<lambda>rawSig.
     check (ae_ecdsa_verify E key rawSig nonce) SignatureInvalid (
     check (equalBytes (subarray authData 0 32) (ae_sha256 E (utf8_encode appId))) RpIdMismatch (
     let b = (\<lambda>i. of_nat (or0 (idx authData i)) :: 32 word);
         counter = push_bit 24 (b 33) OR push_bit 16 (b 34) OR push_bit 8 (b 35) OR b 36
     in Inr (unat counter))))))))))))"

text \<open>
  Apple's procedure, as conditions on the decoded object: the format, a chain to the configured
  root inside its validity period, the nonce of the leaf's extension bound to the authenticator
  data and the client data, the application, the environment, and the key id.
\<close>

definition attests ::
  "attest_env \<Rightarrow> cval \<Rightarrow> bytes \<Rightarrow> string \<Rightarrow> string \<Rightarrow> string \<Rightarrow> int \<Rightarrow> bytes \<Rightarrow> bytes \<Rightarrow> bool" where
  "attests E obj cdh appId environment rootPem now keyId pub \<longleftrightarrow>
     (\<exists>stmt ad leafDer intDer leaf inter root rootKey intKey leafKey ext.
        cget obj ''fmt'' = Some (CText ''apple-appattest'')
      \<and> cget obj ''attStmt'' = Some stmt \<and> cval_truthy stmt \<and> cget obj ''authData'' = Some (CBytes ad)
      \<and> chain_pair (cget stmt ''x5c'') = Some (leafDer, intDer)
      \<and> ae_parse_cert E leafDer = Some leaf \<and> ae_parse_cert E intDer = Some inter
      \<and> ae_parse_pem E rootPem = Some root
      \<and> now \<in> {ae_not_before E leaf .. ae_not_after E leaf} \<inter> {ae_not_before E inter .. ae_not_after E inter}
      \<and> ae_export_key E root = Some rootKey \<and> ae_cert_verify E inter rootKey
      \<and> ae_export_key E inter = Some intKey \<and> ae_cert_verify E leaf intKey
      \<and> ae_extension E leaf NONCE_OID = Some ext
      \<and> parseNonceExtension ext = Inr (ae_sha256 E (ad @ cdh))
      \<and> ae_export_key E leaf = Some leafKey \<and> ae_export_raw E leafKey = Some pub
      \<and> keyId = ae_sha256 E pub
      \<and> 37 \<le> length ad \<and> subarray ad 0 32 = ae_sha256 E (utf8_encode appId)
      \<and> subarray ad 37 53 = expected_aaguid environment
      \<and> subarray ad 55 (55 + cred_id_len ad) = keyId)"

lemma real_u8_Inr [simp]: "real_u8 v = Inr bs \<longleftrightarrow> v = CBytes bs"
  by (cases v) auto

lemma decode_object_Inr [simp]:
  "decode_object E bs = Inr obj \<longleftrightarrow> decode (ae_text E) bs = Some (Inr obj)"
  by (auto simp: decode_object_def split: option.splits sum.splits)

lemma verifyAttestation_accepts_aux:
  "verifyAttestation E att cdh appId environment rootPem now = Inr (keyId, pub) \<longleftrightarrow>
     (\<exists>obj. decode (ae_text E) att = Some (Inr obj)
        \<and> attests E obj cdh appId environment rootPem now keyId pub)"
  unfolding verifyAttestation_def attests_def
  by (auto simp: Let_def equalBytes_aux concatBytes_eq not_less simp del: insert_iff split: prod.splits)

text \<open>
  The attestation procedure accepts exactly what Apple's procedure accepts: it returns a key
  id and a public key if and only if the object decodes and every step holds, and then the key
  id is the hash of the attested public key.
\<close>

theorem verifyAttestation_accepts:
  "verifyAttestation E att cdh appId environment rootPem now = Inr (keyId, pub) \<longleftrightarrow>
     (\<exists>obj. decode (ae_text E) att = Some (Inr obj)
        \<and> attests E obj cdh appId environment rootPem now keyId pub)"
  by (rule verifyAttestation_accepts_aux)


text \<open>A concrete outside world and an object it attests.\<close>

definition demo_env :: attest_env where
  "demo_env = \<lparr>ae_text = ascii_decode, ae_sha256 = \<lambda>x. replicate 32 (byte_of (length x)),
     ae_parse_cert = \<lambda>c. Some (case c of CBytes bs \<Rightarrow> length bs | _ \<Rightarrow> 0), ae_parse_pem = \<lambda>_. Some 9,
     ae_not_before = \<lambda>_. 0, ae_not_after = \<lambda>_. 1000, ae_export_key = Some,
     ae_cert_verify = \<lambda>c k. k = (if c = 1 then 2 else 9),
     ae_extension = \<lambda>_ _. Some (nonce_extension (replicate 32 89)), ae_export_raw = \<lambda>_. Some [4, 4],
     ae_import_p256 = \<lambda>bs. Some (length bs), ae_ecdsa_verify = \<lambda>k sig nonce. True\<rparr>"

definition demo_auth_data :: bytes where
  "demo_auth_data = replicate 32 3 @ replicate 5 0 @ AAGUID_PROD @ [0, 32] @ replicate 32 2"

definition demo_object :: cval where
  "demo_object = CMap [(''fmt'', CText ''apple-appattest''),
     (''attStmt'', CMap [(''x5c'', CArr [CBytes [7], CBytes [7, 8]])] None),
     (''authData'', CBytes demo_auth_data)] None"

lemma demo_decode: "decode ascii_decode (encode demo_object) = Some (Inr demo_object)"
proof (rule decode_encode_aux)
  have "length demo_auth_data < 2 ^ 32"
    by (simp add: demo_auth_data_def AAGUID_PROD_def textToAaguid_def set_at_def utf8_encode_def utf8_char_def)
  then show "cbor_ok ascii_decode demo_object"
    by (simp add: demo_object_def text_ok_def ascii_decode_encode) (simp add: utf8_encode_def utf8_char_def)
qed

lemma demo_attests: "attests demo_env demo_object [5, 5] ''app'' ''production'' [] 10 (replicate 32 2) [4, 4]"
proof -
  have ad: "length demo_auth_data = 87" "subarray demo_auth_data 0 32 = replicate 32 3"
    "subarray demo_auth_data 37 53 = AAGUID_PROD" "cred_id_len demo_auth_data = 32"
    "subarray demo_auth_data 55 87 = replicate 32 2"
    by code_simp+
  have n: "parseNonceExtension (nonce_extension (replicate 32 89)) = Inr (replicate 32 89)"
    by code_simp
  show ?thesis
    unfolding attests_def
    by (rule exI [of _ "CMap [(''x5c'', CArr [CBytes [7], CBytes [7, 8]])] None"], rule exI [of _ demo_auth_data],
        rule exI [of _ "CBytes [7]"], rule exI [of _ "CBytes [7, 8]"], rule exI [of _ 1], rule exI [of _ 2],
        rule exI [of _ 9], rule exI [of _ 9], rule exI [of _ 2], rule exI [of _ 1],
        rule exI [of _ "nonce_extension (replicate 32 89)"])
      (simp add: demo_env_def demo_object_def ad n expected_aaguid_def utf8_encode_def utf8_char_def byte_of_def)
qed


section \<open>Assertion\<close>

lemma or_low:
  assumes "n < 2 ^ k"
  shows "(push_bit k (of_nat m) :: 32 word) OR of_nat n = of_nat (m * 2 ^ k + n)"
proof -
  have "\<not> bit n i" if "k \<le> i" for i
  proof -
    have "n < 2 ^ i" using assms power_increasing [OF that, of "2 :: nat"] by linarith
    then show ?thesis by (simp add: bit_nat_def)
  qed
  then have "(push_bit k (of_nat m) :: 32 word) AND of_nat n = 0"
    by (intro bit_eqI) (auto simp: bit_simps not_le)
  then have "(push_bit k (of_nat m) :: 32 word) OR of_nat n = push_bit k (of_nat m) + of_nat n"
    by (simp add: disjunctive_add_eq_or)
  then show ?thesis by (simp add: push_bit_eq_mult)
qed

lemma counter_word:
  assumes "a < 256" "b < 256" "c < 256" "d < 256"
  shows "unat (push_bit 24 (of_nat a) OR push_bit 16 (of_nat b) OR push_bit 8 (of_nat c) OR of_nat d :: 32 word)
    = ((a * 256 + b) * 256 + c) * 256 + d"
proof -
  have 1: "push_bit 8 (of_nat c) OR of_nat d = (of_nat (c * 2 ^ 8 + d) :: 32 word)"
    using assms by (intro or_low) simp
  have 2: "push_bit 16 (of_nat b) OR of_nat (c * 2 ^ 8 + d) = (of_nat (b * 2 ^ 16 + (c * 2 ^ 8 + d)) :: 32 word)"
    using assms by (intro or_low) simp
  have 3: "push_bit 24 (of_nat a) OR of_nat (b * 2 ^ 16 + (c * 2 ^ 8 + d))
      = (of_nat (a * 2 ^ 24 + (b * 2 ^ 16 + (c * 2 ^ 8 + d))) :: 32 word)"
    using assms by (intro or_low) simp
  show ?thesis
    unfolding 1 2 3 unat_of_nat using assms by simp
qed

text \<open>The sign count as a number: the four bytes behind the flags, big-endian.\<close>

definition sign_count :: "bytes \<Rightarrow> nat" where
  "sign_count ad = be32_value (take 4 (drop 33 ad))"

lemma counter_sign_count:
  assumes "37 \<le> length ad"
  shows "(let b = (\<lambda>i. of_nat (or0 (idx ad i)) :: 32 word)
    in unat (push_bit 24 (b 33) OR push_bit 16 (b 34) OR push_bit 8 (b 35) OR b 36)) = sign_count ad"
proof -
  have "take 4 (drop 33 ad) = [ad ! 33, ad ! 34, ad ! 35, ad ! 36]"
    using assms by (intro nth_equalityI) (auto simp: less_Suc_eq numeral_eq_Suc)
  moreover have "or0 (idx ad 33) = unat (ad ! 33)" "or0 (idx ad 34) = unat (ad ! 34)"
    "or0 (idx ad 35) = unat (ad ! 35)" "or0 (idx ad 36) = unat (ad ! 36)"
    using assms by (simp_all add: idx_def or0_def)
  ultimately show ?thesis
    using counter_word [OF unat_byte_less unat_byte_less unat_byte_less unat_byte_less,
        of "ad ! 33" "ad ! 34" "ad ! 35" "ad ! 36"]
    by (simp only: Let_def sign_count_def be32_value_def foldl.simps mult_zero_left add_0)
qed

definition asserts :: "attest_env \<Rightarrow> cval \<Rightarrow> bytes \<Rightarrow> bytes \<Rightarrow> string \<Rightarrow> nat \<Rightarrow> bool" where
  "asserts E obj cdh pub appId counter \<longleftrightarrow>
     (\<exists>der ad key raw.
        cget obj ''signature'' = Some (CBytes der) \<and> cget obj ''authenticatorData'' = Some (CBytes ad)
      \<and> 37 \<le> length ad \<and> ae_import_p256 E pub = Some key \<and> derEcdsaToRaw der 32 = Inr raw
      \<and> ae_ecdsa_verify E key raw (ae_sha256 E (ad @ cdh))
      \<and> subarray ad 0 32 = ae_sha256 E (utf8_encode appId) \<and> counter = sign_count ad)"

text \<open>
  The assertion procedure accepts exactly the assertions that carry a valid signature of
  the pinned key over the hash of authenticator data and client data for this application, and
  the counter it returns is the big-endian sign count.
\<close>

theorem verifyAssertion_accepts:
  "verifyAssertion E asn cdh pub appId = Inr counter \<longleftrightarrow>
     (\<exists>obj. decode (ae_text E) asn = Some (Inr obj) \<and> asserts E obj cdh pub appId counter)"
proof -
  note c = counter_sign_count [unfolded Let_def]
  show ?thesis
    unfolding verifyAssertion_def asserts_def
    by (auto simp: Let_def equalBytes_aux concatBytes_eq not_less c)
qed

end
