(* ===== verification/RoomState.thy ===== *)
theory RoomState
  imports Storage AppAttest
begin

text \<open>
  The state of one room of \<^verbatim>\<open>src/room.js\<close> as the host of \<^verbatim>\<open>host/runtime.js\<close> keeps it: the live
  sockets and their attachments, the room's slice of the store, its alarm, the in-memory rate
  windows and quota; and the primitive operations every handler is built from: closing a socket,
  the window limiter, the alarm, the teardown.
\<close>

section \<open>Constants\<close>

definition NONCE_BYTES :: nat where "NONCE_BYTES = 32"
definition REG_TOKEN_TTL_MS :: int where "REG_TOKEN_TTL_MS = 5 * 60 * 1000"
definition ATTEST_CHALLENGE_TTL_MS :: int where "ATTEST_CHALLENGE_TTL_MS = 5 * 60 * 1000"
definition TICKET_TTL_MS :: int where "TICKET_TTL_MS = 5 * 60 * 1000"
definition MAX_OUTSTANDING_CHALLENGES :: nat where "MAX_OUTSTANDING_CHALLENGES = 16"
definition MAX_PREAUTH_SOCKETS :: nat where "MAX_PREAUTH_SOCKETS = 4"
definition PREAUTH_DEADLINE_MS :: int where "PREAUTH_DEADLINE_MS = 15 * 1000"
definition ADMISSION_WINDOW_MS :: int where "ADMISSION_WINDOW_MS = 10 * 1000"
definition MAX_ADMISSION_ATTEMPTS :: int where "MAX_ADMISSION_ATTEMPTS = 40"
definition MAX_PAIRING_CYCLES :: int where "MAX_PAIRING_CYCLES = 8"
definition MAX_FRAME_BYTES :: nat where "MAX_FRAME_BYTES = 256 * 1024"
definition MAX_CONTROL_BYTES :: nat where "MAX_CONTROL_BYTES = 8 * 1024"
definition FRAME_WINDOW_MS :: int where "FRAME_WINDOW_MS = 1000"
definition MAX_FRAMES_PER_WINDOW :: int where "MAX_FRAMES_PER_WINDOW = 500"
definition QUOTA_WINDOW_MS :: int where "QUOTA_WINDOW_MS = 24 * 60 * 60 * 1000"
definition DEFAULT_DAILY_BYTE_QUOTA :: int where "DEFAULT_DAILY_BYTE_QUOTA = 512 * 1024 * 1024"
definition QUOTA_FLUSH_BYTES :: int where "QUOTA_FLUSH_BYTES = 4 * 1024 * 1024"
definition HOUSEKEEPING_INTERVAL_MS :: int where "HOUSEKEEPING_INTERVAL_MS = 15 * 1000"
definition EPHEMERAL_PREFIXES :: "string list" where
  "EPHEMERAL_PREFIXES = [''ticket:'', ''regtoken:'', ''attestchallenge:'']"
definition DEFAULT_ESTABLISHED_IDLE_TTL_MS :: int where
  "DEFAULT_ESTABLISHED_IDLE_TTL_MS = 30 * 24 * 60 * 60 * 1000"

section \<open>Values\<close>

text \<open>
  What a room stores: a string (verifier, registrant key), a number (counters, times), the quota
  object, or a record with an expiry and, when attested, the key id and public key.
\<close>

datatype sval =
    SStr string
  | SNum int
  | SQuota int int
  | SRec int "(string \<times> string) option"

fun truthy :: "sval option \<Rightarrow> bool" where
  "truthy None = False"
| "truthy (Some (SStr s)) = (s \<noteq> [])"
| "truthy (Some (SNum n)) = (n \<noteq> 0)"
| "truthy (Some _) = True"

text \<open>\<open>rec.expiresAt < now\<close>: a comparison with undefined is false.\<close>

fun expired :: "int \<Rightarrow> sval \<Rightarrow> bool" where
  "expired now (SRec e _) = (e < now)"
| "expired now _ = False"

fun attest_of :: "sval \<Rightarrow> (string \<times> string) option" where
  "attest_of (SRec _ a) = a"
| "attest_of _ = None"

text \<open>A WebSocket message as the host hands it over, and what a room sends.\<close>

datatype message = Text string | Binary bytes

fun msg_size :: "message \<Rightarrow> nat" where
  "msg_size (Text s) = length s"
| "msg_size (Binary bs) = length bs"

datatype frame =
    FNonce string
  | FReject string
  | FOk "string option"
  | FRelay message

text \<open>The admission state of a socket, and its attachment.\<close>

datatype phase = Hello | Challenged role string bool | Admitted role

record attachment =
  ph :: phase
  roomName :: "string option"
  tag :: "string option"
  connectedAt :: "int option"

type_synonym sid = nat

text \<open>
  What happens on the wires, in order: a send or a close on a socket, and the host's hook for
  closes the relay initiates.
\<close>

datatype out = OSend sid frame | OClose sid nat string | OHook nat string

text \<open>
  \<open>socks\<close> is the routable set in insertion order; attachments survive the removal of their
  socket. \<open>closeRecvd\<close> and \<open>srvClosed\<close> are the two flags of the host's close wrapper.
  \<open>alarmRow\<close> is the stored alarm and \<open>timer\<close> the host's armed one. \<open>draws\<close> counts the random
  draws made so far.
\<close>

record room =
  socks :: "sid list"
  atts :: "sid \<Rightarrow> attachment option"
  closeRecvd :: "sid set"
  srvClosed :: "sid set"
  db :: "sval kvs"
  alarmRow :: "int option"
  timer :: "int option"
  admissionWindow :: "int \<times> int"
  frameWindow :: "int \<times> int"
  quota :: "(int \<times> int) option"
  quotaFlushedBytes :: int
  draws :: nat
  outs :: "out list"

definition empty_room :: room where
  "empty_room = \<lparr>socks = [], atts = (\<lambda>_. None), closeRecvd = {}, srvClosed = {}, db = [],
     alarmRow = None, timer = None, admissionWindow = (0, 0), frameWindow = (0, 0), quota = None,
     quotaFlushedBytes = 0, draws = 0, outs = []\<rparr>"

text \<open>The configuration, and the platform: JSON, Ed25519, randomness and attestation.\<close>

record env =
  ATTEST_REQUIRED :: "string option"
  RELAY_ORIGIN :: string
  APP_ID :: string
  APPATTEST_ENV :: string
  APPATTEST_ROOT :: string
  RELAY_DAILY_BYTE_QUOTA :: "string option"
  RELAY_ESTABLISHED_IDLE_TTL_MS :: "int option"

record plat = attest_env +
  p_json :: "message \<Rightarrow> jsval option"
  p_ed_import :: "bytes \<Rightarrow> handle option"
  p_ed_verify :: "handle \<Rightarrow> bytes \<Rightarrow> bytes \<Rightarrow> bool"
  p_random :: "nat \<Rightarrow> nat \<Rightarrow> bytes"

definition attestationRequired :: "env \<Rightarrow> bool" where
  "attestationRequired E \<longleftrightarrow> ATTEST_REQUIRED E \<noteq> Some ''false''"

text \<open>\<open>parseInt(s, 10)\<close>: blanks, a sign, then the longest run of digits.\<close>

fun leading_digits :: "string \<Rightarrow> nat list" where
  "leading_digits [] = []"
| "leading_digits (c # cs) =
     (let n = of_char c :: nat in if 48 \<le> n \<and> n \<le> 57 then (n - 48) # leading_digits cs else [])"

definition js_parse_int :: "string \<Rightarrow> int option" where
  "js_parse_int s =
     (let t = dropWhile (\<lambda>c. of_char c \<in> {9 :: nat, 10, 11, 12, 13, 32, 160}) s;
          neg = (t \<noteq> [] \<and> hd t = CHR ''-'');
          u = (if t \<noteq> [] \<and> hd t \<in> {CHR ''-'', CHR ''+''} then tl t else t);
          ds = leading_digits u
      in if ds = [] then None
         else Some ((if neg then -1 else 1) * int (foldl (\<lambda>a d. a * 10 + d) 0 ds)))"

definition dailyQuota :: "env \<Rightarrow> int" where
  "dailyQuota E =
     (case RELAY_DAILY_BYTE_QUOTA E of None \<Rightarrow> DEFAULT_DAILY_BYTE_QUOTA
      | Some s \<Rightarrow> (case js_parse_int s of None \<Rightarrow> DEFAULT_DAILY_BYTE_QUOTA
                   | Some n \<Rightarrow> if n = 0 then DEFAULT_DAILY_BYTE_QUOTA else n))"

text \<open>\<open>RELAY_ESTABLISHED_IDLE_TTL_MS\<close> is the number the variable denotes, when it is a finite one.\<close>

definition establishedIdleTtlMs :: "env \<Rightarrow> int" where
  "establishedIdleTtlMs E =
     (case RELAY_ESTABLISHED_IDLE_TTL_MS E of
        Some v \<Rightarrow> if v > 0 then v else DEFAULT_ESTABLISHED_IDLE_TTL_MS
      | None \<Rightarrow> DEFAULT_ESTABLISHED_IDLE_TTL_MS)"

section \<open>Sockets\<close>

definition att_phase :: "room \<Rightarrow> sid \<Rightarrow> phase option" where
  "att_phase r s = map_option ph (atts r s)"

text \<open>\<open>a && a.state === "admitted" && a.role === role\<close>.\<close>

definition holds :: "room \<Rightarrow> role \<Rightarrow> sid \<Rightarrow> bool" where
  "holds r rl s \<longleftrightarrow> att_phase r s = Some (Admitted rl)"

definition is_admitted :: "room \<Rightarrow> sid \<Rightarrow> bool" where
  "is_admitted r s \<longleftrightarrow> holds r Mac s \<or> holds r Phone s"

definition put_att :: "sid \<Rightarrow> attachment \<Rightarrow> room \<Rightarrow> room" where
  "put_att s a r = r\<lparr>atts := (atts r)(s := Some a)\<rparr>"

definition emit :: "out \<Rightarrow> room \<Rightarrow> room" where
  "emit o1 r = r\<lparr>outs := outs r @ [o1]\<rparr>"

definition ws_send :: "sid \<Rightarrow> frame \<Rightarrow> room \<Rightarrow> room" where
  "ws_send s f r = emit (OSend s f) r"

text \<open>The host's wrapped \<open>ws.close\<close>: the socket leaves the routable set at once.\<close>

definition ws_close :: "sid \<Rightarrow> nat \<Rightarrow> string \<Rightarrow> room \<Rightarrow> room" where
  "ws_close s code reason r =
     (let r1 = (if s \<in> closeRecvd r then r
                else (emit (OHook code reason) r)\<lparr>srvClosed := insert s (srvClosed r)\<rparr>)
      in emit (OClose s code reason) (r1\<lparr>socks := removeAll s (socks r1)\<rparr>))"

definition closeSocket :: "sid \<Rightarrow> nat \<Rightarrow> string \<Rightarrow> room \<Rightarrow> room" where
  "closeSocket s code reason r = ws_close s code reason r"

definition reject :: "sid \<Rightarrow> string \<Rightarrow> room \<Rightarrow> room" where
  "reject s err r = closeSocket s 1008 err (ws_send s (FReject err) r)"

text \<open>A loop over a snapshot of the socket set, closing the ones that qualify.\<close>

definition close_all :: "sid list \<Rightarrow> nat \<Rightarrow> string \<Rightarrow> room \<Rightarrow> room" where
  "close_all ss code reason r = fold (\<lambda>s. closeSocket s code reason) ss r"

definition other_role :: "role \<Rightarrow> role" where
  "other_role rl = (case rl of Mac \<Rightarrow> Phone | Phone \<Rightarrow> Mac)"

definition closePeerOf :: "sid \<Rightarrow> room \<Rightarrow> room" where
  "closePeerOf ws r =
     (case att_phase r ws of
        Some (Admitted rl) \<Rightarrow>
          close_all (filter (\<lambda>p. p \<noteq> ws \<and> holds r (other_role rl) p) (socks r)) 1001 ''peer gone'' r
      | _ \<Rightarrow> r)"

section \<open>The store, the alarm, the windows\<close>

definition st_get :: "string \<Rightarrow> room \<Rightarrow> sval option" where
  "st_get k r = kv_get k (db r)"

definition st_put :: "string \<Rightarrow> sval \<Rightarrow> room \<Rightarrow> room" where
  "st_put k v r = r\<lparr>db := kv_put k v (db r)\<rparr>"

definition st_delete :: "string \<Rightarrow> room \<Rightarrow> bool \<times> room" where
  "st_delete k r = (case kv_delete k (db r) of (found, d) \<Rightarrow> (found, r\<lparr>db := d\<rparr>))"

definition setAlarm :: "int \<Rightarrow> room \<Rightarrow> room" where
  "setAlarm due r = r\<lparr>alarmRow := Some due, timer := Some due\<rparr>"

definition deleteAlarm :: "room \<Rightarrow> room" where
  "deleteAlarm r = r\<lparr>alarmRow := None, timer := None\<rparr>"

definition ensureAlarm :: "int \<Rightarrow> room \<Rightarrow> room" where
  "ensureAlarm now r =
     (let soon = now + HOUSEKEEPING_INTERVAL_MS
      in case alarmRow r of
           None \<Rightarrow> setAlarm soon r
         | Some existing \<Rightarrow> if existing > soon then setAlarm soon r else r)"

definition bumpActivity :: "int \<Rightarrow> room \<Rightarrow> room" where
  "bumpActivity now r = ensureAlarm now (st_put ''lastActivity'' (SNum now) r)"

definition teardownRoom :: "string \<Rightarrow> room \<Rightarrow> room" where
  "teardownRoom reason r = deleteAlarm ((close_all (socks r) 1000 reason r)\<lparr>db := []\<rparr>)"

text \<open>The fixed-window limiter on a window \<open>(start, count)\<close>.\<close>

definition rateLimited :: "int \<Rightarrow> int \<Rightarrow> int \<Rightarrow> int \<times> int \<Rightarrow> bool \<times> (int \<times> int)" where
  "rateLimited now mx windowMs w =
     (let (start, count) = (if now - fst w > windowMs then (now, 0) else w)
      in (count + 1 > mx, (start, count + 1)))"

definition draw :: "'a plat_scheme \<Rightarrow> nat \<Rightarrow> room \<Rightarrow> string \<times> room" where
  "draw P n r = (b64 (p_random P (draws r) n), r\<lparr>draws := draws r + 1\<rparr>)"

definition established :: "room \<Rightarrow> bool" where
  "established r \<longleftrightarrow> truthy (st_get ''verifier'' r)"

section \<open>What the primitives leave alone\<close>

lemma put_att_simps [simp]:
  "socks (put_att s a r) = socks r" "atts (put_att s a r) = (atts r)(s := Some a)"
  "closeRecvd (put_att s a r) = closeRecvd r" "srvClosed (put_att s a r) = srvClosed r"
  "db (put_att s a r) = db r" "alarmRow (put_att s a r) = alarmRow r" "timer (put_att s a r) = timer r"
  "admissionWindow (put_att s a r) = admissionWindow r" "frameWindow (put_att s a r) = frameWindow r"
  "quota (put_att s a r) = quota r" "quotaFlushedBytes (put_att s a r) = quotaFlushedBytes r"
  "draws (put_att s a r) = draws r" "outs (put_att s a r) = outs r"
  by (simp_all add: put_att_def)

lemma emit_simps [simp]:
  "socks (emit o1 r) = socks r" "atts (emit o1 r) = atts r" "closeRecvd (emit o1 r) = closeRecvd r"
  "srvClosed (emit o1 r) = srvClosed r" "db (emit o1 r) = db r" "alarmRow (emit o1 r) = alarmRow r"
  "timer (emit o1 r) = timer r" "admissionWindow (emit o1 r) = admissionWindow r"
  "frameWindow (emit o1 r) = frameWindow r" "quota (emit o1 r) = quota r"
  "quotaFlushedBytes (emit o1 r) = quotaFlushedBytes r" "draws (emit o1 r) = draws r"
  "outs (emit o1 r) = outs r @ [o1]"
  by (simp_all add: emit_def)

lemma ws_send_simps [simp]:
  "socks (ws_send s f r) = socks r" "atts (ws_send s f r) = atts r" "closeRecvd (ws_send s f r) = closeRecvd r"
  "srvClosed (ws_send s f r) = srvClosed r" "db (ws_send s f r) = db r" "alarmRow (ws_send s f r) = alarmRow r"
  "timer (ws_send s f r) = timer r" "admissionWindow (ws_send s f r) = admissionWindow r"
  "frameWindow (ws_send s f r) = frameWindow r" "quota (ws_send s f r) = quota r"
  "quotaFlushedBytes (ws_send s f r) = quotaFlushedBytes r" "draws (ws_send s f r) = draws r"
  "outs (ws_send s f r) = outs r @ [OSend s f]"
  by (simp_all add: ws_send_def)

lemma ws_close_simps [simp]:
  "socks (ws_close s c m r) = removeAll s (socks r)" "atts (ws_close s c m r) = atts r"
  "closeRecvd (ws_close s c m r) = closeRecvd r" "db (ws_close s c m r) = db r"
  "alarmRow (ws_close s c m r) = alarmRow r" "timer (ws_close s c m r) = timer r"
  "admissionWindow (ws_close s c m r) = admissionWindow r" "frameWindow (ws_close s c m r) = frameWindow r"
  "quota (ws_close s c m r) = quota r" "quotaFlushedBytes (ws_close s c m r) = quotaFlushedBytes r"
  "draws (ws_close s c m r) = draws r"
  "srvClosed (ws_close s c m r) = (if s \<in> closeRecvd r then srvClosed r else insert s (srvClosed r))"
  "outs (ws_close s c m r) = outs r @ (if s \<in> closeRecvd r then [] else [OHook c m]) @ [OClose s c m]"
  by (simp_all add: ws_close_def Let_def)

lemma closeSocket_simps [simp]:
  "socks (closeSocket s c m r) = removeAll s (socks r)" "atts (closeSocket s c m r) = atts r"
  "closeRecvd (closeSocket s c m r) = closeRecvd r" "db (closeSocket s c m r) = db r"
  "alarmRow (closeSocket s c m r) = alarmRow r" "timer (closeSocket s c m r) = timer r"
  "admissionWindow (closeSocket s c m r) = admissionWindow r" "frameWindow (closeSocket s c m r) = frameWindow r"
  "quota (closeSocket s c m r) = quota r" "quotaFlushedBytes (closeSocket s c m r) = quotaFlushedBytes r"
  "draws (closeSocket s c m r) = draws r"
  "srvClosed (closeSocket s c m r) = (if s \<in> closeRecvd r then srvClosed r else insert s (srvClosed r))"
  "outs (closeSocket s c m r) = outs r @ (if s \<in> closeRecvd r then [] else [OHook c m]) @ [OClose s c m]"
  by (simp_all add: closeSocket_def)

lemma reject_simps [simp]:
  "socks (reject s m r) = removeAll s (socks r)" "atts (reject s m r) = atts r"
  "closeRecvd (reject s m r) = closeRecvd r" "db (reject s m r) = db r"
  "alarmRow (reject s m r) = alarmRow r" "timer (reject s m r) = timer r"
  "admissionWindow (reject s m r) = admissionWindow r" "frameWindow (reject s m r) = frameWindow r"
  "quota (reject s m r) = quota r" "quotaFlushedBytes (reject s m r) = quotaFlushedBytes r"
  "draws (reject s m r) = draws r"
  "outs (reject s m r) = outs r @ OSend s (FReject m)
     # (if s \<in> closeRecvd r then [] else [OHook 1008 m]) @ [OClose s 1008 m]"
  by (simp_all add: reject_def)

text \<open>The trace of a loop that closes a list of sockets.\<close>

definition close_trace :: "sid set \<Rightarrow> sid list \<Rightarrow> nat \<Rightarrow> string \<Rightarrow> out list" where
  "close_trace recvd ss c m = concat (map (\<lambda>s. (if s \<in> recvd then [] else [OHook c m]) @ [OClose s c m]) ss)"

lemma close_all_Nil [simp]: "close_all [] c m r = r"
  by (simp add: close_all_def)

lemma close_all_Cons: "close_all (s # ss) c m r = close_all ss c m (closeSocket s c m r)"
  by (simp add: close_all_def)

lemma close_all_simps [simp]:
  "socks (close_all ss c m r) = filter (\<lambda>s. s \<notin> set ss) (socks r)" "atts (close_all ss c m r) = atts r"
  "closeRecvd (close_all ss c m r) = closeRecvd r" "db (close_all ss c m r) = db r"
  "alarmRow (close_all ss c m r) = alarmRow r" "timer (close_all ss c m r) = timer r"
  "admissionWindow (close_all ss c m r) = admissionWindow r" "frameWindow (close_all ss c m r) = frameWindow r"
  "quota (close_all ss c m r) = quota r" "quotaFlushedBytes (close_all ss c m r) = quotaFlushedBytes r"
  "draws (close_all ss c m r) = draws r"
  "srvClosed (close_all ss c m r) = srvClosed r \<union> (set ss - closeRecvd r)"
  "outs (close_all ss c m r) = outs r @ close_trace (closeRecvd r) ss c m"
  by (induction ss arbitrary: r)
    (auto simp: close_all_Cons close_trace_def removeAll_filter_not_eq conj_commute intro!: filter_cong)

lemma st_simps [simp]:
  "socks (st_put k v r) = socks r" "atts (st_put k v r) = atts r" "closeRecvd (st_put k v r) = closeRecvd r"
  "srvClosed (st_put k v r) = srvClosed r" "alarmRow (st_put k v r) = alarmRow r" "timer (st_put k v r) = timer r"
  "admissionWindow (st_put k v r) = admissionWindow r" "frameWindow (st_put k v r) = frameWindow r"
  "quota (st_put k v r) = quota r" "quotaFlushedBytes (st_put k v r) = quotaFlushedBytes r"
  "draws (st_put k v r) = draws r" "outs (st_put k v r) = outs r" "db (st_put k v r) = kv_put k v (db r)"
  by (simp_all add: st_put_def)

lemma st_delete_simps [simp]:
  "socks (snd (st_delete k r)) = socks r" "atts (snd (st_delete k r)) = atts r"
  "closeRecvd (snd (st_delete k r)) = closeRecvd r" "srvClosed (snd (st_delete k r)) = srvClosed r"
  "alarmRow (snd (st_delete k r)) = alarmRow r" "timer (snd (st_delete k r)) = timer r"
  "admissionWindow (snd (st_delete k r)) = admissionWindow r" "frameWindow (snd (st_delete k r)) = frameWindow r"
  "quota (snd (st_delete k r)) = quota r" "quotaFlushedBytes (snd (st_delete k r)) = quotaFlushedBytes r"
  "draws (snd (st_delete k r)) = draws r" "outs (snd (st_delete k r)) = outs r"
  "db (snd (st_delete k r)) = snd (kv_delete k (db r))" "fst (st_delete k r) \<longleftrightarrow> st_get k r \<noteq> None"
  using kv.del_found [of k "db r"] by (auto simp: st_delete_def st_get_def split: prod.split)

lemma alarm_simps [simp]:
  "socks (setAlarm t r) = socks r" "atts (setAlarm t r) = atts r" "closeRecvd (setAlarm t r) = closeRecvd r"
  "srvClosed (setAlarm t r) = srvClosed r" "db (setAlarm t r) = db r"
  "alarmRow (setAlarm t r) = Some t" "timer (setAlarm t r) = Some t"
  "admissionWindow (setAlarm t r) = admissionWindow r" "frameWindow (setAlarm t r) = frameWindow r"
  "quota (setAlarm t r) = quota r" "quotaFlushedBytes (setAlarm t r) = quotaFlushedBytes r"
  "draws (setAlarm t r) = draws r" "outs (setAlarm t r) = outs r"
  by (simp_all add: setAlarm_def)

lemma ensureAlarm_simps [simp]:
  "socks (ensureAlarm t r) = socks r" "atts (ensureAlarm t r) = atts r" "closeRecvd (ensureAlarm t r) = closeRecvd r"
  "srvClosed (ensureAlarm t r) = srvClosed r" "db (ensureAlarm t r) = db r"
  "admissionWindow (ensureAlarm t r) = admissionWindow r" "frameWindow (ensureAlarm t r) = frameWindow r"
  "quota (ensureAlarm t r) = quota r" "quotaFlushedBytes (ensureAlarm t r) = quotaFlushedBytes r"
  "draws (ensureAlarm t r) = draws r" "outs (ensureAlarm t r) = outs r"
  by (simp_all add: ensureAlarm_def Let_def split: option.split)

lemma bumpActivity_simps [simp]:
  "socks (bumpActivity t r) = socks r" "atts (bumpActivity t r) = atts r"
  "closeRecvd (bumpActivity t r) = closeRecvd r" "srvClosed (bumpActivity t r) = srvClosed r"
  "db (bumpActivity t r) = kv_put ''lastActivity'' (SNum t) (db r)"
  "admissionWindow (bumpActivity t r) = admissionWindow r" "frameWindow (bumpActivity t r) = frameWindow r"
  "quota (bumpActivity t r) = quota r" "quotaFlushedBytes (bumpActivity t r) = quotaFlushedBytes r"
  "draws (bumpActivity t r) = draws r" "outs (bumpActivity t r) = outs r"
  by (simp_all add: bumpActivity_def)

lemma teardownRoom_simps [simp]:
  "socks (teardownRoom m r) = []" "atts (teardownRoom m r) = atts r" "db (teardownRoom m r) = []"
  "closeRecvd (teardownRoom m r) = closeRecvd r" "alarmRow (teardownRoom m r) = None"
  "timer (teardownRoom m r) = None" "srvClosed (teardownRoom m r) = srvClosed r \<union> (set (socks r) - closeRecvd r)"
  "admissionWindow (teardownRoom m r) = admissionWindow r" "frameWindow (teardownRoom m r) = frameWindow r"
  "quota (teardownRoom m r) = quota r" "quotaFlushedBytes (teardownRoom m r) = quotaFlushedBytes r"
  "draws (teardownRoom m r) = draws r"
  "outs (teardownRoom m r) = outs r @ close_trace (closeRecvd r) (socks r) 1000 m"
  by (simp_all add: teardownRoom_def deleteAlarm_def)

lemma draw_simps [simp]:
  "socks (snd (draw P n r)) = socks r" "atts (snd (draw P n r)) = atts r"
  "closeRecvd (snd (draw P n r)) = closeRecvd r" "srvClosed (snd (draw P n r)) = srvClosed r"
  "db (snd (draw P n r)) = db r" "alarmRow (snd (draw P n r)) = alarmRow r" "timer (snd (draw P n r)) = timer r"
  "admissionWindow (snd (draw P n r)) = admissionWindow r" "frameWindow (snd (draw P n r)) = frameWindow r"
  "quota (snd (draw P n r)) = quota r" "quotaFlushedBytes (snd (draw P n r)) = quotaFlushedBytes r"
  "draws (snd (draw P n r)) = draws r + 1" "outs (snd (draw P n r)) = outs r"
  "fst (draw P n r) = b64 (p_random P (draws r) n)"
  by (simp_all add: draw_def)

lemma closePeerOf_simps [simp]:
  "atts (closePeerOf s r) = atts r" "closeRecvd (closePeerOf s r) = closeRecvd r" "db (closePeerOf s r) = db r"
  "alarmRow (closePeerOf s r) = alarmRow r" "timer (closePeerOf s r) = timer r"
  "admissionWindow (closePeerOf s r) = admissionWindow r" "frameWindow (closePeerOf s r) = frameWindow r"
  "quota (closePeerOf s r) = quota r" "quotaFlushedBytes (closePeerOf s r) = quotaFlushedBytes r"
  "draws (closePeerOf s r) = draws r"
  by (simp_all add: closePeerOf_def split: option.split phase.split)

text \<open>Phases depend on the attachments only.\<close>

lemma att_phase_cong: "atts r' = atts r \<Longrightarrow> att_phase r' s = att_phase r s"
  by (simp add: att_phase_def)

lemma holds_cong: "atts r' = atts r \<Longrightarrow> holds r' rl s = holds r rl s"
  by (simp add: holds_def att_phase_def)

lemma holds_put_att [simp]:
  "holds (put_att t a r) rl s \<longleftrightarrow> (if s = t then ph a = Admitted rl else holds r rl s)"
  by (auto simp: holds_def att_phase_def)

lemma holds_unique: "holds r rl s \<Longrightarrow> holds r rl' s \<Longrightarrow> rl = rl'"
  by (auto simp: holds_def)

lemma other_role_simps [simp]: "other_role Mac = Phone" "other_role Phone = Mac" "other_role rl \<noteq> rl"
  by (simp_all add: other_role_def split: role.split)

end
