(* ===== verification/Meter.thy ===== *)
theory Meter
  imports Prelude
begin

text \<open>
  The contract that the relay's budgets share: a meter that counts what it lets through inside a
  window and starts a new window once the old one has passed. The locale proves, once, what such
  a meter guarantees: the budget holds inside one window, and twice the budget over any stretch
  of time as long as the window.
\<close>

locale window_meter =
  fixes admits :: "'e \<Rightarrow> 's \<Rightarrow> bool \<times> 's"
    and start :: "'s \<Rightarrow> int"
    and level :: "'s \<Rightarrow> int"
    and when_at :: "'e \<Rightarrow> int"
    and cost :: "'e \<Rightarrow> int"
    and cap :: int
    and span :: int
  assumes within: "when_at e < start s + span \<Longrightarrow> admits e s = (ok, s') \<Longrightarrow>
      start s' = start s \<and> level s \<le> level s' \<and> (ok \<longrightarrow> level s' = level s + cost e \<and> level s' \<le> cap)"
    and rolls: "start s + span \<le> when_at e \<Longrightarrow> admits e s = (ok, s') \<Longrightarrow>
      start s' = when_at e \<and> 0 \<le> level s' \<and> (ok \<longrightarrow> level s' = cost e \<and> level s' \<le> cap)"
    and cap_nonneg: "0 \<le> cap"
begin

text \<open>The total that gets through when the events are offered in order.\<close>

fun passed :: "'e list \<Rightarrow> 's \<Rightarrow> int" where
  "passed [] s = 0"
| "passed (e # es) s = (case admits e s of (ok, s') \<Rightarrow> (if ok then cost e else 0) + passed es s')"

lemma passed_within:
  assumes "\<forall>e \<in> set es. when_at e < start s + span"
  shows "passed es s = 0 \<or> passed es s + level s \<le> cap"
  using assms
proof (induction es arbitrary: s)
  case (Cons e es)
  obtain ok s' where a: "admits e s = (ok, s')" by (cases "admits e s")
  with Cons.prems within have w: "start s' = start s" "level s \<le> level s'"
    "ok \<longrightarrow> level s' = level s + cost e \<and> level s' \<le> cap" by auto
  with Cons.IH [of s'] Cons.prems have "passed es s' = 0 \<or> passed es s' + level s' \<le> cap" by simp
  with w a show ?case by auto
qed simp

lemma passed_roll:
  assumes "start s + span \<le> when_at e" "\<forall>f \<in> set es. when_at f < when_at e + span"
  shows "passed (e # es) s \<le> cap"
proof -
  obtain ok s' where a: "admits e s = (ok, s')" by (cases "admits e s")
  from rolls [OF assms(1) a] have r: "start s' = when_at e" "0 \<le> level s'"
    "ok \<longrightarrow> level s' = cost e \<and> level s' \<le> cap" by auto
  with passed_within [of es s'] assms(2) a cap_nonneg show ?thesis by auto
qed

text \<open>Over any stretch shorter than the span: the rest of one window and a fresh one.\<close>

lemma passed_stretch_level:
  assumes "0 \<le> level s" "\<forall>e \<in> set es. t \<le> when_at e \<and> when_at e < t + span"
  shows "passed es s \<le> cap \<or> passed es s + level s \<le> 2 * cap"
  using assms
proof (induction es arbitrary: s)
  case (Cons e es)
  obtain ok s' where a: "admits e s = (ok, s')" by (cases "admits e s")
  show ?case
  proof (cases "when_at e < start s + span")
    case True
    from within [OF this a] have w: "level s \<le> level s'" "ok \<longrightarrow> level s' = level s + cost e \<and> level s' \<le> cap"
      by auto
    with Cons.IH [of s'] Cons.prems have "passed es s' \<le> cap \<or> passed es s' + level s' \<le> 2 * cap" by simp
    with w a show ?thesis by auto
  next
    case False
    have "when_at f < when_at e + span" if "f \<in> set es" for f
      using Cons.prems(2) that by force
    with False passed_roll [of s e es] show ?thesis by auto
  qed
qed (use cap_nonneg in simp)

lemma passed_stretch:
  assumes "0 \<le> level s" "\<forall>e \<in> set es. t \<le> when_at e \<and> when_at e < t + span"
  shows "passed es s \<le> 2 * cap"
  using passed_stretch_level [OF assms] assms(1) cap_nonneg by linarith

end

end
