(* ===== verification/RoomAdmit.thy ===== *)
theory RoomAdmit
  imports RoomState Meter
begin

text \<open>
  The WebSocket handlers of a room: the hello, the proof, admission, the splice and its limits.
  A handler runs to its end or to a call of WebCrypto, where other events may come between: the
  proof handler is split there into a part that returns what it waits for and a continuation.
  Storage calls answer within the same macrotask and are no such point.
\<close>

section \<open>Admission\<close>

definition live_peer :: "room \<Rightarrow> sid \<Rightarrow> role \<Rightarrow> bool" where
  "live_peer r ws rl \<longleftrightarrow> list_ex (\<lambda>s. s \<noteq> ws \<and> holds r rl s) (socks r)"

text \<open>\<open>att.nonDisplacing\<close>, which only a challenged socket carries.\<close>

definition nonDisplacing :: "room \<Rightarrow> sid \<Rightarrow> bool" where
  "nonDisplacing r ws = (case att_phase r ws of Some (Challenged _ _ nd) \<Rightarrow> nd | _ \<Rightarrow> False)"

definition num_or_zero :: "sval option \<Rightarrow> int" where
  "num_or_zero v = (case v of Some (SNum n) \<Rightarrow> n | _ \<Rightarrow> 0)"

text \<open>
  The pairing budget: \<open>Inl\<close> is a room that the guard has already disposed of. A fresh mac park
  resets the count; a phone needs a parked mac and, before the room is established, spends one
  cycle.
\<close>

definition admit_guard :: "sid \<Rightarrow> role \<Rightarrow> room \<Rightarrow> room + room" where
  "admit_guard ws rl r =
     (let est = established r;
          r1 = (if \<not> est \<and> rl = Mac then st_put ''pairingCycles'' (SNum 0) r else r)
      in if rl = Phone
         then if \<not> live_peer r1 ws Mac then Inl (reject ws ''mac offline'' r1)
              else if \<not> est
              then let cycles = num_or_zero (st_get ''pairingCycles'' r1) + 1
                   in if cycles > MAX_PAIRING_CYCLES then Inl (teardownRoom ''pairing cycle cap'' r1)
                      else Inr (st_put ''pairingCycles'' (SNum cycles) r1)
              else Inr r1
         else Inr r1)"

text \<open>Newest wins: the current holders of the role are closed, then the socket takes it.\<close>

definition displace :: "sid \<Rightarrow> role \<Rightarrow> room \<Rightarrow> room" where
  "displace ws rl r = close_all (filter (\<lambda>t. t \<noteq> ws \<and> holds r rl t) (socks r)) 1000 ''displaced'' r"

definition take_slot :: "sid \<Rightarrow> role \<Rightarrow> attachment option \<Rightarrow> room \<Rightarrow> room" where
  "take_slot ws rl prev r =
     put_att ws \<lparr>ph = Admitted rl, roomName = Option.bind prev roomName, tag = Option.bind prev tag,
       connectedAt = Option.bind prev connectedAt\<rparr> (displace ws rl r)"

text \<open>The reply, which for a phone carries a fresh registration token.\<close>

definition grant :: "'a plat_scheme \<Rightarrow> int \<Rightarrow> sid \<Rightarrow> role \<Rightarrow> (string \<times> string) option \<Rightarrow> room \<Rightarrow> room" where
  "grant P now ws rl attest r =
     (if rl = Phone
      then (case draw P 24 r of (token, r1) \<Rightarrow>
        ws_send ws (FOk (Some token))
          (ensureAlarm now (st_put (''regtoken:'' @ token) (SRec (now + REG_TOKEN_TTL_MS) attest) r1)))
      else ws_send ws (FOk None) r)"

definition admit :: "'a plat_scheme \<Rightarrow> int \<Rightarrow> sid \<Rightarrow> role \<Rightarrow> (string \<times> string) option \<Rightarrow> room \<Rightarrow> room" where
  "admit P now ws rl attest r =
     (let prev = atts r ws
      in case admit_guard ws rl r of
           Inl r1 \<Rightarrow> r1
         | Inr r1 \<Rightarrow>
             if nonDisplacing r ws \<and> live_peer r1 ws rl then reject ws ''slot occupied'' r1
             else grant P now ws rl attest (take_slot ws rl prev r1))"

section \<open>Hello\<close>

text \<open>An exception in a message handler reaches the dispatcher, which closes the socket.\<close>

definition internal_error :: "sid \<Rightarrow> room \<Rightarrow> room" where
  "internal_error ws r = ws_close ws 1011 ''internal error'' r"

definition role_of :: "jsval option \<Rightarrow> role option" where
  "role_of v = (case v of Some (JStr s) \<Rightarrow>
     if s = ''mac'' then Some Mac else if s = ''phone'' then Some Phone else None | _ \<Rightarrow> None)"

definition jprop :: "jsval \<Rightarrow> string \<Rightarrow> jsval option" where
  "jprop v name = (case jget v name of Inl _ \<Rightarrow> None | Inr x \<Rightarrow> x)"

definition handleHello :: "'a plat_scheme \<Rightarrow> sid \<Rightarrow> attachment \<Rightarrow> message \<Rightarrow> room \<Rightarrow> room" where
  "handleHello P ws att msg r =
     (case p_json P msg of
        None \<Rightarrow> closeSocket ws 1008 ''bad hello'' r
      | Some JNull \<Rightarrow> internal_error ws r
      | Some hello \<Rightarrow>
        (case (jprop hello ''v'' = Some (JNum (of_nat PROTOCOL_VERSION)), role_of (jprop hello ''role'')) of
           (True, Some rl) \<Rightarrow>
             (case draw P NONCE_BYTES r of (nonce, r1) \<Rightarrow>
                ws_send ws (FNonce nonce)
                  (put_att ws \<lparr>ph = Challenged rl nonce (jprop hello ''nonDisplacing'' = Some (JBool True)),
                     roomName = roomName att, tag = tag att, connectedAt = connectedAt att\<rparr> r1))
         | _ \<Rightarrow> closeSocket ws 1008 ''bad hello'' r))"

section \<open>Proof\<close>

definition verifyJoin :: "'a plat_scheme \<Rightarrow> string \<Rightarrow> bytes \<Rightarrow> string \<Rightarrow> bool" where
  "verifyJoin P sigB64 transcript verifierB64 =
     (case b64ToBytes verifierB64 of None \<Rightarrow> False
      | Some vb \<Rightarrow> (case p_ed_import P vb of None \<Rightarrow> False
        | Some key \<Rightarrow> (case b64ToBytes sigB64 of None \<Rightarrow> False
          | Some sg \<Rightarrow> p_ed_verify P key sg transcript)))"

text \<open>What a suspended proof handler holds: role, signature, transcript and verifier.\<close>

datatype await = AwaitJoin role string bytes string

definition opt_str :: "string option \<Rightarrow> string" where
  "opt_str x = (case x of None \<Rightarrow> [] | Some s \<Rightarrow> s)"

fun verifier_string :: "sval option \<Rightarrow> string" where
  "verifier_string (Some (SStr s)) = s"
| "verifier_string _ = []"

text \<open>The ticket path: read, expiry check and delete without an await between them.\<close>

definition redeem_ticket :: "int \<Rightarrow> string \<Rightarrow> room \<Rightarrow> (string \<times> string) option option \<times> room" where
  "redeem_ticket now ticket r =
     (case st_get (''ticket:'' @ ticket) r of
        None \<Rightarrow> (None, r)
      | Some rec \<Rightarrow>
          if expired now rec then (None, r)
          else (case st_delete (''ticket:'' @ ticket) r of
                  (consumed, r1) \<Rightarrow> (if consumed then Some (attest_of rec) else None, r1)))"

definition proof_signed :: "env \<Rightarrow> sid \<Rightarrow> attachment \<Rightarrow> role \<Rightarrow> string \<Rightarrow> jsval \<Rightarrow> room \<Rightarrow> room \<times> await option" where
  "proof_signed E ws att rl nonce prf r =
     (if prf = JNull then (internal_error ws r, None)
      else case as_string (jprop prf ''sig'') of
        None \<Rightarrow> (reject ws ''signature required'' r, None)
      | Some sg \<Rightarrow>
        (case joinTranscript rl nonce (opt_str (roomName att)) (RELAY_ORIGIN E) of
           None \<Rightarrow> (internal_error ws r, None)
         | Some tr \<Rightarrow> (r, Some (AwaitJoin rl sg tr (verifier_string (st_get ''verifier'' r))))))"

definition proof_pairing :: "'a plat_scheme \<Rightarrow> env \<Rightarrow> int \<Rightarrow> sid \<Rightarrow> role \<Rightarrow> jsval \<Rightarrow> room \<Rightarrow> room" where
  "proof_pairing P E now ws rl prf r =
     (if attestationRequired E
      then if rl = Mac then admit P now ws rl None r
           else if prf = JNull then internal_error ws r
           else case as_string (jprop prf ''ticket'') of
             None \<Rightarrow> reject ws ''ticket required'' r
           | Some ticket \<Rightarrow>
             (case redeem_ticket now ticket r of
                (None, r1) \<Rightarrow> reject ws ''bad ticket'' r1
              | (Some attest, r1) \<Rightarrow> admit P now ws rl attest r1)
      else admit P now ws rl None r)"

definition handleProof ::
  "'a plat_scheme \<Rightarrow> env \<Rightarrow> int \<Rightarrow> sid \<Rightarrow> attachment \<Rightarrow> role \<Rightarrow> string \<Rightarrow> message \<Rightarrow> room \<Rightarrow> room \<times> await option" where
  "handleProof P E now ws att rl nonce msg r0 =
     (case rateLimited now MAX_ADMISSION_ATTEMPTS ADMISSION_WINDOW_MS (admissionWindow r0) of
        (limited, w) \<Rightarrow>
          (let r = r0\<lparr>admissionWindow := w\<rparr>
           in if limited then (reject ws ''rate limited'' r, None)
              else case p_json P msg of
                None \<Rightarrow> (reject ws ''bad proof'' r, None)
              | Some prf \<Rightarrow>
                  if established r then proof_signed E ws att rl nonce prf r
                  else (proof_pairing P E now ws rl prf r, None)))"

definition resumeProof :: "'a plat_scheme \<Rightarrow> int \<Rightarrow> sid \<Rightarrow> await \<Rightarrow> room \<Rightarrow> room" where
  "resumeProof P now ws aw r =
     (case aw of AwaitJoin rl sg tr verifier \<Rightarrow>
        if \<not> verifyJoin P sg tr verifier then reject ws ''bad signature'' r
        else admit P now ws rl None (bumpActivity now r))"

section \<open>The splice\<close>

definition quota_load :: "int \<Rightarrow> room \<Rightarrow> room" where
  "quota_load now r =
     (case quota r of
        Some _ \<Rightarrow> r
      | None \<Rightarrow>
          (let q = (case st_get ''quota'' r of Some (SQuota d b) \<Rightarrow> (d, b) | _ \<Rightarrow> (now, 0))
           in r\<lparr>quota := Some q, quotaFlushedBytes := snd q\<rparr>))"

definition quota_roll :: "int \<Rightarrow> room \<Rightarrow> room" where
  "quota_roll now r =
     (case quota r of
        None \<Rightarrow> r
      | Some (day, b) \<Rightarrow>
          if now - day \<ge> QUOTA_WINDOW_MS
          then st_put ''quota'' (SQuota now 0) (r\<lparr>quota := Some (now, 0), quotaFlushedBytes := 0\<rparr>)
          else r)"

definition overQuota :: "env \<Rightarrow> int \<Rightarrow> nat \<Rightarrow> room \<Rightarrow> bool \<times> room" where
  "overQuota E now sz r0 =
     (let r = quota_roll now (quota_load now r0)
      in case quota r of
           None \<Rightarrow> (False, r)
         | Some (day, b0) \<Rightarrow>
             (let b = b0 + int sz; r1 = r\<lparr>quota := Some (day, b)\<rparr>
              in if b > dailyQuota E
                 then (True, close_all (socks r1) 1008 ''daily quota exceeded''
                         (st_put ''quota'' (SQuota day b) r1))
                 else if b - quotaFlushedBytes r1 \<ge> QUOTA_FLUSH_BYTES
                 then (False, st_put ''quota'' (SQuota day b) (r1\<lparr>quotaFlushedBytes := b\<rparr>))
                 else (False, r1)))"

definition forward :: "sid \<Rightarrow> role \<Rightarrow> message \<Rightarrow> room \<Rightarrow> room" where
  "forward ws rl msg r =
     (case List.find (\<lambda>p. p \<noteq> ws \<and> holds r (other_role rl) p) (socks r) of
        None \<Rightarrow> r
      | Some peer \<Rightarrow> ws_send peer (FRelay msg) r)"

definition handleFrame :: "env \<Rightarrow> int \<Rightarrow> sid \<Rightarrow> role \<Rightarrow> message \<Rightarrow> room \<Rightarrow> room" where
  "handleFrame E now ws rl msg r0 =
     (case rateLimited now MAX_FRAMES_PER_WINDOW FRAME_WINDOW_MS (frameWindow r0) of
        (limited, w) \<Rightarrow>
          (let r = r0\<lparr>frameWindow := w\<rparr>
           in if limited then closeSocket ws 1008 ''frame rate exceeded'' (closePeerOf ws r)
              else case overQuota E now (msg_size msg) r of
                (True, r1) \<Rightarrow> r1
              | (False, r1) \<Rightarrow> forward ws rl msg r1))"

section \<open>Dispatch on a message\<close>

definition no_att :: attachment where
  "no_att = \<lparr>ph = Hello, roomName = None, tag = None, connectedAt = None\<rparr>"

definition webSocketMessage :: "'a plat_scheme \<Rightarrow> env \<Rightarrow> int \<Rightarrow> sid \<Rightarrow> message \<Rightarrow> room \<Rightarrow> room \<times> await option" where
  "webSocketMessage P E now ws msg r =
     (let att = (case atts r ws of None \<Rightarrow> no_att | Some a \<Rightarrow> a);
          cap = (case ph att of Admitted _ \<Rightarrow> MAX_FRAME_BYTES | _ \<Rightarrow> MAX_CONTROL_BYTES)
      in if msg_size msg > cap
         then (closeSocket ws 1009 ''frame too large'' (closePeerOf ws r), None)
         else case ph att of
           Hello \<Rightarrow> (handleHello P ws att msg r, None)
         | Challenged rl nonce _ \<Rightarrow> handleProof P E now ws att rl nonce msg r
         | Admitted rl \<Rightarrow> (handleFrame E now ws rl msg r, None))"

definition webSocketClose :: "sid \<Rightarrow> room \<Rightarrow> room" where
  "webSocketClose ws r = closePeerOf ws r"

definition webSocketError :: "sid \<Rightarrow> room \<Rightarrow> room" where
  "webSocketError ws r = closePeerOf ws r"

section \<open>The limits\<close>

text \<open>The window limiter is a meter with unit cost: the count includes what it refuses.\<close>

definition limiter :: "int \<Rightarrow> int \<Rightarrow> int \<Rightarrow> int \<times> int \<Rightarrow> bool \<times> (int \<times> int)" where
  "limiter mx windowMs now w = (case rateLimited now mx windowMs w of (limited, w') \<Rightarrow> (\<not> limited, w'))"

lemma limiter_meter:
  assumes "0 \<le> mx"
  shows "window_meter (limiter mx windowMs) fst snd (\<lambda>now. now) (\<lambda>_. 1) mx (windowMs + 1)"
  by unfold_locales (auto simp: limiter_def rateLimited_def Let_def assms split: if_splits prod.splits)

interpretation proofs: window_meter "limiter MAX_ADMISSION_ATTEMPTS ADMISSION_WINDOW_MS" fst snd
  "\<lambda>now. now" "\<lambda>_. 1" MAX_ADMISSION_ATTEMPTS "ADMISSION_WINDOW_MS + 1"
  by (rule limiter_meter) (simp add: MAX_ADMISSION_ATTEMPTS_def)

interpretation frames: window_meter "limiter MAX_FRAMES_PER_WINDOW FRAME_WINDOW_MS" fst snd
  "\<lambda>now. now" "\<lambda>_. 1" MAX_FRAMES_PER_WINDOW "FRAME_WINDOW_MS + 1"
  by (rule limiter_meter) (simp add: MAX_FRAMES_PER_WINDOW_def)

text \<open>How many of a series of calls at the given times the limiter lets through.\<close>

fun let_through :: "int \<Rightarrow> int \<Rightarrow> int list \<Rightarrow> int \<times> int \<Rightarrow> nat" where
  "let_through mx windowMs [] w = 0"
| "let_through mx windowMs (now # ts) w =
     (case rateLimited now mx windowMs w of
        (limited, w') \<Rightarrow> (if limited then 0 else 1) + let_through mx windowMs ts w')"

lemma let_through_passed:
  assumes "0 \<le> mx"
  shows "int (let_through mx windowMs ts w) = window_meter.passed (limiter mx windowMs) (\<lambda>_. 1) ts w"
  by (induction ts arbitrary: w)
    (auto simp: window_meter.passed.simps [OF limiter_meter [OF assms]] limiter_def split: prod.splits)

text \<open>
  Flood limits: whatever the room has seen before, over any stretch of time no longer than
  its window the proof limiter lets at most 80 proof attempts through to signature verification
  and the frame limiter at most 1000 frames to the splice: twice the nominal budget, because the
  windows are fixed and two may meet inside the stretch.
\<close>

theorem flood_limits:
  assumes "0 \<le> snd w"
    and "\<forall>x \<in> set ts. t \<le> x \<and> x \<le> t + ADMISSION_WINDOW_MS"
    and "\<forall>x \<in> set us. u \<le> x \<and> x \<le> u + FRAME_WINDOW_MS"
  shows "let_through MAX_ADMISSION_ATTEMPTS ADMISSION_WINDOW_MS ts w \<le> 80
    \<and> let_through MAX_FRAMES_PER_WINDOW FRAME_WINDOW_MS us w \<le> 1000"
proof -
  have "int (let_through MAX_ADMISSION_ATTEMPTS ADMISSION_WINDOW_MS ts w) \<le> 2 * MAX_ADMISSION_ATTEMPTS"
  proof -
    have "\<forall>x \<in> set ts. t \<le> x \<and> x < t + (ADMISSION_WINDOW_MS + 1)" using assms(2) by auto
    from proofs.passed_stretch [OF assms(1) this] show ?thesis
      by (simp add: let_through_passed MAX_ADMISSION_ATTEMPTS_def)
  qed
  moreover have "int (let_through MAX_FRAMES_PER_WINDOW FRAME_WINDOW_MS us w) \<le> 2 * MAX_FRAMES_PER_WINDOW"
  proof -
    have "\<forall>x \<in> set us. u \<le> x \<and> x < u + (FRAME_WINDOW_MS + 1)" using assms(3) by auto
    from frames.passed_stretch [OF assms(1) this] show ?thesis
      by (simp add: let_through_passed MAX_FRAMES_PER_WINDOW_def)
  qed
  ultimately show ?thesis
    by (simp add: MAX_ADMISSION_ATTEMPTS_def MAX_FRAMES_PER_WINDOW_def)
qed

theorem flood_limits_witness:
  "let_through MAX_ADMISSION_ATTEMPTS ADMISSION_WINDOW_MS [5, 6, 7] (0, 39) \<le> 80
    \<and> let_through MAX_FRAMES_PER_WINDOW FRAME_WINDOW_MS [5, 900] (0, 39) \<le> 1000"
  by (rule flood_limits [where t = 5 and u = 5]) (simp_all add: ADMISSION_WINDOW_MS_def FRAME_WINDOW_MS_def)

section \<open>The daily quota\<close>

text \<open>The quota as a meter over frames \<open>(time, bytes)\<close>: what \<open>overQuota\<close> does to the counter.\<close>

definition quota_meter :: "int \<Rightarrow> int \<times> nat \<Rightarrow> int \<times> int \<Rightarrow> bool \<times> (int \<times> int)" where
  "quota_meter limit f q =
     (case f of (now, sz) \<Rightarrow>
       (let (day, b) = (if now - fst q \<ge> QUOTA_WINDOW_MS then (now, 0) else q)
        in (b + int sz \<le> limit, (day, b + int sz))))"

lemma quota_window_meter:
  "0 \<le> limit \<Longrightarrow> window_meter (quota_meter limit) fst snd fst (\<lambda>f. int (snd f)) limit QUOTA_WINDOW_MS"
  by unfold_locales (auto simp: quota_meter_def Let_def split: if_splits prod.splits)

definition quota_now :: "int \<Rightarrow> room \<Rightarrow> int \<times> int" where
  "quota_now now r = the (quota (quota_load now r))"

lemma quota_load_Some: "\<exists>q. quota (quota_load now r) = Some q"
  by (auto simp: quota_load_def Let_def split: option.split)

lemma quota_roll_quota:
  "quota r = Some q \<Longrightarrow>
     quota (quota_roll now r) = Some (if now - fst q \<ge> QUOTA_WINDOW_MS then (now, 0) else q)"
  by (auto simp: quota_roll_def split: prod.split)

lemma quota_load_roll_simps [simp]:
  "socks (quota_load now r) = socks r" "atts (quota_load now r) = atts r" "outs (quota_load now r) = outs r"
  "closeRecvd (quota_load now r) = closeRecvd r" "db (quota_load now r) = db r"
  "alarmRow (quota_load now r) = alarmRow r" "timer (quota_load now r) = timer r"
  "socks (quota_roll now r) = socks r" "atts (quota_roll now r) = atts r" "outs (quota_roll now r) = outs r"
  "closeRecvd (quota_roll now r) = closeRecvd r"
  "alarmRow (quota_roll now r) = alarmRow r" "timer (quota_roll now r) = timer r"
  by (auto simp: quota_load_def quota_roll_def Let_def split: option.split)

text \<open>The handler's quota is the meter, and going over it tears the splice down.\<close>

lemma overQuota_meter:
  assumes "overQuota E now sz r = (over, r')"
  shows "quota_meter (dailyQuota E) (now, sz) (quota_now now r) = (\<not> over, the (quota r')) \<and> quota r' \<noteq> None"
proof -
  obtain q where q: "quota (quota_load now r) = Some q" using quota_load_Some by blast
  with assms quota_roll_quota [OF q, of now] show ?thesis
    by (auto simp: overQuota_def quota_meter_def quota_now_def Let_def split: if_splits prod.splits)
qed

lemma overQuota_socks:
  assumes "overQuota E now sz r = (over, r')"
  shows "socks r' = (if over then [] else socks r)" "atts r' = atts r"
  using assms quota_load_Some [of now r]
  by (auto simp: overQuota_def Let_def split: if_splits prod.splits option.splits)

text \<open>The bytes that get past the quota when frames \<open>(time, bytes)\<close> arrive in order.\<close>

fun relayed :: "env \<Rightarrow> (int \<times> nat) list \<Rightarrow> room \<Rightarrow> nat" where
  "relayed E [] r = 0"
| "relayed E (f # fs) r =
     (case overQuota E (fst f) (snd f) r of (over, r') \<Rightarrow> (if over then 0 else snd f) + relayed E fs r')"

abbreviation "quota_passed limit \<equiv> window_meter.passed (quota_meter limit) (\<lambda>f. int (snd f))"

lemma relayed_passed:
  assumes lim: "0 \<le> dailyQuota E"
  shows "fs \<noteq> [] \<Longrightarrow> int (relayed E fs r) = quota_passed (dailyQuota E) fs (quota_now (fst (hd fs)) r)"
proof (induction fs arbitrary: r)
  case (Cons f fs)
  note ps = window_meter.passed.simps [OF quota_window_meter [OF lim]]
  obtain over r' where o: "overQuota E (fst f) (snd f) r = (over, r')" by (cases "overQuota E (fst f) (snd f) r")
  from overQuota_meter [OF this] obtain q' where
    m: "quota_meter (dailyQuota E) f (quota_now (fst f) r) = (\<not> over, q')" "quota r' = Some q'" by auto
  then have "quota_now now r' = q'" for now by (simp add: quota_now_def quota_load_def)
  with Cons.IH [of r'] have "int (relayed E fs r') = quota_passed (dailyQuota E) fs q'"
    by (cases fs) (simp_all add: ps)
  with o m(1) show ?case by (simp add: ps)
qed simp

text \<open>
  Daily byte quota: whatever the room has relayed before, and whether its counter is in
  memory or has to be reloaded from the store, the frames that pass the quota over any stretch of
  less than 24 hours carry at most twice the configured quota, and at most the quota itself when
  they fall into the window that the counter is in.
\<close>

theorem daily_quota:
  assumes "0 \<le> dailyQuota E" and "0 \<le> snd (quota_now (fst (hd fs)) r)"
    and "\<forall>f \<in> set fs. t \<le> fst f \<and> fst f < t + QUOTA_WINDOW_MS"
  shows "int (relayed E fs r) \<le> 2 * dailyQuota E
    \<and> ((\<forall>f \<in> set fs. fst f < fst (quota_now (fst (hd fs)) r) + QUOTA_WINDOW_MS) \<longrightarrow>
        int (relayed E fs r) \<le> dailyQuota E)"
proof (cases "fs = []")
  case False
  note eq = relayed_passed [OF assms(1) False, of r]
  note m = quota_window_meter [OF assms(1)]
  from window_meter.passed_stretch [OF m assms(2,3)] window_meter.passed_within [OF m, of fs "quota_now (fst (hd fs)) r"]
    assms(1,2) show ?thesis
    unfolding eq by auto
qed (use assms(1) in simp)

text \<open>A configuration for concrete runs: attestation off, a quota of 100 bytes.\<close>

definition demo_config :: env where
  "demo_config = \<lparr>ATTEST_REQUIRED = Some ''false'', RELAY_ORIGIN = ''relay'', APP_ID = ''app'',
     APPATTEST_ENV = ''production'', APPATTEST_ROOT = [], RELAY_DAILY_BYTE_QUOTA = Some ''100'',
     RELAY_ESTABLISHED_IDLE_TTL_MS = None\<rparr>"

theorem daily_quota_witness: "int (relayed demo_config [(5, 60), (6, 30), (7, 50)] empty_room) \<le> 100"
proof -
  have q: "dailyQuota demo_config = 100" by code_simp
  have n: "quota_now 5 empty_room = (5, 0)"
    by (simp add: quota_now_def quota_load_def empty_room_def st_get_def kv_get_def)
  from daily_quota [of demo_config "[(5, 60), (6, 30), (7, 50)]" empty_room 5] show ?thesis
    by (simp add: q n QUOTA_WINDOW_MS_def)
qed

section \<open>What a frame can do\<close>

lemma overQuota_outs:
  assumes "overQuota E now sz r = (over, r')"
  shows "outs r' = outs r @ (if over then close_trace (closeRecvd r) (socks r) 1008 ''daily quota exceeded'' else [])"
    and "closeRecvd r' = closeRecvd r"
proof -
  let ?r = "quota_roll now (quota_load now r)"
  obtain q where "quota (quota_load now r) = Some q" using quota_load_Some by blast
  then obtain q' where "quota ?r = Some q'" by (auto simp: quota_roll_quota)
  then obtain day b0 where q: "quota ?r = Some (day, b0)" by (cases q') auto
  have eq: "overQuota E now sz r = (if b0 + int sz > dailyQuota E
      then (True, close_all (socks r) 1008 ''daily quota exceeded''
        (st_put ''quota'' (SQuota day (b0 + int sz)) (?r\<lparr>quota := Some (day, b0 + int sz)\<rparr>)))
      else if b0 + int sz - quotaFlushedBytes ?r \<ge> QUOTA_FLUSH_BYTES
      then (False, st_put ''quota'' (SQuota day (b0 + int sz))
        (?r\<lparr>quota := Some (day, b0 + int sz), quotaFlushedBytes := b0 + int sz\<rparr>))
      else (False, ?r\<lparr>quota := Some (day, b0 + int sz)\<rparr>))"
    by (simp add: overQuota_def Let_def q)
  from assms show "outs r' = outs r @ (if over then close_trace (closeRecvd r) (socks r) 1008 ''daily quota exceeded'' else [])"
    "closeRecvd r' = closeRecvd r"
    by (simp_all add: eq split: if_splits) auto
qed

lemma closePeerOf_trace:
  "\<exists>ss. outs (closePeerOf ws r) = outs r @ close_trace (closeRecvd r) ss 1001 ''peer gone''"
proof (cases "\<exists>rl. att_phase r ws = Some (Admitted rl)")
  case True
  then show ?thesis by (auto simp: closePeerOf_def)
next
  case False
  then have "closePeerOf ws r = r" by (auto simp: closePeerOf_def split: option.split phase.split)
  then show ?thesis by (auto simp: close_trace_def intro: exI [of _ "[]"])
qed

lemma no_send_close_trace [simp]: "OSend s f \<notin> set (close_trace C ss c m)"
  by (auto simp: close_trace_def)

definition new_sends :: "room \<Rightarrow> room \<Rightarrow> (sid \<times> frame) list" where
  "new_sends r r' = List.map_filter (\<lambda>ev. case ev of OSend s f \<Rightarrow> Some (s, f) | _ \<Rightarrow> None)
     (drop (length (outs r)) (outs r'))"

lemma map_filter_none: "(\<And>x. x \<in> set xs \<Longrightarrow> f x = None) \<Longrightarrow> List.map_filter f xs = []"
  by (induction xs) (auto simp: map_filter_simps)

lemma new_sends_closes:
  assumes "outs r' = outs r @ evs" "\<And>s f. OSend s f \<notin> set evs"
  shows "new_sends r r' = []"
  unfolding new_sends_def assms(1)
  by (rule map_filter_none) (use assms(2) in \<open>auto split: out.split\<close>)

text \<open>
  C8. The splice: a frame from an admitted socket reaches at most one socket, a live holder of
  the opposite role other than the sender, and reaches it unchanged; when the frame rate or the
  daily quota is exceeded nobody gets it, and over the quota every live socket is closed.
\<close>

theorem frame_reaches_only_the_peer:
  "(case rateLimited now MAX_FRAMES_PER_WINDOW FRAME_WINDOW_MS (frameWindow r) of (limited, w) \<Rightarrow>
      case overQuota E now (msg_size msg) (r\<lparr>frameWindow := w\<rparr>) of (over, r1) \<Rightarrow>
        let r' = handleFrame E now ws rl msg r
        in if limited then new_sends r r' = []
           else if over then new_sends r r' = [] \<and> socks r' = []
           else socks r' = socks r
             \<and> new_sends r r' = (case List.find (\<lambda>p. p \<noteq> ws \<and> holds r (other_role rl) p) (socks r) of
                 None \<Rightarrow> [] | Some peer \<Rightarrow> [(peer, FRelay msg)]))"
proof -
  obtain lim w where l: "rateLimited now MAX_FRAMES_PER_WINDOW FRAME_WINDOW_MS (frameWindow r) = (lim, w)"
    by (cases "rateLimited now MAX_FRAMES_PER_WINDOW FRAME_WINDOW_MS (frameWindow r)")
  let ?r = "r\<lparr>frameWindow := w\<rparr>"
  obtain over r1 where o: "overQuota E now (msg_size msg) ?r = (over, r1)"
    by (cases "overQuota E now (msg_size msg) ?r")
  note q = overQuota_socks [OF o] overQuota_outs [OF o]
  have h: "holds r1 = holds r" using q(2) by (intro ext holds_cong) simp
  have 1: "new_sends r (handleFrame E now ws rl msg r) = []" if lim
  proof -
    obtain ss where "outs (closePeerOf ws ?r) = outs r @ close_trace (closeRecvd r) ss 1001 ''peer gone''"
      using closePeerOf_trace [of ws ?r] by auto
    with that l show ?thesis
      by (intro new_sends_closes [of _ _ "close_trace (closeRecvd r) ss 1001 ''peer gone'' @
          (if ws \<in> closeRecvd r then [] else [OHook 1008 ''frame rate exceeded'']) @ [OClose ws 1008 ''frame rate exceeded'']"])
        (auto simp: handleFrame_def)
  qed
  have 2: "new_sends r (handleFrame E now ws rl msg r) = [] \<and> socks (handleFrame E now ws rl msg r) = []"
    if "\<not> lim" over
    using that l o q(1,3) by (auto simp: handleFrame_def intro: new_sends_closes)
  have 3: "socks (handleFrame E now ws rl msg r) = socks r
      \<and> new_sends r (handleFrame E now ws rl msg r) = (case List.find (\<lambda>p. p \<noteq> ws \<and> holds r (other_role rl) p) (socks r) of
                 None \<Rightarrow> [] | Some peer \<Rightarrow> [(peer, FRelay msg)])"
    if "\<not> lim" "\<not> over"
    using that l o q(1,3) by (simp add: handleFrame_def forward_def h new_sends_def map_filter_simps split: option.split)
  show ?thesis using l o 1 2 3 by (simp add: Let_def)
qed

section \<open>What admission does\<close>

lemma holds_atts: "holds r rl s \<longleftrightarrow> map_option ph (atts r s) = Some (Admitted rl)"
  by (simp add: holds_def att_phase_def)

lemma live_peer_iff: "live_peer r ws rl \<longleftrightarrow> (\<exists>s \<in> set (socks r). s \<noteq> ws \<and> holds r rl s)"
  by (auto simp: live_peer_def list_ex_iff)

lemma live_peer_cong: "socks r' = socks r \<Longrightarrow> atts r' = atts r \<Longrightarrow> live_peer r' ws rl = live_peer r ws rl"
  by (simp add: live_peer_def holds_atts)

lemma st_get_put [simp]: "st_get k (st_put k' v r) = (if k = k' then Some v else st_get k r)"
  by (simp add: st_get_def kv.get_put)

lemma st_get_delete [simp]: "st_get k (snd (st_delete k' r)) = (if k = k' then None else st_get k r)"
  by (simp add: st_get_def kv.get_del)

lemma st_get_cong: "db r' = db r \<Longrightarrow> st_get k r' = st_get k r"
  by (simp add: st_get_def)

lemma admit_guard_cases:
  obtains (offline) "admit_guard ws rl r = Inl (reject ws ''mac offline'' r)" "rl = Phone" "\<not> live_peer r ws Mac"
  | (capped) "admit_guard ws rl r = Inl (teardownRoom ''pairing cycle cap'' r)" "rl = Phone" "live_peer r ws Mac"
      "\<not> established r" "num_or_zero (st_get ''pairingCycles'' r) + 1 > MAX_PAIRING_CYCLES"
  | (cycle) "admit_guard ws rl r
        = Inr (st_put ''pairingCycles'' (SNum (num_or_zero (st_get ''pairingCycles'' r) + 1)) r)"
      "rl = Phone" "live_peer r ws Mac" "\<not> established r"
      "num_or_zero (st_get ''pairingCycles'' r) + 1 \<le> MAX_PAIRING_CYCLES"
  | (signed) "admit_guard ws rl r = Inr r" "rl = Phone" "live_peer r ws Mac" "established r"
  | (park) "admit_guard ws rl r = Inr (st_put ''pairingCycles'' (SNum 0) r)" "rl = Mac" "\<not> established r"
  | (repark) "admit_guard ws rl r = Inr r" "rl = Mac" "established r"
proof (cases rl)
  case Mac
  show ?thesis
  proof (cases "established r")
    case True
    with Mac show ?thesis by (intro repark) (simp_all add: admit_guard_def)
  next
    case False
    with Mac show ?thesis by (intro park) (simp_all add: admit_guard_def)
  qed
next
  case Phone
  consider (a) "\<not> live_peer r ws Mac" | (b) "live_peer r ws Mac" "established r"
    | (c) "live_peer r ws Mac" "\<not> established r" "num_or_zero (st_get ''pairingCycles'' r) + 1 > MAX_PAIRING_CYCLES"
    | (d) "live_peer r ws Mac" "\<not> established r" "num_or_zero (st_get ''pairingCycles'' r) + 1 \<le> MAX_PAIRING_CYCLES"
    by linarith
  then show ?thesis
  proof cases
    case a
    with Phone show ?thesis by (intro offline) (simp_all add: admit_guard_def)
  next
    case b
    with Phone show ?thesis by (intro signed) (simp_all add: admit_guard_def)
  next
    case c
    with Phone show ?thesis by (intro capped) (simp_all add: admit_guard_def)
  next
    case d
    with Phone show ?thesis by (intro cycle) (simp_all add: admit_guard_def)
  qed
qed

lemma take_slot_simps [simp]:
  "socks (take_slot ws rl p r) = filter (\<lambda>t. t = ws \<or> \<not> holds r rl t) (socks r)"
  "holds (take_slot ws rl p r) rl' t \<longleftrightarrow> (if t = ws then rl' = rl else holds r rl' t)"
  "db (take_slot ws rl p r) = db r" "draws (take_slot ws rl p r) = draws r"
  "alarmRow (take_slot ws rl p r) = alarmRow r" "timer (take_slot ws rl p r) = timer r"
  "closeRecvd (take_slot ws rl p r) = closeRecvd r"
  by (auto simp: take_slot_def displace_def holds_atts intro!: filter_cong)

lemma take_slot_atts: "t \<noteq> ws \<Longrightarrow> atts (take_slot ws rl p r) t = atts r t"
  by (simp add: take_slot_def displace_def)

lemma grant_simps [simp]:
  "socks (grant P now ws rl a r) = socks r" "atts (grant P now ws rl a r) = atts r"
  "closeRecvd (grant P now ws rl a r) = closeRecvd r"
  by (simp_all add: grant_def draw_def)

lemma holds_grant [simp]: "holds (grant P now ws rl a r) rl' t = holds r rl' t"
  by (rule holds_cong) simp

lemma admit_Inr:
  "admit_guard ws rl r = Inr r1 \<Longrightarrow> \<not> (nonDisplacing r ws \<and> live_peer r1 ws rl) \<Longrightarrow>
     admit P now ws rl a r = grant P now ws rl a (take_slot ws rl (atts r ws) r1)"
  by (auto simp: admit_def Let_def)

lemma guard_frame:
  assumes "admit_guard ws rl r = Inr r1"
  shows "socks r1 = socks r" "atts r1 = atts r" "draws r1 = draws r" "alarmRow r1 = alarmRow r"
    "timer r1 = timer r" "closeRecvd r1 = closeRecvd r"
    "k \<noteq> ''pairingCycles'' \<Longrightarrow> st_get k r1 = st_get k r" "rl = Phone \<Longrightarrow> live_peer r ws Mac"
  using assms by (cases rule: admit_guard_cases [of ws rl r]; force)+

text \<open>The three ways admission can end.\<close>

lemma admit_cases:
  obtains (gone) m r1 where "admit P now ws rl a r = reject ws m r1" "atts r1 = atts r" "socks r1 = socks r"
  | (killed) "admit P now ws rl a r = teardownRoom ''pairing cycle cap'' r"
  | (taken) r1 where "admit P now ws rl a r = grant P now ws rl a (take_slot ws rl (atts r ws) r1)"
      "admit_guard ws rl r = Inr r1"
proof (cases "admit_guard ws rl r")
  case (Inl r1)
  then show ?thesis
    using gone [of "''mac offline''" r] killed
    by (cases rule: admit_guard_cases [of ws rl r]) (simp_all add: admit_def)
next
  case (Inr r1)
  note fr = guard_frame(1,2) [OF this]
  show ?thesis
  proof (cases "nonDisplacing r ws \<and> live_peer r1 ws rl")
    case True
    with Inr fr gone [of "''slot occupied''" r1] show ?thesis by (simp add: admit_def)
  next
    case False
    with admit_Inr [OF Inr False] taken Inr show ?thesis by blast
  qed
qed

text \<open>
  Newest wins, and only there: a socket that may join (any mac, or a phone with a mac parked
  and pairing budget left; not asked to yield) takes its role, exactly the previous live holders
  of that role are dropped, and no other socket's state changes. In particular the peer stays
  connected through a displacement.
\<close>

theorem admit_newest_wins:
  assumes "\<not> nonDisplacing r ws"
    and "rl = Phone \<longrightarrow> live_peer r ws Mac
      \<and> (established r \<or> num_or_zero (st_get ''pairingCycles'' r) < MAX_PAIRING_CYCLES)"
  shows "let r' = admit P now ws rl a r
    in holds r' rl ws \<and> socks r' = filter (\<lambda>t. t = ws \<or> \<not> holds r rl t) (socks r)
       \<and> (\<forall>t. t \<noteq> ws \<longrightarrow> atts r' t = atts r t)"
proof -
  obtain r1 where g: "admit_guard ws rl r = Inr r1"
    using assms(2) by (cases rule: admit_guard_cases [of ws rl r]) auto
  note fr = guard_frame(1,2) [OF g]
  have h: "holds r1 = holds r" by (intro ext) (simp add: holds_atts fr)
  have "admit P now ws rl a r = grant P now ws rl a (take_slot ws rl (atts r ws) r1)"
    using assms(1) by (intro admit_Inr [OF g]) simp
  then show ?thesis
    by (simp add: Let_def take_slot_atts fr h)
qed

text \<open>
  A concrete platform, on which every text parses to an object whose properties are that text,
  and a room with a mac, a phone and a second phone about to join.
\<close>

definition demo_plat :: plat where
  "demo_plat = attest_env.extend demo_env
     \<lparr>p_json = (\<lambda>m. case m of Text s \<Rightarrow> Some (JObj [(''v'', JNum 1), (''role'', JStr s),
        (''ticket'', JStr s), (''sig'', JStr s)]) | Binary _ \<Rightarrow> None),
      p_ed_import = (\<lambda>_. Some 0), p_ed_verify = (\<lambda>_ sg _. sg \<noteq> []),
      p_random = (\<lambda>i n. replicate n (byte_of i))\<rparr>"

definition demo_att :: "phase \<Rightarrow> attachment" where
  "demo_att p = \<lparr>ph = p, roomName = Some ''room'', tag = None, connectedAt = Some 0\<rparr>"

definition demo_room :: room where
  "demo_room = empty_room\<lparr>socks := [1, 2, 3],
     atts := [1 \<mapsto> demo_att (Admitted Mac), 2 \<mapsto> demo_att (Admitted Phone),
              3 \<mapsto> demo_att (Challenged Phone ''AAAA'' False)]\<rparr>"

lemma demo_room_facts:
  "\<not> nonDisplacing demo_room 3" "live_peer demo_room 3 Mac" "\<not> established demo_room"
  "num_or_zero (st_get ''pairingCycles'' demo_room) = 0" "socks demo_room = [1, 2, 3]"
  "holds demo_room Phone 2" "\<not> holds demo_room Phone 1" "holds demo_room Mac 1" "\<not> holds demo_room Phone 3"
  by (simp_all add: demo_room_def nonDisplacing_def att_phase_def demo_att_def live_peer_iff holds_def
      established_def st_get_def kv_get_def empty_room_def num_or_zero_def)

theorem admit_newest_wins_witness:
  "let r' = admit demo_plat 7 3 Phone None demo_room
   in holds r' Phone 3 \<and> socks r' = filter (\<lambda>t. t = 3 \<or> \<not> holds demo_room Phone t) (socks demo_room)
      \<and> (\<forall>t. t \<noteq> 3 \<longrightarrow> atts r' t = atts demo_room t)"
  by (rule admit_newest_wins) (simp_all add: demo_room_facts MAX_PAIRING_CYCLES_def)

lemma holds_reject [simp]: "holds (reject ws m r) rl s = holds r rl s"
  by (simp add: holds_atts)

lemma holds_teardown [simp]: "holds (teardownRoom m r) rl s = holds r rl s"
  by (simp add: holds_atts)

lemma admit_new_holder:
  assumes "holds (admit P now ws rl a r) rl ws" "\<not> holds r rl ws"
  obtains r1 where "admit P now ws rl a r = grant P now ws rl a (take_slot ws rl (atts r ws) r1)"
    "admit_guard ws rl r = Inr r1" "holds r1 = holds r"
proof (cases rule: admit_cases [of P now ws rl a r])
  case (gone m r1)
  with assms show ?thesis by (simp add: holds_atts)
next
  case killed
  with assms show ?thesis by simp
next
  case (taken r1)
  have "holds r1 = holds r" by (intro ext) (simp add: holds_atts guard_frame(2) [OF taken(2)])
  with taken that show ?thesis by blast
qed

text \<open>
  C7. A phone is never admitted alone: whenever admission gives a socket the phone slot, another
  live socket holds the mac slot, before and after.
\<close>

theorem phone_needs_parked_mac:
  assumes "holds (admit P now ws Phone a r) Phone ws" "\<not> holds r Phone ws"
  shows "\<exists>m \<in> set (socks (admit P now ws Phone a r)).
    m \<noteq> ws \<and> m \<in> set (socks r) \<and> holds r Mac m \<and> holds (admit P now ws Phone a r) Mac m"
proof -
  from admit_new_holder [OF assms] obtain r1 where
    r1: "admit P now ws Phone a r = grant P now ws Phone a (take_slot ws Phone (atts r ws) r1)"
      "admit_guard ws Phone r = Inr r1" "holds r1 = holds r" .
  from guard_frame(8) [OF r1(2)] obtain m where m: "m \<in> set (socks r)" "m \<noteq> ws" "holds r Mac m"
    by (auto simp: live_peer_iff)
  then have "\<not> holds r Phone m" by (auto simp: holds_def)
  with m r1(1,3) guard_frame(1) [OF r1(2)] show ?thesis by auto
qed

theorem phone_needs_parked_mac_witness:
  "\<exists>m \<in> set (socks (admit demo_plat 7 3 Phone None demo_room)). m \<noteq> 3 \<and> m \<in> set (socks demo_room)
     \<and> holds demo_room Mac m \<and> holds (admit demo_plat 7 3 Phone None demo_room) Mac m"
proof (rule phone_needs_parked_mac)
  obtain r1 where g: "admit_guard 3 Phone demo_room = Inr r1"
    using demo_room_facts by (cases rule: admit_guard_cases [of 3 Phone demo_room]) (auto simp: MAX_PAIRING_CYCLES_def)
  from admit_Inr [OF g, of demo_plat 7 None] show "holds (admit demo_plat 7 3 Phone None demo_room) Phone 3"
    by (simp add: demo_room_facts)
qed (simp add: demo_room_facts)

section \<open>Who may join\<close>

text \<open>
  C2. Established rooms admit by signature only: a proof never changes any socket's state by
  itself; it is rejected or waits for the verification of a signature, under the room's verifier,
  over the transcript of its own role, nonce, room and origin; and a failed verification closes
  the socket without admitting it.
\<close>

theorem established_requires_signature:
  assumes "established r"
  shows "(case handleProof P E now ws att rl nonce msg r of (r', aw) \<Rightarrow>
      atts r' = atts r \<and>
      (case aw of None \<Rightarrow> ws \<notin> set (socks r')
       | Some (AwaitJoin rl' sg tr v) \<Rightarrow> rl' = rl \<and> v = verifier_string (st_get ''verifier'' r)
           \<and> joinTranscript rl nonce (opt_str (roomName att)) (RELAY_ORIGIN E) = Some tr
           \<and> (\<forall>now' r''. \<not> verifyJoin P sg tr v \<longrightarrow>
                atts (resumeProof P now' ws (AwaitJoin rl' sg tr v) r'') = atts r''
              \<and> ws \<notin> set (socks (resumeProof P now' ws (AwaitJoin rl' sg tr v) r'')))))"
proof -
  obtain lim w where l: "rateLimited now MAX_ADMISSION_ATTEMPTS ADMISSION_WINDOW_MS (admissionWindow r) = (lim, w)"
    by (cases "rateLimited now MAX_ADMISSION_ATTEMPTS ADMISSION_WINDOW_MS (admissionWindow r)")
  have est: "established (r\<lparr>admissionWindow := w\<rparr>)" using assms by (simp add: established_def st_get_def)
  show ?thesis
    by (simp add: handleProof_def Let_def l est proof_signed_def internal_error_def resumeProof_def st_get_def
        split: option.split)
qed

theorem established_requires_signature_witness:
  "let r = st_put ''verifier'' (SStr ''VVVV'') demo_room; att = demo_att (Challenged Mac ''AAAA'' False)
   in (case handleProof demo_plat demo_config 9 3 att Mac ''AAAA'' (Text ''SSSS'') r of (r', aw) \<Rightarrow>
      atts r' = atts r \<and>
      (case aw of None \<Rightarrow> 3 \<notin> set (socks r')
       | Some (AwaitJoin rl' sg tr v) \<Rightarrow> rl' = Mac \<and> v = verifier_string (st_get ''verifier'' r)
           \<and> joinTranscript Mac ''AAAA'' (opt_str (roomName att)) (RELAY_ORIGIN demo_config) = Some tr
           \<and> (\<forall>now' r''. \<not> verifyJoin demo_plat sg tr v \<longrightarrow>
                atts (resumeProof demo_plat now' 3 (AwaitJoin rl' sg tr v) r'') = atts r''
              \<and> 3 \<notin> set (socks (resumeProof demo_plat now' 3 (AwaitJoin rl' sg tr v) r'')))))"
  unfolding Let_def by (rule established_requires_signature) (simp add: established_def)

text \<open>The compare-and-swap of the delete never loses here: the record was just read.\<close>

lemma redeem_ticket_eq:
  "redeem_ticket now t r =
     (case st_get (''ticket:'' @ t) r of
        None \<Rightarrow> (None, r)
      | Some rec \<Rightarrow> if expired now rec then (None, r)
                    else (Some (attest_of rec), snd (st_delete (''ticket:'' @ t) r)))"
proof (cases "st_delete (''ticket:'' @ t) r")
  case (Pair found d)
  then have "found \<longleftrightarrow> st_get (''ticket:'' @ t) r \<noteq> None"
    using st_delete_simps(14) [of "''ticket:'' @ t" r] by simp
  with Pair show ?thesis by (auto simp: redeem_ticket_def split: option.split)
qed



text \<open>
  Under attestation, a phone joins a room that is not established only by spending a ticket:
  the proof named a stored, unexpired ticket, which is gone afterwards, and the registration token
  minted for the phone carries the identity that the ticket was attested with.
\<close>

theorem attested_phone_spends_ticket:
  assumes "attestationRequired E" "\<not> holds r Phone ws" "holds (proof_pairing P E now ws Phone prf r) Phone ws"
  shows "\<exists>t rec. as_string (jprop prf ''ticket'') = Some t \<and> st_get (''ticket:'' @ t) r = Some rec
    \<and> \<not> expired now rec \<and> st_get (''ticket:'' @ t) (proof_pairing P E now ws Phone prf r) = None
    \<and> st_get (''regtoken:'' @ b64 (p_random P (draws r) 24)) (proof_pairing P E now ws Phone prf r)
        = Some (SRec (now + REG_TOKEN_TTL_MS) (attest_of rec))"
proof -
  let ?r' = "proof_pairing P E now ws Phone prf r"
  have n: "prf \<noteq> JNull" using assms by (auto simp: proof_pairing_def internal_error_def holds_atts)
  obtain t where t: "as_string (jprop prf ''ticket'') = Some t"
    using assms n by (auto simp: proof_pairing_def split: option.splits)
  obtain attest r1 where red: "redeem_ticket now t r = (Some attest, r1)"
    using assms n t
    by (cases "redeem_ticket now t r")
      (auto simp: proof_pairing_def redeem_ticket_eq holds_atts split: option.splits if_splits)
  then obtain rec where rec: "st_get (''ticket:'' @ t) r = Some rec" "\<not> expired now rec" "attest = attest_of rec"
    "r1 = snd (st_delete (''ticket:'' @ t) r)"
    by (auto simp: redeem_ticket_eq split: option.splits if_splits)
  have adm: "?r' = admit P now ws Phone attest r1"
    using assms(1) n t red by (simp add: proof_pairing_def)
  have "\<not> holds r1 Phone ws" using assms(2) rec(4) by (simp add: holds_atts)
  from admit_new_holder [OF assms(3) [unfolded adm] this] obtain r2 where
    r2: "?r' = grant P now ws Phone attest (take_slot ws Phone (atts r1 ws) r2)" "admit_guard ws Phone r1 = Inr r2"
    unfolding adm .
  note fr = guard_frame [OF r2(2)]
  have get: "st_get k ?r' = (if k = ''regtoken:'' @ b64 (p_random P (draws r) 24)
      then Some (SRec (now + REG_TOKEN_TTL_MS) attest) else st_get k r2)" for k
    unfolding r2(1) by (simp add: grant_def draw_def st_get_def fr rec(4) kv.get_put)
  show ?thesis
    using t rec fr(7) [of "''ticket:'' @ t"] get by (intro exI [of _ t] exI [of _ rec]) simp
qed

lemma admit_holds:
  assumes "\<not> nonDisplacing r ws"
    and "rl = Phone \<longrightarrow> live_peer r ws Mac
      \<and> (established r \<or> num_or_zero (st_get ''pairingCycles'' r) < MAX_PAIRING_CYCLES)"
  shows "holds (admit P now ws rl a r) rl ws"
proof -
  obtain r1 where g: "admit_guard ws rl r = Inr r1"
    using assms(2) by (cases rule: admit_guard_cases [of ws rl r]) auto
  from admit_Inr [OF g, of P now a] assms(1) show ?thesis by simp
qed

theorem attested_phone_spends_ticket_witness:
  "let r = st_put ''ticket:TTTT'' (SRec 50 (Some (''k'', ''p''))) demo_room;
       r' = proof_pairing demo_plat (demo_config\<lparr>ATTEST_REQUIRED := None\<rparr>) 20 3 Phone (JObj [(''ticket'', JStr ''TTTT'')]) r
   in \<exists>t rec. as_string (jprop (JObj [(''ticket'', JStr ''TTTT'')]) ''ticket'') = Some t
     \<and> st_get (''ticket:'' @ t) r = Some rec \<and> \<not> expired 20 rec \<and> st_get (''ticket:'' @ t) r' = None
     \<and> st_get (''regtoken:'' @ b64 (p_random demo_plat (draws r) 24)) r' = Some (SRec (20 + REG_TOKEN_TTL_MS) (attest_of rec))"
  unfolding Let_def
proof (rule attested_phone_spends_ticket)
  let ?r = "st_put ''ticket:TTTT'' (SRec 50 (Some (''k'', ''p''))) demo_room"
  let ?r1 = "snd (st_delete ''ticket:TTTT'' ?r)"
  show "attestationRequired (demo_config\<lparr>ATTEST_REQUIRED := None\<rparr>)" by (simp add: attestationRequired_def)
  show "\<not> holds ?r Phone 3" using demo_room_facts(9) by (simp add: holds_atts)
  have "nonDisplacing ?r1 3 = nonDisplacing demo_room 3" by (simp add: nonDisplacing_def att_phase_def)
  moreover have "live_peer ?r1 3 Mac = live_peer demo_room 3 Mac" by (rule live_peer_cong) simp_all
  moreover have "st_get ''pairingCycles'' ?r1 = st_get ''pairingCycles'' demo_room" by simp
  ultimately have "holds (admit demo_plat 20 3 Phone (Some (''k'', ''p'')) ?r1) Phone 3"
    by (intro admit_holds) (simp_all add: demo_room_facts MAX_PAIRING_CYCLES_def)
  then show "holds (proof_pairing demo_plat (demo_config\<lparr>ATTEST_REQUIRED := None\<rparr>) 20 3 Phone
      (JObj [(''ticket'', JStr ''TTTT'')]) ?r) Phone 3"
    by (simp add: proof_pairing_def attestationRequired_def jprop_def redeem_ticket_eq)
qed

section \<open>Hello\<close>

text \<open>
  The first exchange reveals nothing about the room: what the relay sends and does in answer to
  a hello is the same for any two rooms (established or not, full or empty), given the same
  random draw; it is a fresh nonce, or a close.
\<close>

theorem hello_uniform:
  assumes "draws r = draws r'" "ws \<in> closeRecvd r \<longleftrightarrow> ws \<in> closeRecvd r'"
  shows "drop (length (outs r)) (outs (handleHello P ws att msg r))
      = drop (length (outs r')) (outs (handleHello P ws att msg r'))
    \<and> (atts (handleHello P ws att msg r) ws = atts (handleHello P ws att msg r') ws
       \<or> atts (handleHello P ws att msg r) = atts r \<and> atts (handleHello P ws att msg r') = atts r')"
proof (cases "p_json P msg")
  case (Some hello)
  show ?thesis
  proof (cases "hello = JNull")
    case True
    with Some assms(2) show ?thesis by (simp add: handleHello_def internal_error_def)
  next
    case False
    let ?c = "(case (jprop hello ''v'' = Some (JNum (of_nat PROTOCOL_VERSION)), role_of (jprop hello ''role'')) of
           (True, Some rl) \<Rightarrow> Some rl | _ \<Rightarrow> None)"
    have eq: "handleHello P ws att msg r = (case ?c of
           Some rl \<Rightarrow> (case draw P NONCE_BYTES r of (nonce, r1) \<Rightarrow>
                ws_send ws (FNonce nonce)
                  (put_att ws \<lparr>ph = Challenged rl nonce (jprop hello ''nonDisplacing'' = Some (JBool True)),
                     roomName = roomName att, tag = tag att, connectedAt = connectedAt att\<rparr> r1))
         | None \<Rightarrow> closeSocket ws 1008 ''bad hello'' r)" for r
      using Some False by (cases hello) (auto simp: handleHello_def split: option.split bool.split)
    show ?thesis unfolding eq using assms by (simp add: draw_def split: option.split bool.split)
  qed
qed (use assms in \<open>simp add: handleHello_def\<close>)

theorem hello_uniform_witness:
  "drop (length (outs demo_room)) (outs (handleHello demo_plat 3 no_att (Text ''x'') demo_room))
      = drop (length (outs empty_room)) (outs (handleHello demo_plat 3 no_att (Text ''x'') empty_room))
    \<and> (atts (handleHello demo_plat 3 no_att (Text ''x'') demo_room) 3
        = atts (handleHello demo_plat 3 no_att (Text ''x'') empty_room) 3
       \<or> atts (handleHello demo_plat 3 no_att (Text ''x'') demo_room) = atts demo_room
         \<and> atts (handleHello demo_plat 3 no_att (Text ''x'') empty_room) = atts empty_room)"
  by (rule hello_uniform) (simp_all add: demo_room_def empty_room_def)

section \<open>A closed socket can still displace\<close>

text \<open>
  A socket that the relay has already closed (here 5, which is not in the routable set) but whose
  proof is still being handled is admitted all the same: it displaces the parked mac without taking
  its place, and the phone is left admitted with no mac in the room.
\<close>

lemma closed_socket_displaces:
  "let r = empty_room\<lparr>socks := [1, 2], srvClosed := {5},
         atts := [1 \<mapsto> demo_att (Admitted Mac), 2 \<mapsto> demo_att (Admitted Phone), 5 \<mapsto> demo_att (Challenged Mac ''AAAA'' False)]\<rparr>;
       r' = admit P now 5 Mac None r
   in socks r' = [2] \<and> holds r' Phone 2"
  by (simp add: admit_def admit_guard_def established_def st_get_def kv_get_def nonDisplacing_def empty_room_def
      demo_att_def holds_atts take_slot_def displace_def grant_def att_phase_def kv_put_def)

end
