(* ===== verification/RoomHttp.thy ===== *)
theory RoomHttp
  imports RoomAdmit
begin

text \<open>
  The HTTP side of a room: attestation challenges, attestation, registration and signed deletion.
  Each handler that calls WebCrypto is split at that call, since other events of the room may run
  while it waits; the continuation gets the time at which it runs.
\<close>

section \<open>Replies\<close>

datatype reply_body =
    ROk
  | RChallenge string
  | RTicket string
  | RError string
  | RAssertionRejected att_error
  | RNotImplemented

text \<open>A handler replies, throws (which the host turns into a 500), or waits for WebCrypto.\<close>

datatype 'w outcome = Reply nat reply_body | Throws | Wait 'w

type_synonym ticket_wait = "string \<times> string"

text \<open>What a suspended registration holds: token key, record, verifier, challenge, assertion.\<close>

datatype reg_wait = RegWait string string string string string string

datatype del_wait = DelWait string bytes string

section \<open>Challenges\<close>

definition live_and_expired :: "int \<Rightarrow> string \<Rightarrow> room \<Rightarrow> nat \<times> room" where
  "live_and_expired now prefix r =
     fold (\<lambda>(k, rec) (live, r). if expired now rec then (live, snd (st_delete k r)) else (live + 1, r))
       (kv_list prefix (db r)) (0, r)"

definition handleAttestChallenge :: "'a plat_scheme \<Rightarrow> int \<Rightarrow> room \<Rightarrow> nat \<times> reply_body \<times> room" where
  "handleAttestChallenge P now r0 =
     (case live_and_expired now ''attestchallenge:'' r0 of (live, r) \<Rightarrow>
        if live \<ge> MAX_OUTSTANDING_CHALLENGES then (429, RError ''too many outstanding challenges'', r)
        else case draw P NONCE_BYTES r of (challenge, r1) \<Rightarrow>
          (200, RChallenge challenge,
           ensureAlarm now (st_put (''attestchallenge:'' @ challenge) (SRec (now + ATTEST_CHALLENGE_TTL_MS) None) r1)))"

text \<open>
  The consumption of a challenge, which three handlers share: the record must be there and not
  expired, and is deleted before anything is verified.
\<close>

definition consume_challenge :: "int \<Rightarrow> string \<Rightarrow> room \<Rightarrow> bool \<times> room" where
  "consume_challenge now challenge r =
     (case st_get (''attestchallenge:'' @ challenge) r of
        None \<Rightarrow> (False, r)
      | Some rec \<Rightarrow> if expired now rec then (False, r)
                    else (True, snd (st_delete (''attestchallenge:'' @ challenge) r)))"

text \<open>The hash both App Attest calls are bound to; \<open>None\<close> when the challenge is not base64.\<close>

definition clientDataHash :: "'a plat_scheme \<Rightarrow> env \<Rightarrow> string \<Rightarrow> bytes option" where
  "clientDataHash P E challenge =
     map_option (\<lambda>c. ae_sha256 P (canonicalEncode ''iterm2-relay-attest'' [c, utf8_encode (RELAY_ORIGIN E)]))
       (b64ToBytes challenge)"

definition as_attest_env :: "'a plat_scheme \<Rightarrow> attest_env" where
  "as_attest_env P = attest_env.truncate P"

section \<open>Attestation\<close>

definition handleAttest :: "env \<Rightarrow> int \<Rightarrow> jsval option \<Rightarrow> room \<Rightarrow> ticket_wait outcome \<times> room" where
  "handleAttest E now body r =
     (if \<not> attestationRequired E then (Reply 400 (RError ''attestation disabled''), r)
      else case body of
        None \<Rightarrow> (Reply 400 (RError ''bad json''), r)
      | Some b \<Rightarrow>
        if b = JNull then (Throws, r)
        else (case (as_string (jprop b ''challenge''), as_string (jprop b ''attestationObject'')) of
           (Some challenge, Some attestationObject) \<Rightarrow>
             (case consume_challenge now challenge r of
                (False, r1) \<Rightarrow> (Reply 403 (RError ''bad challenge''), r1)
              | (True, r1) \<Rightarrow>
                  if b64ToBytes challenge = None then (Throws, r1)
                  else (Wait (challenge, attestationObject), r1))
         | _ \<Rightarrow> (Reply 400 (RError ''missing fields''), r)))"

text \<open>\<open>tv\<close> is the time the verification takes for now, \<open>now\<close> the time it has finished.\<close>

definition attestation_verdict :: "'a plat_scheme \<Rightarrow> env \<Rightarrow> int \<Rightarrow> ticket_wait \<Rightarrow> (bytes \<times> bytes) option" where
  "attestation_verdict P E tv w =
     (case w of (challenge, attestationObject) \<Rightarrow>
       case (clientDataHash P E challenge, b64ToBytes attestationObject) of
         (Some cdh, Some att) \<Rightarrow>
           (case verifyAttestation (as_attest_env P) att cdh (APP_ID E) (APPATTEST_ENV E) (APPATTEST_ROOT E) tv of
              Inl _ \<Rightarrow> None | Inr ok \<Rightarrow> Some ok)
       | _ \<Rightarrow> None)"

definition resumeAttest :: "'a plat_scheme \<Rightarrow> env \<Rightarrow> int \<Rightarrow> int \<Rightarrow> ticket_wait \<Rightarrow> room \<Rightarrow> nat \<times> reply_body \<times> room" where
  "resumeAttest P E tv now w r =
     (case attestation_verdict P E tv w of
        None \<Rightarrow> (403, RError ''attestation rejected'', r)
      | Some (keyId, publicKeyRaw) \<Rightarrow>
          (case draw P 24 r of (ticket, r1) \<Rightarrow>
             (200, RTicket ticket,
              ensureAlarm now (st_put (''ticket:'' @ ticket)
                (SRec (now + TICKET_TTL_MS) (Some (b64 keyId, b64 publicKeyRaw))) r1))))"

section \<open>Registration\<close>

definition finish_register :: "int \<Rightarrow> string \<Rightarrow> string \<Rightarrow> room \<Rightarrow> room" where
  "finish_register now key verifier r =
     bumpActivity now (st_put ''verifier'' (SStr verifier) (snd (st_delete key r)))"

definition handleRegister :: "env \<Rightarrow> int \<Rightarrow> jsval option \<Rightarrow> room \<Rightarrow> reg_wait outcome \<times> room" where
  "handleRegister E now body r =
     (case body of
        None \<Rightarrow> (Reply 400 (RError ''bad json''), r)
      | Some b \<Rightarrow>
        if b = JNull then (Throws, r)
        else (case as_string (jprop b ''verifier'') of
           None \<Rightarrow> (Reply 400 (RError ''missing verifier''), r)
         | Some verifier \<Rightarrow>
           if established r then (Reply 403 (RError ''already registered''), r)
           else case as_string (jprop b ''registrationToken'') of
             None \<Rightarrow> (Reply 403 (RError ''token required''), r)
           | Some token \<Rightarrow>
             (case st_get (''regtoken:'' @ token) r of
                None \<Rightarrow> (Reply 403 (RError ''bad token''), r)
              | Some rec \<Rightarrow>
                  if expired now rec then (Reply 403 (RError ''bad token''), r)
                  else if \<not> attestationRequired E
                  then (Reply 200 ROk, finish_register now (''regtoken:'' @ token) verifier r)
                  else (case attest_of rec of
                    None \<Rightarrow> (Reply 403 (RError ''token not attested''), r)
                  | Some (kid, pub) \<Rightarrow>
                    if kid = [] \<or> pub = [] then (Reply 403 (RError ''token not attested''), r)
                    else case (as_string (jprop b ''challenge''), as_string (jprop b ''assertion'')) of
                      (Some challenge, Some assertion) \<Rightarrow>
                        (case consume_challenge now challenge r of
                           (False, r1) \<Rightarrow> (Reply 403 (RError ''bad challenge''), r1)
                         | (True, r1) \<Rightarrow>
                             if b64ToBytes challenge = None then (Throws, r1)
                             else (Wait (RegWait (''regtoken:'' @ token) kid pub verifier challenge assertion), r1))
                    | _ \<Rightarrow> (Reply 403 (RError ''assertion required''), r)))))"

definition assertion_verdict :: "'a plat_scheme \<Rightarrow> env \<Rightarrow> string \<Rightarrow> string \<Rightarrow> string \<Rightarrow> att_error + nat" where
  "assertion_verdict P E pub challenge assertion =
     (case (clientDataHash P E challenge, b64ToBytes assertion, b64ToBytes pub) of
        (Some cdh, Some asn, Some pk) \<Rightarrow> verifyAssertion (as_attest_env P) asn cdh pk (APP_ID E)
      | _ \<Rightarrow> Inl Uncaught)"

definition resumeRegister :: "'a plat_scheme \<Rightarrow> env \<Rightarrow> int \<Rightarrow> reg_wait \<Rightarrow> room \<Rightarrow> nat \<times> reply_body \<times> room" where
  "resumeRegister P E now w r =
     (case w of RegWait key kid pub verifier challenge assertion \<Rightarrow>
        (case assertion_verdict P E pub challenge assertion of
           Inl e \<Rightarrow> (403, RAssertionRejected e, r)
         | Inr counter \<Rightarrow>
             if (case st_get (''assertcounter:'' @ kid) r of
                   Some (SNum lastCounter) \<Rightarrow> int counter \<le> lastCounter | _ \<Rightarrow> False)
             then (403, RError ''stale assertion'', r)
             else (200, ROk, finish_register now key verifier
                     (st_put ''registrantKeyId'' (SStr kid)
                       (st_put (''assertcounter:'' @ kid) (SNum (int counter)) r)))))"

section \<open>Deletion\<close>

definition handleDelete :: "env \<Rightarrow> int \<Rightarrow> string \<Rightarrow> jsval option \<Rightarrow> room \<Rightarrow> del_wait outcome \<times> room" where
  "handleDelete E now roomNm body r =
     (case body of
        None \<Rightarrow> (Reply 400 (RError ''bad json''), r)
      | Some b \<Rightarrow>
        if \<not> established r then (Reply 403 (RError ''not established''), r)
        else if b = JNull then (Throws, r)
        else case (as_string (jprop b ''challenge''), as_string (jprop b ''signature'')) of
          (Some challenge, Some sg) \<Rightarrow>
            (case consume_challenge now challenge r of
               (False, r1) \<Rightarrow> (Reply 403 (RError ''bad challenge''), r1)
             | (True, r1) \<Rightarrow>
                 (case deleteTranscript challenge roomNm (RELAY_ORIGIN E) of
                    None \<Rightarrow> (Throws, r1)
                  | Some tr \<Rightarrow> (Wait (DelWait sg tr (verifier_string (st_get ''verifier'' r))), r1)))
        | _ \<Rightarrow> (Reply 403 (RError ''signature required''), r))"

definition resumeDelete :: "'a plat_scheme \<Rightarrow> del_wait \<Rightarrow> room \<Rightarrow> nat \<times> reply_body \<times> room" where
  "resumeDelete P w r =
     (case w of DelWait sg tr verifier \<Rightarrow>
        if \<not> verifyJoin P sg tr verifier then (403, RError ''bad signature'', r)
        else (200, ROk, teardownRoom ''room deleted'' r))"

section \<open>Routing\<close>

datatype http_wait = WAttest ticket_wait | WRegister reg_wait | WDelete del_wait

definition outcome_map :: "('w \<Rightarrow> 'v) \<Rightarrow> 'w outcome \<times> room \<Rightarrow> 'v outcome \<times> room" where
  "outcome_map f x = (case x of (oc, r) \<Rightarrow>
     ((case oc of Reply n b \<Rightarrow> Reply n b | Throws \<Rightarrow> Throws | Wait w \<Rightarrow> Wait (f w)), r))"

definition handleHttp ::
  "'a plat_scheme \<Rightarrow> env \<Rightarrow> int \<Rightarrow> string \<Rightarrow> string \<Rightarrow> string \<Rightarrow> jsval option \<Rightarrow> room \<Rightarrow> http_wait outcome \<times> room" where
  "handleHttp P E now meth pathname roomNm body r =
     (if meth = ''POST'' \<and> pathname = ''/register'' then outcome_map WRegister (handleRegister E now body r)
      else if meth = ''POST'' \<and> pathname = ''/attest/challenge''
      then (case handleAttestChallenge P now r of (status, b, r1) \<Rightarrow> (Reply status b, r1))
      else if meth = ''POST'' \<and> pathname = ''/attest'' then outcome_map WAttest (handleAttest E now body r)
      else if meth = ''POST'' \<and> pathname = ''/delete'' then outcome_map WDelete (handleDelete E now roomNm body r)
      else (Reply 501 RNotImplemented, r))"

definition resumeHttp :: "'a plat_scheme \<Rightarrow> env \<Rightarrow> int \<Rightarrow> int \<Rightarrow> http_wait \<Rightarrow> room \<Rightarrow> nat \<times> reply_body \<times> room" where
  "resumeHttp P E tv now w r =
     (case w of WAttest x \<Rightarrow> resumeAttest P E tv now x r
      | WRegister x \<Rightarrow> resumeRegister P E now x r
      | WDelete x \<Rightarrow> resumeDelete P x r)"

section \<open>Sweeping expired records\<close>

lemma delete_filter: "snd (kv_delete k st) = filter (\<lambda>p. fst p \<noteq> k) st"
  by (auto simp: kv_delete_def AList.delete_eq intro!: filter_cong)

lemma sweep_fold:
  "fold (\<lambda>(k, rec) (live, r). if expired now rec then (live, snd (st_delete k r)) else (live + 1, r)) xs (n, r)
    = (n + length (filter (\<lambda>(k, v). \<not> expired now v) xs),
       r\<lparr>db := filter (\<lambda>p. fst p \<notin> fst ` set (filter (\<lambda>(k, v). expired now v) xs)) (db r)\<rparr>)"
proof (induction xs arbitrary: n r)
  case (Cons x xs)
  obtain k v where x: "x = (k, v)" by (cases x)
  have del: "snd (st_delete k r) = r\<lparr>db := filter (\<lambda>p. fst p \<noteq> k) (db r)\<rparr>"
    by (simp add: st_delete_def delete_filter split: prod.split) (metis delete_filter snd_conv)
  have "filter (\<lambda>p. fst p \<notin> S) (filter (\<lambda>p. fst p \<noteq> k) (db r)) = filter (\<lambda>p. fst p \<notin> insert k S) (db r)" for S
    by (auto intro!: filter_cong)
  then show ?case by (simp add: Cons.IH x del)
qed simp

lemma expired_keys:
  assumes "kv_ok st" "(k, v) \<in> set st"
  shows "k \<in> fst ` set (filter (\<lambda>(k, v). expired now v) (kv_list p st)) \<longleftrightarrow> ci_prefix p k \<and> expired now v"
proof -
  have "kv_get k st = Some v" using assms by (simp add: kv_ok_def kv_get_def)
  with assms(1) show ?thesis by (force simp: kv.listing_get)
qed

definition swept :: "int \<Rightarrow> string \<Rightarrow> room \<Rightarrow> room" where
  "swept now p r = r\<lparr>db := filter (\<lambda>(k, v). \<not> (ci_prefix p k \<and> expired now v)) (db r)\<rparr>"

lemma live_and_expired_db:
  assumes "kv_ok (db r)"
  shows "live_and_expired now p r
    = (length (filter (\<lambda>(k, v). ci_prefix p k \<and> \<not> expired now v) (db r)), swept now p r)"
proof -
  have "filter (\<lambda>q. fst q \<notin> fst ` set (filter (\<lambda>(k, v). expired now v) (kv_list p (db r)))) (db r)
      = filter (\<lambda>(k, v). \<not> (ci_prefix p k \<and> expired now v)) (db r)"
  proof (rule filter_cong [OF refl])
    fix q assume "q \<in> set (db r)"
    then obtain k v where q: "q = (k, v)" "(k, v) \<in> set (db r)" by (metis surj_pair)
    show "(fst q \<notin> fst ` set (filter (\<lambda>(k, v). expired now v) (kv_list p (db r))))
        = (case q of (k, v) \<Rightarrow> \<not> (ci_prefix p k \<and> expired now v))"
      unfolding q(1) fst_conv case_prod_conv expired_keys [OF assms q(2)] by simp
  qed
  moreover have "length (filter (\<lambda>(k, v). \<not> expired now v) (kv_list p (db r)))
      = length (filter (\<lambda>(k, v). ci_prefix p k \<and> \<not> expired now v) (db r))"
    by (simp add: kv_list_def like_prefix_ci filter_sort split_def conj_commute)
  ultimately show ?thesis
    unfolding live_and_expired_def sweep_fold by (simp add: swept_def)
qed

lemma swept_simps [simp]:
  "socks (swept now p r) = socks r" "atts (swept now p r) = atts r" "outs (swept now p r) = outs r"
  "closeRecvd (swept now p r) = closeRecvd r" "srvClosed (swept now p r) = srvClosed r"
  "alarmRow (swept now p r) = alarmRow r" "timer (swept now p r) = timer r" "draws (swept now p r) = draws r"
  by (simp_all add: swept_def)

lemma swept_ok: "kv_ok (db r) \<Longrightarrow> kv_ok (db (swept now p r))"
  by (simp add: swept_def kv_ok_def distinct_map_filter_fst)

text \<open>The records a prefix selects.\<close>

definition records :: "string \<Rightarrow> room \<Rightarrow> (string \<times> sval) list" where
  "records p r = filter (\<lambda>(k, v). ci_prefix p k) (db r)"

lemma length_records_put: "length (records p (st_put k v r)) \<le> length (records p r) + 1"
proof -
  have "length (filter (\<lambda>(k, v). ci_prefix p k) (AList.update k v st))
      \<le> length (filter (\<lambda>(k, v). ci_prefix p k) st) + 1" for st :: "sval kvs"
    by (induction st) auto
  then show ?thesis by (simp add: records_def kv_put_def)
qed

text \<open>
  The challenge endpoint cannot fill the store: whatever challenges are outstanding, after a
  request that is granted at most 16 challenge records exist and none of them has expired; a
  request that finds 16 live ones is refused and adds nothing.
\<close>

theorem challenge_cap:
  assumes "distinct (map fst (db r))"
  shows "case handleAttestChallenge P now r of (status, body, r') \<Rightarrow>
    (status = 200 \<longrightarrow> length (records ''attestchallenge:'' r') \<le> 16)
    \<and> (status \<noteq> 200 \<longrightarrow> status = 429 \<and> 16 \<le> length (records ''attestchallenge:'' r')
         \<and> set (db r') \<subseteq> set (db r))
    \<and> (\<forall>(k, v) \<in> set (records ''attestchallenge:'' r'). \<not> expired now v)"
proof -
  let ?p = "''attestchallenge:''"
  let ?live = "filter (\<lambda>(k, v). ci_prefix ?p k \<and> \<not> expired now v) (db r)"
  let ?r = "swept now ?p r"
  have rec: "records ?p ?r = ?live"
    by (auto simp: records_def swept_def intro!: filter_cong)
  have sub: "set (db ?r) \<subseteq> set (db r)" by (auto simp: swept_def)
  have ok: "kv_ok (db r)" using assms by (simp add: kv_ok_def)
  have n: "\<not> expired now (SRec (now + ATTEST_CHALLENGE_TTL_MS) None)" by (simp add: ATTEST_CHALLENGE_TTL_MS_def)
  show ?thesis
  proof (cases "length ?live \<ge> MAX_OUTSTANDING_CHALLENGES")
    case True
    then show ?thesis
      using sub by (auto simp: handleAttestChallenge_def live_and_expired_db [OF ok] rec MAX_OUTSTANDING_CHALLENGES_def)
  next
    case False
    let ?c = "b64 (p_random P (draws r) NONCE_BYTES)"
    let ?r2 = "st_put (?p @ ?c) (SRec (now + ATTEST_CHALLENGE_TTL_MS) None) ?r"
    have "records ?p (ensureAlarm now (st_put k v (r'\<lparr>draws := d\<rparr>))) = records ?p (st_put k v r')" for k v r' d
      by (simp add: records_def)
    with False have h: "handleAttestChallenge P now r = (200, RChallenge ?c,
        ensureAlarm now (st_put (?p @ ?c) (SRec (now + ATTEST_CHALLENGE_TTL_MS) None) (?r\<lparr>draws := draws r + 1\<rparr>)))"
      by (simp add: handleAttestChallenge_def live_and_expired_db [OF ok] draw_def)
    have "length (records ?p ?r2) \<le> 16"
      using length_records_put [of ?p "?p @ ?c" "SRec (now + ATTEST_CHALLENGE_TTL_MS) None" ?r] False rec
      by (simp add: MAX_OUTSTANDING_CHALLENGES_def)
    moreover have "\<not> expired now v" if "(k, v) \<in> set (records ?p ?r2)" for k v
    proof -
      have "set (AList.update k' v' st) \<subseteq> insert (k', v') (set st)" for k' v' and st :: "sval kvs"
        by (induction st) auto
      with that have "(k, v) = (?p @ ?c, SRec (now + ATTEST_CHALLENGE_TTL_MS) None) \<or> (k, v) \<in> set (records ?p ?r)"
        by (auto simp: records_def kv_put_def)
      with n rec show ?thesis by auto
    qed
    ultimately show ?thesis
      unfolding h by (auto simp: records_def)
  qed
qed

theorem challenge_cap_witness:
  "case handleAttestChallenge demo_plat 9 demo_room of (status, body, r') \<Rightarrow>
    (status = 200 \<longrightarrow> length (records ''attestchallenge:'' r') \<le> 16)
    \<and> (status \<noteq> 200 \<longrightarrow> status = 429 \<and> 16 \<le> length (records ''attestchallenge:'' r')
         \<and> set (db r') \<subseteq> set (db demo_room))
    \<and> (\<forall>(k, v) \<in> set (records ''attestchallenge:'' r'). \<not> expired 9 v)"
  by (rule challenge_cap) (simp add: demo_room_def empty_room_def)

section \<open>Single-use challenges\<close>

lemma consume_challenge_True:
  assumes "consume_challenge now c r = (True, r1)"
  shows "\<exists>rec. st_get (''attestchallenge:'' @ c) r = Some rec \<and> \<not> expired now rec"
    "st_get k r1 = (if k = ''attestchallenge:'' @ c then None else st_get k r)"
    "r1 = snd (st_delete (''attestchallenge:'' @ c) r)"
  using assms by (auto simp: consume_challenge_def split: option.splits if_splits)

lemma consume_challenge_False: "consume_challenge now c r = (False, r1) \<Longrightarrow> r1 = r"
  by (auto simp: consume_challenge_def split: option.splits if_splits)

lemma handleAttest_Wait:
  assumes "handleAttest E now body r = (Wait (c, obj), r1)"
  shows "consume_challenge now c r = (True, r1) \<and> b64ToBytes c \<noteq> None"
  using assms by (auto simp: handleAttest_def split: option.splits if_splits prod.splits bool.splits)

lemma handleRegister_Wait:
  assumes "handleRegister E now body r = (Wait (RegWait key kid pub v c asn), r1)"
  shows "consume_challenge now c r = (True, r1) \<and> \<not> established r
    \<and> (\<exists>token e. key = ''regtoken:'' @ token \<and> st_get key r = Some (SRec e (Some (kid, pub))) \<and> now \<le> e)"
proof -
  have rec: "\<exists>e. rec = SRec e (Some a) \<and> now \<le> e" if "\<not> expired now rec" "attest_of rec = Some a" for rec a
    using that by (cases rec) auto
  show ?thesis
    using assms
    by (auto simp: handleRegister_def dest!: rec split: option.splits if_splits prod.splits bool.splits)
qed

lemma handleDelete_Wait:
  assumes "handleDelete E now nm body r = (Wait (DelWait sg tr v), r1)"
  shows "\<exists>b c. body = Some b \<and> as_string (jprop b ''challenge'') = Some c \<and> as_string (jprop b ''signature'') = Some sg
    \<and> consume_challenge now c r = (True, r1) \<and> established r
    \<and> deleteTranscript c nm (RELAY_ORIGIN E) = Some tr \<and> v = verifier_string (st_get ''verifier'' r)"
  using assms by (auto simp: handleDelete_def split: option.splits if_splits prod.splits bool.splits)

text \<open>The challenge was stored and alive in \<open>r\<close> and is gone in \<open>r1\<close>.\<close>

definition spent :: "int \<Rightarrow> string \<Rightarrow> room \<Rightarrow> room \<Rightarrow> bool" where
  "spent now c r r1 \<longleftrightarrow> (\<exists>rec. st_get (''attestchallenge:'' @ c) r = Some rec \<and> \<not> expired now rec)
     \<and> st_get (''attestchallenge:'' @ c) r1 = None"

lemma consume_spent: "consume_challenge now c r = (True, r1) \<Longrightarrow> spent now c r r1"
  using consume_challenge_True(1,2) unfolding spent_def by fastforce

text \<open>
  No challenge is verified against twice: whichever of the three endpoints (attest, register,
  delete) gets as far as verifying something for a challenge, the challenge was stored and alive,
  and it is gone before the verification starts, whatever the verification will say.
\<close>

theorem challenge_single_use:
  "(case handleAttest E now body r of (Wait (c, obj), r1) \<Rightarrow> spent now c r r1 | _ \<Rightarrow> True)
   \<and> (case handleRegister E now body r of
        (Wait (RegWait key kid pub v c asn), r1) \<Rightarrow> spent now c r r1 | _ \<Rightarrow> True)
   \<and> (case handleDelete E now nm body r of
        (Wait w, r1) \<Rightarrow> (\<exists>c. as_string (jprop (the body) ''challenge'') = Some c \<and> spent now c r r1) | _ \<Rightarrow> True)"
proof (intro conjI)
  show "case handleAttest E now body r of (Wait (c, obj), r1) \<Rightarrow> spent now c r r1 | _ \<Rightarrow> True"
    by (auto split: prod.split outcome.split dest!: handleAttest_Wait intro: consume_spent)
  show "case handleRegister E now body r of
      (Wait (RegWait key kid pub v c asn), r1) \<Rightarrow> spent now c r r1 | _ \<Rightarrow> True"
    by (auto split: prod.split outcome.split reg_wait.split dest!: handleRegister_Wait intro: consume_spent)
  have "\<exists>c. as_string (jprop (the body) ''challenge'') = Some c \<and> spent now c r r1"
    if "handleDelete E now nm body r = (Wait w, r1)" for w r1
    using that by (cases w) (force dest!: handleDelete_Wait intro: consume_spent)
  then show "case handleDelete E now nm body r of
      (Wait w, r1) \<Rightarrow> (\<exists>c. as_string (jprop (the body) ''challenge'') = Some c \<and> spent now c r r1) | _ \<Rightarrow> True"
    by (auto split: prod.split outcome.split)
qed

section \<open>Registration\<close>

lemma register_established:
  "established r \<Longrightarrow> \<exists>st e. handleRegister E now body r = (Reply st (RError e), r)
     \<or> handleRegister E now body r = (Throws, r)"
  by (auto simp: handleRegister_def split: option.split)

lemma finish_register_get:
  "st_get k (finish_register now key v r) =
     (if k = ''lastActivity'' then Some (SNum now) else if k = ''verifier'' then Some (SStr v)
      else if k = key then None else st_get k r)"
  by (simp add: finish_register_def st_get_def kv.get_put kv.get_del)

text \<open>
  First registration wins: in an established room a registration request changes nothing and
  never succeeds; otherwise it succeeds only with a stored, unexpired registration token, which is
  spent, and the room then holds exactly the verifier that was sent, with its idle clock started.
\<close>

theorem register_first_wins:
  "(case handleRegister E now body r of
      (Reply st reply, r') \<Rightarrow>
        if st = 200
        then \<not> established r \<and> \<not> attestationRequired E \<and>
          (\<exists>b v token rec. body = Some b \<and> as_string (jprop b ''verifier'') = Some v
            \<and> as_string (jprop b ''registrationToken'') = Some token
            \<and> st_get (''regtoken:'' @ token) r = Some rec \<and> \<not> expired now rec
            \<and> st_get (''regtoken:'' @ token) r' = None \<and> st_get ''verifier'' r' = Some (SStr v)
            \<and> st_get ''lastActivity'' r' = Some (SNum now))
        else st_get ''verifier'' r' = st_get ''verifier'' r
    | (Wait w, r') \<Rightarrow> \<not> established r \<and> attestationRequired E \<and> st_get ''verifier'' r' = st_get ''verifier'' r
    | (Throws, r') \<Rightarrow> st_get ''verifier'' r' = st_get ''verifier'' r)"
proof -
  have ver: "st_get ''verifier'' r1 = st_get ''verifier'' r" if "consume_challenge now c r = (b, r1)" for c b r1
    using that by (auto simp: consume_challenge_def split: option.splits if_splits)
  show ?thesis
    by (auto simp: handleRegister_def finish_register_get dest: ver
        split: option.split if_splits prod.split bool.split)
qed

text \<open>What a registration that passed the assertion check leaves behind.\<close>

definition assert_counter :: "string \<Rightarrow> room \<Rightarrow> sval option" where
  "assert_counter kid r = st_get (''assertcounter:'' @ kid) r"

text \<open>
  Attested registration: a waiting registration succeeds only if the assertion verifies under
  the key the ticket was attested with and its sign count is larger than the last one stored for
  that key; then the count is stored, so the sequence of counts is strictly increasing, the
  attested key is recorded as the registrant, and the token is spent. Otherwise nothing changes.
\<close>

theorem attested_register_counter:
  "(case resumeRegister P E now (RegWait (''regtoken:'' @ token) kid pub v c asn) r of
      (st, reply, r') \<Rightarrow>
        if st = 200
        then (\<exists>n. assertion_verdict P E pub c asn = Inr n
          \<and> (case assert_counter kid r of Some (SNum m) \<Rightarrow> m < int n | _ \<Rightarrow> True)
          \<and> assert_counter kid r' = Some (SNum (int n)) \<and> st_get ''registrantKeyId'' r' = Some (SStr kid)
          \<and> st_get (''regtoken:'' @ token) r' = None \<and> st_get ''verifier'' r' = Some (SStr v))
        else r' = r)"
  by (auto simp: resumeRegister_def assert_counter_def finish_register_get split: sum.split option.split sval.split)

text \<open>
  The check for an existing verifier is made before the verification and not repeated after it: of
  two registrations that wait at the same time, the one that resumes last replaces the verifier.
\<close>

lemma register_race_overwrites:
  assumes "established r" "assertion_verdict P E pub c asn = Inr n"
    "case assert_counter kid r of Some (SNum m) \<Rightarrow> m < int n | _ \<Rightarrow> True"
  shows "st_get ''verifier'' (snd (snd (resumeRegister P E now (RegWait key kid pub v c asn) r))) = Some (SStr v)"
  using assms by (simp add: resumeRegister_def assert_counter_def finish_register_get split: option.splits sval.splits)

text \<open>An empty verifier is registered with success but leaves the room not established.\<close>

lemma register_empty_verifier:
  "\<not> established (finish_register now key [] r)"
  by (simp add: established_def finish_register_get)

section \<open>Attestation and deletion\<close>

text \<open>
  Tickets come from attestations only: a ticket is minted exactly when the attestation
  verifies for the application, environment and root of the configuration against the hash of the
  consumed challenge and the relay's origin, and it carries the attested key and expires in five
  minutes. A rejected attestation changes nothing.
\<close>

theorem ticket_needs_attestation:
  "(case resumeAttest P E tv now (c, obj) r of
      (st, reply, r') \<Rightarrow>
        if st = 200
        then (\<exists>ch att kid pub ticket. b64ToBytes c = Some ch \<and> b64ToBytes obj = Some att
          \<and> verifyAttestation (as_attest_env P) att
              (ae_sha256 P (canonicalEncode ''iterm2-relay-attest'' [ch, utf8_encode (RELAY_ORIGIN E)]))
              (APP_ID E) (APPATTEST_ENV E) (APPATTEST_ROOT E) tv = Inr (kid, pub)
          \<and> reply = RTicket ticket
          \<and> st_get (''ticket:'' @ ticket) r' = Some (SRec (now + 300000) (Some (b64 kid, b64 pub))))
        else st = 403 \<and> r' = r)"
  by (auto simp: resumeAttest_def attestation_verdict_def clientDataHash_def draw_def st_get_def kv.get_put
      TICKET_TTL_MS_def split: option.split sum.split option.splits)


definition demo_established :: room where
  "demo_established = st_put ''attestchallenge:AAAA'' (SRec 50 None) (st_put ''verifier'' (SStr ''VVVV'') demo_room)"


end
