(* ===== verification/RoomMachine.thy ===== *)
theory RoomMachine
  imports RoomHttp
begin

text \<open>
  A room under its host: accepting sockets, the housekeeping alarm, the per-socket chain that
  serialises a socket's handlers, and the machine whose steps are the events that can reach a
  room. A step is what runs without another event in between: a handler up to a call of WebCrypto,
  or the continuation behind one together with the jobs that were queued on the same socket.
\<close>

section \<open>Upgrade\<close>

text \<open>First half of \<open>handleUpgrade\<close>: the socket becomes routable and is waiting for a hello.\<close>

definition acceptUpgrade :: "sid \<Rightarrow> string \<Rightarrow> int \<Rightarrow> room \<Rightarrow> room" where
  "acceptUpgrade ws nm now r =
     put_att ws \<lparr>ph = Hello, roomName = Some nm, tag = None, connectedAt = Some now\<rparr>
       (r\<lparr>socks := (if ws \<in> set (socks r) then socks r else socks r @ [ws])\<rparr>)"

definition connect_key :: "room \<Rightarrow> sid \<Rightarrow> int" where
  "connect_key r s = (case atts r s of Some a \<Rightarrow> (case connectedAt a of Some t \<Rightarrow> t | None \<Rightarrow> 0) | None \<Rightarrow> 0)"

text \<open>\<open>a && a.state !== "admitted"\<close>.\<close>

definition pre_auth :: "room \<Rightarrow> sid \<Rightarrow> bool" where
  "pre_auth r s \<longleftrightarrow> atts r s \<noteq> None \<and> \<not> is_admitted r s"

definition preauth_socks :: "room \<Rightarrow> sid list" where
  "preauth_socks r = filter (pre_auth r) (socks r)"

definition evictExcessPreAuth :: "room \<Rightarrow> room" where
  "evictExcessPreAuth r =
     (let preAuth = sort_key (connect_key r) (preauth_socks r)
      in close_all (take (length preAuth - MAX_PREAUTH_SOCKETS) preAuth) 1008 ''too many pending'' r)"

text \<open>Second half, once the log tag has been hashed.\<close>

definition finishUpgrade :: "sid \<Rightarrow> string \<Rightarrow> int \<Rightarrow> room \<Rightarrow> room" where
  "finishUpgrade ws tg now r =
     (let r1 = (case atts r ws of
                  Some a \<Rightarrow> if tag a = None then put_att ws (a\<lparr>tag := Some tg\<rparr>) r else r
                | None \<Rightarrow> r)
      in ensureAlarm now (evictExcessPreAuth r1))"

section \<open>The alarm\<close>

definition timed_out :: "int \<Rightarrow> room \<Rightarrow> sid \<Rightarrow> bool" where
  "timed_out now r s \<longleftrightarrow> pre_auth r s
     \<and> (case connectedAt (the (atts r s)) of Some t \<Rightarrow> t \<noteq> 0 \<and> now - t > PREAUTH_DEADLINE_MS | None \<Rightarrow> False)"

definition sweepPreAuth :: "int \<Rightarrow> room \<Rightarrow> nat \<times> room" where
  "sweepPreAuth now r =
     (length (filter (\<lambda>s. pre_auth r s \<and> \<not> timed_out now r s) (socks r)),
      close_all (filter (timed_out now r) (socks r)) 1008 ''admission timeout'' r)"

definition pruneExpired :: "int \<Rightarrow> room \<Rightarrow> nat \<times> room" where
  "pruneExpired now r =
     fold (\<lambda>prefix (live, r). case live_and_expired now prefix r of (n, r') \<Rightarrow> (live + n, r')) EPHEMERAL_PREFIXES (0, r)"

text \<open>When the room was last used: a room with no timestamp starts its window now.\<close>

definition last_activity :: "int \<Rightarrow> room \<Rightarrow> int \<times> room" where
  "last_activity now r =
     (case st_get ''lastActivity'' r of
        Some (SNum t) \<Rightarrow> (t, r)
      | _ \<Rightarrow> (now, st_put ''lastActivity'' (SNum now) r))"

definition reschedule :: "int \<Rightarrow> bool \<Rightarrow> int option \<Rightarrow> room \<Rightarrow> room" where
  "reschedule now work idleDeadline r =
     (let next = (if work then Some (now + HOUSEKEEPING_INTERVAL_MS) else None);
          next' = (case idleDeadline of None \<Rightarrow> next
                   | Some d \<Rightarrow> (case next of None \<Rightarrow> Some d | Some n \<Rightarrow> Some (min n d)))
      in case next' of None \<Rightarrow> r | Some t \<Rightarrow> setAlarm t r)"

definition alarm :: "env \<Rightarrow> int \<Rightarrow> room \<Rightarrow> room" where
  "alarm E now r0 =
     (case sweepPreAuth now r0 of (pendingPreAuth, r1) \<Rightarrow>
      case pruneExpired now r1 of (remainingEphemeral, r2) \<Rightarrow>
        (let work = (pendingPreAuth > 0 \<or> remainingEphemeral > 0)
         in if established r2
            then (case last_activity now r2 of (last_t, r3) \<Rightarrow>
                    let idleDeadline = last_t + establishedIdleTtlMs E
                    in if now \<ge> idleDeadline then teardownRoom ''room expired'' r3
                       else reschedule now work (Some idleDeadline) r3)
            else reschedule now work None r2))"

text \<open>The host fires the alarm: the armed time is cleared first, the stored one is not.\<close>

definition fireAlarm :: "env \<Rightarrow> int \<Rightarrow> room \<Rightarrow> room" where
  "fireAlarm E now r = alarm E now (r\<lparr>timer := None\<rparr>)"

section \<open>The machine\<close>

datatype job = JMsg message | JClose | JError

record machine =
  rm :: room
  waiting :: "sid \<Rightarrow> await option"
  queue :: "sid \<Rightarrow> job list"
  upgrading :: "sid list"
  https :: "http_wait list"

definition init :: machine where
  "init = \<lparr>rm = empty_room, waiting = (\<lambda>_. None), queue = (\<lambda>_. []), upgrading = [], https = []\<rparr>"

fun run_job :: "'a plat_scheme \<Rightarrow> env \<Rightarrow> int \<Rightarrow> sid \<Rightarrow> job \<Rightarrow> room \<Rightarrow> room \<times> await option" where
  "run_job P E now ws (JMsg msg) r = webSocketMessage P E now ws msg r"
| "run_job P E now ws JClose r = (webSocketClose ws r, None)"
| "run_job P E now ws JError r = (webSocketError ws r, None)"

text \<open>The per-socket chain: jobs run in order until one has to wait.\<close>

fun drain :: "'a plat_scheme \<Rightarrow> env \<Rightarrow> int \<Rightarrow> sid \<Rightarrow> job list \<Rightarrow> room \<Rightarrow> room \<times> await option \<times> job list" where
  "drain P E now ws [] r = (r, None, [])"
| "drain P E now ws (j # js) r =
     (case run_job P E now ws j r of
        (r1, None) \<Rightarrow> drain P E now ws js r1
      | (r1, Some aw) \<Rightarrow> (r1, Some aw, js))"

definition run_chain :: "'a plat_scheme \<Rightarrow> env \<Rightarrow> int \<Rightarrow> sid \<Rightarrow> job list \<Rightarrow> machine \<Rightarrow> machine" where
  "run_chain P E now ws js m =
     (case drain P E now ws js (rm m) of (r, w, rest) \<Rightarrow>
        m\<lparr>rm := r, waiting := (waiting m)(ws := w), queue := (queue m)(ws := rest)\<rparr>)"

definition dispatch :: "'a plat_scheme \<Rightarrow> env \<Rightarrow> int \<Rightarrow> sid \<Rightarrow> job \<Rightarrow> machine \<Rightarrow> machine" where
  "dispatch P E now ws j m =
     (if waiting m ws = None then run_chain P E now ws (queue m ws @ [j]) m
      else m\<lparr>queue := (queue m)(ws := queue m ws @ [j])\<rparr>)"

text \<open>
  The events: a socket is accepted, its tag is hashed, a frame or a close frame arrives, the
  transport reports the close or an error, a signature verification finishes, the armed time
  passes, a request arrives, the cryptography of a request finishes.
\<close>

datatype event =
    Accept sid string int
  | Tagged sid string int
  | Frame sid message int
  | CloseFrame sid nat string
  | Closed sid int
  | Failed sid int
  | Verified sid int
  | Timer int
  | Request string string string "jsval option" int
  | Finished nat int int

definition on_room :: "(room \<Rightarrow> room) \<Rightarrow> machine \<Rightarrow> machine" where
  "on_room f m = m\<lparr>rm := f (rm m)\<rparr>"

definition known :: "machine \<Rightarrow> sid \<Rightarrow> bool" where
  "known m s \<longleftrightarrow> atts (rm m) s \<noteq> None"

fun step :: "'a plat_scheme \<Rightarrow> env \<Rightarrow> event \<Rightarrow> machine \<Rightarrow> machine" where
  "step P E (Accept ws nm now) m =
     (if known m ws then m
      else on_room (acceptUpgrade ws nm now) m\<lparr>upgrading := ws # upgrading m\<rparr>)"
| "step P E (Tagged ws tg now) m =
     (if ws \<in> set (upgrading m)
      then on_room (finishUpgrade ws tg now) m\<lparr>upgrading := remove1 ws (upgrading m)\<rparr> else m)"
| "step P E (Frame ws msg now) m = (if known m ws then dispatch P E now ws (JMsg msg) m else m)"
| "step P E (CloseFrame ws code reason) m =
     (if known m ws
      then on_room (\<lambda>r. ws_close ws code reason (r\<lparr>closeRecvd := insert ws (closeRecvd r)\<rparr>)) m else m)"
| "step P E (Closed ws now) m =
     (if known m ws
      then (let m1 = on_room (\<lambda>r. r\<lparr>socks := removeAll ws (socks r)\<rparr>) m
            in if ws \<in> srvClosed (rm m) then m1 else dispatch P E now ws JClose m1)
      else m)"
| "step P E (Failed ws now) m = (if known m ws then dispatch P E now ws JError m else m)"
| "step P E (Verified ws now) m =
     (case waiting m ws of
        None \<Rightarrow> m
      | Some aw \<Rightarrow> run_chain P E now ws (queue m ws) (on_room (resumeProof P now ws aw) m))"
| "step P E (Timer now) m =
     (case timer (rm m) of
        Some t \<Rightarrow> if t \<le> now then on_room (fireAlarm E now) m else m
      | None \<Rightarrow> m)"
| "step P E (Request meth path nm body now) m =
     (case handleHttp P E now meth path nm body (rm m) of
        (Wait w, r) \<Rightarrow> m\<lparr>rm := r, https := https m @ [w]\<rparr>
      | (_, r) \<Rightarrow> m\<lparr>rm := r\<rparr>)"
| "step P E (Finished i tv now) m =
     (if i < length (https m)
      then (case resumeHttp P E tv now (https m ! i) (rm m) of
              (st, reply, r) \<Rightarrow> m\<lparr>rm := r, https := take i (https m) @ drop (Suc i) (https m)\<rparr>)
      else m)"

inductive reachable :: "'a plat_scheme \<Rightarrow> env \<Rightarrow> machine \<Rightarrow> bool" for P E where
  start: "reachable P E init"
| more: "reachable P E m \<Longrightarrow> reachable P E (step P E ev m)"

definition run_events :: "'a plat_scheme \<Rightarrow> env \<Rightarrow> event list \<Rightarrow> machine \<Rightarrow> machine" where
  "run_events P E evs m = fold (step P E) evs m"

section \<open>What the alarm achieves\<close>

definition ephemeral :: "string \<Rightarrow> bool" where
  "ephemeral k \<longleftrightarrow> (\<exists>p \<in> set EPHEMERAL_PREFIXES. ci_prefix p k)"

lemma pruneExpired_db:
  assumes "kv_ok (db r)"
  shows "\<exists>n. pruneExpired now r = (n, r\<lparr>db := filter (\<lambda>(k, v). \<not> (ephemeral k \<and> expired now v)) (db r)\<rparr>)
    \<and> (n > 0 \<longleftrightarrow> (\<exists>(k, v) \<in> set (db r). ephemeral k \<and> \<not> expired now v))"
proof -
  let ?a = "swept now ''ticket:'' r"
  let ?b = "swept now ''regtoken:'' ?a"
  let ?c = "swept now ''attestchallenge:'' ?b"
  let ?n = "\<lambda>p r. length (filter (\<lambda>(k, v). ci_prefix p k \<and> \<not> expired now v) (db r))"
  have ok: "kv_ok (db ?a)" "kv_ok (db ?b)" using assms by (simp_all add: swept_ok)
  have A: "pruneExpired now r = (?n ''ticket:'' r + ?n ''regtoken:'' ?a + ?n ''attestchallenge:'' ?b, ?c)"
    by (simp add: pruneExpired_def EPHEMERAL_PREFIXES_def live_and_expired_db [OF assms]
        live_and_expired_db [OF ok(1)] live_and_expired_db [OF ok(2)])
  have B: "?c = r\<lparr>db := filter (\<lambda>(k, v). \<not> (ephemeral k \<and> expired now v)) (db r)\<rparr>"
  proof -
    have "?c = r\<lparr>db := db ?c\<rparr>" by (simp add: swept_def)
    moreover have "db ?c = filter (\<lambda>(k, v). \<not> (ephemeral k \<and> expired now v)) (db r)"
      by (auto simp: swept_def ephemeral_def EPHEMERAL_PREFIXES_def intro!: filter_cong)
    ultimately show ?thesis by metis
  qed
  have "?n ''ticket:'' r + ?n ''regtoken:'' ?a + ?n ''attestchallenge:'' ?b > 0
      \<longleftrightarrow> (\<exists>(k, v) \<in> set (db r). ephemeral k \<and> \<not> expired now v)"
    by (auto simp: swept_def ephemeral_def EPHEMERAL_PREFIXES_def filter_empty_conv)
  then show ?thesis using A unfolding B by blast
qed

lemma pre_auth_cong: "atts r' = atts r \<Longrightarrow> pre_auth r' = pre_auth r"
  by (intro ext) (simp add: pre_auth_def is_admitted_def holds_atts)

lemma timed_out_cong: "atts r' = atts r \<Longrightarrow> timed_out now r' = timed_out now r"
  by (intro ext) (simp add: timed_out_def pre_auth_def is_admitted_def holds_atts)

text \<open>The room after both sweeps, and whether they leave work.\<close>

definition after_sweeps :: "int \<Rightarrow> room \<Rightarrow> room" where
  "after_sweeps now r = (close_all (filter (timed_out now r) (socks r)) 1008 ''admission timeout'' r)
     \<lparr>db := filter (\<lambda>(k, v). \<not> (ephemeral k \<and> expired now v)) (db r)\<rparr>"

definition work_left :: "room \<Rightarrow> bool" where
  "work_left r \<longleftrightarrow> preauth_socks r \<noteq> [] \<or> (\<exists>(k, v) \<in> set (db r). ephemeral k)"

lemma alarm_eq:
  assumes "kv_ok (db r)"
  shows "alarm E now r =
    (let r2 = after_sweeps now r
     in if established r2
        then (case last_activity now r2 of (last_t, r3) \<Rightarrow>
                if now \<ge> last_t + establishedIdleTtlMs E then teardownRoom ''room expired'' r3
                else reschedule now (work_left r2) (Some (last_t + establishedIdleTtlMs E)) r3)
        else reschedule now (work_left r2) None r2)"
proof -
  let ?r1 = "close_all (filter (timed_out now r) (socks r)) 1008 ''admission timeout'' r"
  have "kv_ok (db ?r1)" using assms by simp
  from pruneExpired_db [OF this, of now] obtain n where n:
    "pruneExpired now ?r1 = (n, after_sweeps now r)"
    "n > 0 \<longleftrightarrow> (\<exists>(k, v) \<in> set (db r). ephemeral k \<and> \<not> expired now v)"
    by (auto simp: after_sweeps_def)
  let ?p = "length (filter (\<lambda>s. pre_auth r s \<and> \<not> timed_out now r s) (socks r))"
  have pa: "pre_auth (after_sweeps now r) = pre_auth r" by (rule pre_auth_cong) (simp add: after_sweeps_def)
  have "filter (\<lambda>s. pre_auth r s \<and> \<not> timed_out now r s) (socks r) = preauth_socks (after_sweeps now r)"
    unfolding preauth_socks_def pa by (auto simp: after_sweeps_def intro!: filter_cong)
  then have "?p > 0 \<longleftrightarrow> preauth_socks (after_sweeps now r) \<noteq> []" by simp
  moreover have "(\<exists>(k, v) \<in> set (db r). ephemeral k \<and> \<not> expired now v)
      \<longleftrightarrow> (\<exists>(k, v) \<in> set (db (after_sweeps now r)). ephemeral k)"
    by (auto simp: after_sweeps_def)
  ultimately have w: "(?p > 0 \<or> n > 0) \<longleftrightarrow> work_left (after_sweeps now r)"
    by (simp add: work_left_def n(2))
  show ?thesis
    unfolding alarm_def sweepPreAuth_def prod.case n(1) w Let_def by simp
qed

lemma reschedule_simps [simp]:
  "socks (reschedule now w d r) = socks r" "atts (reschedule now w d r) = atts r" "db (reschedule now w d r) = db r"
  by (auto simp: reschedule_def Let_def split: option.split)

lemma last_activity_simps [simp]:
  "socks (snd (last_activity now r)) = socks r" "atts (snd (last_activity now r)) = atts r"
  "k \<noteq> ''lastActivity'' \<Longrightarrow> st_get k (snd (last_activity now r)) = st_get k r"
  by (auto simp: last_activity_def split: option.split sval.split)

lemma not_ephemeral: "\<not> ephemeral ''verifier''" "\<not> ephemeral ''lastActivity''" "\<not> ephemeral ''pairingCycles''"
  by code_simp+

lemma after_sweeps_simps [simp]:
  "socks (after_sweeps now r) = filter (\<lambda>s. \<not> timed_out now r s) (socks r)"
  "atts (after_sweeps now r) = atts r" "alarmRow (after_sweeps now r) = alarmRow r" "timer (after_sweeps now r) = timer r"
  by (auto simp: after_sweeps_def intro!: filter_cong)

lemma after_sweeps_get:
  "kv_ok (db r) \<Longrightarrow> \<not> ephemeral k \<Longrightarrow> st_get k (after_sweeps now r) = st_get k r"
  by (auto simp: after_sweeps_def st_get_def kv_get_def kv_ok_def map_of_filter_distinct split: option.split)

lemma set_kv_put: "set (kv_put k v st) \<subseteq> insert (k, v) (set st)"
  unfolding kv_put_def by (induction st) auto

lemma work_left_frame:
  assumes "atts r' = atts r" "socks r' = socks r" "fst ` set (db r') \<union> {''lastActivity''} = fst ` set (db r) \<union> {''lastActivity''}"
  shows "work_left r' = work_left r"
proof -
  have keys: "(\<exists>(k, v) \<in> set d. ephemeral k) \<longleftrightarrow> (\<exists>k \<in> fst ` set d \<union> {''lastActivity''}. ephemeral k)"
    for d :: "sval kvs"
    using not_ephemeral(2) by force
  have "preauth_socks r' = preauth_socks r"
    using assms(1,2) pre_auth_cong [of r' r] by (simp add: preauth_socks_def)
  then show ?thesis
    unfolding work_left_def keys assms(3) by simp
qed

lemma last_activity_db:
  "db (snd (last_activity now r)) = db r \<or> db (snd (last_activity now r)) = kv_put ''lastActivity'' (SNum now) (db r)"
  by (auto simp: last_activity_def split: option.split sval.split)

lemma reschedule_armed:
  "w \<Longrightarrow> \<exists>t \<le> now + 15000. timer (reschedule now w d r) = Some t \<and> alarmRow (reschedule now w d r) = Some t"
  "\<exists>t \<le> d'. timer (reschedule now w (Some d') r) = Some t \<and> alarmRow (reschedule now w (Some d') r) = Some t"
  by (auto simp: reschedule_def Let_def HOUSEKEEPING_INTERVAL_MS_def split: option.split)

text \<open>
  Housekeeping does its job: after the alarm has run, either the room has been reaped, which
  happens exactly to an established room unused for its idle time, or no live socket is past the
  admission deadline, no expired ticket, token or challenge is stored, admitted sockets are all
  still there, and the alarm is armed again whenever a pre-admission socket, a single-use record
  or an established room remains, at the latest 15 seconds from now for the first two. The
  hypothesis is the primary key of the store.
\<close>

theorem alarm_housekeeping:
  assumes "distinct (map fst (db r))"
  shows "let r' = alarm E now r; swept_room = after_sweeps now r;
      last_t = fst (last_activity now swept_room)
    in if established r \<and> now \<ge> last_t + establishedIdleTtlMs E
       then socks r' = [] \<and> db r' = [] \<and> alarmRow r' = None \<and> timer r' = None
       else (\<forall>s \<in> set (socks r'). \<not> timed_out now r' s)
         \<and> (\<forall>(k, v) \<in> set (db r'). \<not> (ephemeral k \<and> expired now v))
         \<and> (\<forall>s \<in> set (socks r). is_admitted r s \<longrightarrow> s \<in> set (socks r') \<and> is_admitted r' s)
         \<and> (work_left r' \<longrightarrow> (\<exists>t \<le> now + 15000. timer r' = Some t \<and> alarmRow r' = Some t))
         \<and> (established r' \<longrightarrow> (\<exists>t \<le> last_t + establishedIdleTtlMs E. timer r' = Some t \<and> alarmRow r' = Some t))"
proof -
  have ok: "kv_ok (db r)" using assms by (simp add: kv_ok_def)
  let ?s = "after_sweeps now r" and ?d = "fst (last_activity now (after_sweeps now r)) + establishedIdleTtlMs E"
  let ?l = "snd (last_activity now ?s)" and ?r' = "alarm E now r"
  have est: "established ?s = established r" "established ?l = established r"
    by (simp_all add: established_def after_sweeps_get [OF ok] not_ephemeral)
  have clean: "\<forall>(k, v) \<in> set (db ?s). \<not> (ephemeral k \<and> expired now v)" by (auto simp: after_sweeps_def)
  have clean_l: "\<forall>(k, v) \<in> set (db ?l). \<not> (ephemeral k \<and> expired now v)"
    using last_activity_db [of now ?s] clean set_kv_put [of "''lastActivity''" "SNum now" "db ?s"] not_ephemeral(2) by auto
  have wl: "work_left ?l = work_left ?s"
  proof (rule work_left_frame)
    show "fst ` set (db ?l) \<union> {''lastActivity''} = fst ` set (db ?s) \<union> {''lastActivity''}"
      using last_activity_db [of now ?s] by (elim disjE) (simp_all add: kv_put_def dom_update)
  qed simp_all
  note eq = alarm_eq [OF ok, of E now, unfolded Let_def est case_prod_beta]
  show ?thesis
  proof (cases "established r \<and> now \<ge> ?d")
    case True
    then have "?r' = teardownRoom ''room expired'' ?l" unfolding eq by simp
    with True show ?thesis by (simp add: Let_def)
  next
    case False
    define x where "x = (if established r then ?l else ?s)"
    define dl where "dl = (if established r then Some ?d else None)"
    have r': "?r' = reschedule now (work_left ?s) dl x"
      unfolding eq using False by (simp add: x_def dl_def)
    have x: "socks x = socks ?s" "atts x = atts r" "established x = established r" "work_left x = work_left ?s"
      "\<forall>(k, v) \<in> set (db x). \<not> (ephemeral k \<and> expired now v)"
      using est wl clean clean_l by (simp_all add: x_def)
    have r'_atts: "atts ?r' = atts r" "socks ?r' = filter (\<lambda>s. \<not> timed_out now r s) (socks r)" "db ?r' = db x"
      by (simp_all add: r' x)
    have w: "work_left ?r' = work_left ?s"
      using x work_left_frame [of ?r' x] r'_atts by simp
    have e: "established ?r' = established r" using r'_atts(3) x(3) by (simp add: established_def st_get_def)
    have "\<forall>s \<in> set (socks r). is_admitted r s \<longrightarrow> s \<in> set (socks ?r') \<and> is_admitted ?r' s"
      using r'_atts by (auto simp: is_admitted_def holds_atts timed_out_def pre_auth_def)
    moreover have "\<forall>s \<in> set (socks ?r'). \<not> timed_out now ?r' s"
      using r'_atts timed_out_cong [of ?r' r now] by simp
    moreover have "work_left ?r' \<longrightarrow> (\<exists>t \<le> now + 15000. timer ?r' = Some t \<and> alarmRow ?r' = Some t)"
      unfolding w unfolding r' using reschedule_armed(1) by blast
    moreover have "established ?r' \<longrightarrow> (\<exists>t \<le> ?d. timer ?r' = Some t \<and> alarmRow ?r' = Some t)"
      unfolding e unfolding r' dl_def using reschedule_armed(2) by simp
    ultimately show ?thesis
      unfolding Let_def if_not_P [OF False] using x(5) r'_atts(3) by simp
  qed
qed

text \<open>A live pre-admission socket that came 20 seconds ago, an expired ticket and a live one.\<close>

definition demo_sweep_room :: room where
  "demo_sweep_room = demo_room\<lparr>atts := (atts demo_room)(3 \<mapsto> (demo_att Hello)\<lparr>connectedAt := Some 1000\<rparr>),
     db := [(''ticket:a'', SRec 5 None), (''ticket:b'', SRec 90000 None)]\<rparr>"

theorem alarm_housekeeping_witness:
  "let r' = alarm demo_config 21000 demo_sweep_room; swept_room = after_sweeps 21000 demo_sweep_room;
      last_t = fst (last_activity 21000 swept_room)
    in if established demo_sweep_room \<and> 21000 \<ge> last_t + establishedIdleTtlMs demo_config
       then socks r' = [] \<and> db r' = [] \<and> alarmRow r' = None \<and> timer r' = None
       else (\<forall>s \<in> set (socks r'). \<not> timed_out 21000 r' s)
         \<and> (\<forall>(k, v) \<in> set (db r'). \<not> (ephemeral k \<and> expired 21000 v))
         \<and> (\<forall>s \<in> set (socks demo_sweep_room). is_admitted demo_sweep_room s \<longrightarrow> s \<in> set (socks r') \<and> is_admitted r' s)
         \<and> (work_left r' \<longrightarrow> (\<exists>t \<le> 21000 + 15000. timer r' = Some t \<and> alarmRow r' = Some t))
         \<and> (established r' \<longrightarrow> (\<exists>t \<le> last_t + establishedIdleTtlMs demo_config. timer r' = Some t \<and> alarmRow r' = Some t))"
  by (rule alarm_housekeeping) (simp add: demo_sweep_room_def)

section \<open>A stale stored alarm is never replaced\<close>

text \<open>
  The host clears the armed time before it runs the alarm, but the stored time is overwritten
  only if the alarm reschedules. If it does not, the stored time stays in the past, and
  \<open>ensureAlarm\<close>, which reads it, takes it for an alarm that is still to come.
\<close>

lemma stale_alarm_not_rearmed:
  "alarmRow r = Some t \<Longrightarrow> t \<le> now + 15000 \<Longrightarrow> timer (ensureAlarm now r) = timer r"
  by (simp add: ensureAlarm_def HOUSEKEEPING_INTERVAL_MS_def)

text \<open>
  A run that ends so: a mac parks, the alarm of its connection lapses with nothing left to watch,
  and the next socket that connects and says nothing has no alarm that would ever close it.
\<close>

lemma stale_alarm_run:
  "let m = run_events demo_plat demo_config
      [Accept 1 ''room'' 1000, Tagged 1 ''t'' 1000, Frame 1 (Text ''mac'') 1100, Frame 1 (Text ''mac'') 1200,
       Timer 16000, Accept 2 ''room'' 20000, Tagged 2 ''t'' 20000] init
   in timer (rm m) = None \<and> alarmRow (rm m) = Some 16000 \<and> preauth_socks (rm m) = [2] \<and> socks (rm m) = [1, 2]"
  by code_simp

end
