(* ===== verification/RoomSafety.thy ===== *)
theory RoomSafety
  imports RoomMachine
begin

text \<open>
  What holds in every state a room can reach, whatever the order of frames, closes, verifications,
  requests and alarms: each role is held by at most one live socket, un-admitted sockets are
  bounded, a waiting proof is bound to its socket's role and transcript, and the pairing budget is
  never exceeded.
\<close>

section \<open>How a handler may move sockets\<close>

text \<open>
  A handler for the socket \<open>ws\<close> only drops sockets from the routable set, changes no attachment
  but that of \<open>ws\<close>, never takes an admission back, and if \<open>ws\<close> comes to hold a role then no
  other live socket holds it.
\<close>

definition moves :: "sid \<Rightarrow> room \<Rightarrow> room \<Rightarrow> bool" where
  "moves ws r r' \<longleftrightarrow>
     (\<exists>Q. socks r' = filter Q (socks r)) \<and> (\<forall>s. s \<noteq> ws \<longrightarrow> atts r' s = atts r s)
     \<and> (atts r ws \<noteq> None \<longrightarrow> atts r' ws \<noteq> None) \<and> (\<forall>rl. holds r rl ws \<longrightarrow> holds r' rl ws)
     \<and> (\<forall>rl. holds r' rl ws \<longrightarrow> holds r rl ws \<or> (\<forall>s \<in> set (socks r'). s \<noteq> ws \<longrightarrow> \<not> holds r' rl s))"

lemma filter_always: "\<exists>Q. xs = filter Q xs"
  by (rule exI [of _ "\<lambda>_. True"]) simp

lemma moves_same:
  assumes "atts r' = atts r" "\<exists>Q. socks r' = filter Q (socks r)"
  shows "moves ws r r'"
  using assms by (simp add: moves_def holds_atts)

lemma moves_refl: "moves ws r r"
  by (rule moves_same [OF refl]) (rule filter_always)

lemma removeAll_filter: "\<exists>Q. removeAll x xs = filter Q xs"
  by (metis removeAll_filter_not_eq)

lemma moves_holds_other: "moves ws r r' \<Longrightarrow> s \<noteq> ws \<Longrightarrow> holds r' rl s = holds r rl s"
  by (simp add: moves_def holds_atts)

lemma moves_trans:
  assumes 1: "moves ws r r1" and 2: "moves ws r1 r2"
  shows "moves ws r r2"
proof -
  obtain Q1 Q2 where "socks r1 = filter Q1 (socks r)" "socks r2 = filter Q2 (socks r1)"
    using 1 2 by (auto simp: moves_def)
  then have Q: "\<exists>Q. socks r2 = filter Q (socks r)" "set (socks r2) \<subseteq> set (socks r1)"
    by (auto simp: filter_filter)
  have "holds r rl ws \<or> (\<forall>s \<in> set (socks r2). s \<noteq> ws \<longrightarrow> \<not> holds r2 rl s)" if "holds r2 rl ws" for rl
    using that 1 2 Q(2) moves_holds_other [OF 2] unfolding moves_def by blast
  with Q(1) 1 2 show ?thesis unfolding moves_def by auto
qed

text \<open>The facts that carry the step lemmas.\<close>

lemma moves_closeSocket: "moves ws r (closeSocket s c m r)"
  by (rule moves_same) (simp_all add: removeAll_filter)

lemma moves_ws_close: "moves ws r (ws_close s c m r)"
  by (rule moves_same) (simp_all add: removeAll_filter)

lemma moves_reject: "moves ws r (reject s m r)"
  by (rule moves_same) (simp_all add: removeAll_filter)

lemma moves_teardown: "moves ws r (teardownRoom m r)"
  by (rule moves_same) (auto intro: exI [of _ "\<lambda>_. False"])

lemma moves_closePeerOf: "moves ws r (closePeerOf s r)"
  by (rule moves_same) (auto simp: closePeerOf_def filter_always split: option.split phase.split)

lemmas moves_closes = moves_refl moves_closeSocket moves_ws_close moves_reject moves_teardown moves_closePeerOf

lemma moves_take_slot:
  assumes "\<And>rl'. holds r rl' ws \<Longrightarrow> rl' = rl"
  shows "moves ws r (take_slot ws rl p r)"
  using assms by (auto simp: moves_def take_slot_atts) (auto simp: take_slot_def)

lemma moves_admit:
  assumes "\<not> is_admitted r ws"
  shows "moves ws r (admit P now ws rl a r)"
proof (cases rule: admit_cases [of P now ws rl a r])
  case (gone m r1)
  then show ?thesis by (intro moves_same) (simp_all add: removeAll_filter)
next
  case killed
  then show ?thesis by (simp add: moves_teardown)
next
  case (taken r1)
  note fr = guard_frame(1,2) [OF taken(2)]
  have "\<not> holds r1 rl' ws" for rl'
    using assms fr(2) by (cases rl') (simp_all add: is_admitted_def holds_atts)
  then have 1: "moves ws r1 (take_slot ws rl (atts r ws) r1)" by (intro moves_take_slot) simp
  have 0: "moves ws r r1" by (rule moves_same) (simp_all add: fr filter_always)
  have 2: "moves ws (take_slot ws rl (atts r ws) r1) (admit P now ws rl a r)"
    unfolding taken(1) by (rule moves_same) (simp, simp only: grant_simps filter_always)
  show ?thesis by (rule moves_trans [OF moves_trans [OF 0 1] 2])
qed

lemma is_admitted_atts: "atts r' = atts r \<Longrightarrow> is_admitted r' s = is_admitted r s"
  by (simp add: is_admitted_def holds_atts)

lemma phase_not_admitted:
  "att_phase r ws = Some Hello \<Longrightarrow> \<not> is_admitted r ws"
  "att_phase r ws = Some (Challenged a b c) \<Longrightarrow> \<not> is_admitted r ws"
  "atts r ws = None \<Longrightarrow> \<not> is_admitted r ws"
  by (auto simp: is_admitted_def holds_def att_phase_def)

lemma moves_hello:
  assumes "\<not> is_admitted r ws"
  shows "moves ws r (handleHello P ws att msg r)"
proof -
  have "moves ws r (ws_send ws f (put_att ws b (r\<lparr>draws := n\<rparr>)))" if "ph b = Challenged x y z" for f b x y z n
    using assms that role.exhaust by (auto simp: moves_def holds_atts is_admitted_def filter_always) blast+
  then show ?thesis
    by (auto simp: handleHello_def internal_error_def draw_def moves_closes split: option.split jsval.split bool.split)
qed

lemma moves_handleFrame: "moves ws r (handleFrame E now ws rl msg r)"
proof -
  obtain lim w where l: "rateLimited now MAX_FRAMES_PER_WINDOW FRAME_WINDOW_MS (frameWindow r) = (lim, w)"
    by (cases "rateLimited now MAX_FRAMES_PER_WINDOW FRAME_WINDOW_MS (frameWindow r)")
  let ?r = "r\<lparr>frameWindow := w\<rparr>"
  have 0: "moves ws r ?r" by (rule moves_same) (simp_all add: filter_always)
  obtain over r1 where o: "overQuota E now (msg_size msg) ?r = (over, r1)"
    by (cases "overQuota E now (msg_size msg) ?r")
  have 1: "moves ws ?r r1"
    using overQuota_socks [OF o] by (intro moves_same) (auto simp: filter_always intro: exI [of _ "\<lambda>_. False"])
  have 2: "moves ws r1 (forward ws rl msg r1)"
    by (rule moves_same) (simp_all add: forward_def filter_always split: option.split)
  have 3: "moves ws ?r (closeSocket ws 1008 ''frame rate exceeded'' (closePeerOf ws ?r))"
    by (rule moves_trans [OF moves_closePeerOf moves_closeSocket])
  show ?thesis
    using moves_trans [OF 0 1] moves_trans [OF moves_trans [OF 0 1] 2] moves_trans [OF 0 3]
    by (simp add: handleFrame_def Let_def l o split: bool.split)
qed

lemma moves_redeem: "redeem_ticket now t r = (x, r1) \<Longrightarrow> moves ws r r1 \<and> atts r1 = atts r"
  by (auto simp: redeem_ticket_eq filter_always split: option.splits if_splits intro!: moves_same)

lemma moves_proof_pairing:
  assumes "\<not> is_admitted r ws"
  shows "moves ws r (proof_pairing P E now ws rl pf r)"
proof -
  have "moves ws r (admit P now ws rl a r1)" "moves ws r (reject ws m r1)" if "redeem_ticket now t r = (x, r1)" for t x r1 a m
  proof -
    from moves_redeem [OF that] have r1: "moves ws r r1" "atts r1 = atts r" by blast+
    show "moves ws r (admit P now ws rl a r1)"
      using moves_trans [OF r1(1) moves_admit] assms is_admitted_atts [OF r1(2)] by blast
    show "moves ws r (reject ws m r1)" by (rule moves_trans [OF r1(1) moves_reject])
  qed
  then show ?thesis
    using moves_admit [OF assms]
    by (auto simp: proof_pairing_def internal_error_def moves_closes split: option.split prod.split)
qed

lemma moves_handleProof:
  assumes "\<not> is_admitted r ws"
  shows "moves ws r (fst (handleProof P E now ws att rl nonce msg r))"
proof -
  obtain lim w where l: "rateLimited now MAX_ADMISSION_ATTEMPTS ADMISSION_WINDOW_MS (admissionWindow r) = (lim, w)"
    by (cases "rateLimited now MAX_ADMISSION_ATTEMPTS ADMISSION_WINDOW_MS (admissionWindow r)")
  let ?r = "r\<lparr>admissionWindow := w\<rparr>"
  have 0: "moves ws r ?r" by (rule moves_same) (simp_all add: filter_always)
  have "moves ws ?r (proof_pairing P E now ws rl pf ?r)" for pf
    using assms by (intro moves_proof_pairing) (simp add: is_admitted_atts [of ?r r])
  moreover have "moves ws ?r (fst (proof_signed E ws att rl nonce pf ?r))" for pf
    by (auto simp: proof_signed_def internal_error_def moves_closes split: option.split)
  ultimately show ?thesis
    using moves_trans [OF 0] moves_reject
    by (auto simp: handleProof_def l Let_def split: option.split)
qed

lemma moves_message: "moves ws r (fst (webSocketMessage P E now ws msg r))"
proof -
  have big: "moves ws r (closeSocket ws 1009 ''frame too large'' (closePeerOf ws r))"
    by (rule moves_trans [OF moves_closePeerOf moves_closeSocket])
  show ?thesis
  proof (cases "atts r ws")
    case None
    then have "\<not> is_admitted r ws" by (rule phase_not_admitted)
    with None show ?thesis by (simp add: webSocketMessage_def Let_def no_att_def big moves_hello)
  next
    case (Some a)
    show ?thesis
    proof (cases "ph a")
      case Hello
      with Some have "\<not> is_admitted r ws" by (intro phase_not_admitted) (simp add: att_phase_def)
      with Some Hello show ?thesis by (simp add: webSocketMessage_def Let_def big moves_hello)
    next
      case (Challenged rl n nd)
      with Some have "\<not> is_admitted r ws" by (intro phase_not_admitted) (simp add: att_phase_def)
      with Some Challenged show ?thesis by (simp add: webSocketMessage_def Let_def big moves_handleProof)
    next
      case (Admitted rl)
      with Some show ?thesis by (simp add: webSocketMessage_def Let_def big moves_handleFrame)
    qed
  qed
qed

lemma moves_run_job: "moves ws r (fst (run_job P E now ws j r))"
  by (cases j) (simp_all add: moves_message webSocketClose_def webSocketError_def moves_closePeerOf)

lemma moves_drain: "moves ws r (fst (drain P E now ws js r))"
proof (induction js arbitrary: r)
  case (Cons j js)
  obtain r1 w where j: "run_job P E now ws j r = (r1, w)" by (cases "run_job P E now ws j r")
  then have "moves ws r r1" using moves_run_job [of ws r P E now j] by simp
  with moves_trans [OF this Cons.IH] j show ?case by (simp split: option.split)
qed (simp add: moves_refl)

section \<open>Slots and un-admitted sockets\<close>

definition slots_ok :: "room \<Rightarrow> bool" where
  "slots_ok r \<longleftrightarrow> distinct (socks r) \<and> (\<forall>s \<in> set (socks r). atts r s \<noteq> None)
     \<and> (\<forall>rl s t. s \<in> set (socks r) \<longrightarrow> t \<in> set (socks r) \<longrightarrow> holds r rl s \<longrightarrow> holds r rl t \<longrightarrow> s = t)"

lemma slots_moves:
  assumes "slots_ok r" "moves ws r r'"
  shows "slots_ok r'"
proof -
  have sub: "set (socks r') \<subseteq> set (socks r)" "distinct (socks r')"
    using assms by (auto simp: moves_def slots_ok_def)
  have "atts r' s \<noteq> None" if "s \<in> set (socks r')" for s
    using assms sub that by (cases "s = ws") (auto simp: moves_def slots_ok_def)
  moreover have "s = t" if "s \<in> set (socks r')" "t \<in> set (socks r')" "holds r' rl s" "holds r' rl t" for rl s t
  proof -
    have "s = t" if "u \<noteq> ws" "u \<in> set (socks r')" "holds r' rl u" "ws \<in> set (socks r')" "holds r' rl ws" "{s, t} = {u, ws}" for u
    proof -
      from that(1-3,5) assms(2) have "holds r rl ws" unfolding moves_def by blast
      moreover have "holds r rl u" using moves_holds_other [OF assms(2) that(1)] that(3) by simp
      ultimately have "u = ws" using assms(1) that(2,4) sub(1) unfolding slots_ok_def by blast
      with that(1) show ?thesis by simp
    qed
    note mixed = this
    consider "s \<noteq> ws" "t \<noteq> ws" | "s \<noteq> ws" "t = ws" | "s = ws" "t \<noteq> ws" | "s = ws" "t = ws" by blast
    then show ?thesis
    proof cases
      case 1
      with that moves_holds_other [OF assms(2)] assms(1) sub(1) show ?thesis unfolding slots_ok_def by blast
    next
      case 2
      with mixed [of s] that show ?thesis by blast
    next
      case 3
      with mixed [of t] that show ?thesis by blast
    qed simp
  qed
  ultimately show ?thesis using sub(2) unfolding slots_ok_def by blast
qed

lemma preauth_moves:
  assumes "slots_ok r" "moves ws r r'"
  shows "length (preauth_socks r') \<le> length (preauth_socks r)"
proof -
  obtain Q where Q: "socks r' = filter Q (socks r)" using assms(2) by (auto simp: moves_def)
  have "pre_auth r s" if "s \<in> set (socks r)" "pre_auth r' s" for s
    using assms that moves_holds_other [OF assms(2)]
    by (cases "s = ws") (auto simp: pre_auth_def is_admitted_def moves_def slots_ok_def)
  then show ?thesis
    unfolding preauth_socks_def Q filter_filter by (intro length_filter_mono) blast
qed

lemma evict_preauth:
  assumes "distinct (socks r)"
  shows "length (preauth_socks (evictExcessPreAuth r)) \<le> 4"
proof -
  let ?p = "sort_key (connect_key r) (preauth_socks r)"
  let ?k = "length ?p - MAX_PREAUTH_SOCKETS" and ?r' = "evictExcessPreAuth r"
  have "atts ?r' = atts r" by (simp add: evictExcessPreAuth_def)
  from pre_auth_cong [OF this]
  have eq: "preauth_socks ?r' = filter (\<lambda>s. s \<notin> set (take ?k ?p)) (preauth_socks r)"
    by (auto simp: preauth_socks_def evictExcessPreAuth_def Let_def intro!: filter_cong)
  have d: "distinct ?p" using assms by (simp add: preauth_socks_def)
  have "set (preauth_socks ?r') = set ?p - set (take ?k ?p)" unfolding eq by auto
  also have "\<dots> = set (drop ?k ?p)"
    using d by (metis append_take_drop_id distinct_append set_append Diff_cancel Un_Diff Diff_triv sup_bot_left inf_commute)
  finally have "length (preauth_socks ?r') = length (drop ?k ?p)"
    using d assms by (metis distinct_card distinct_drop distinct_filter preauth_socks_def eq)
  then show ?thesis by (simp add: MAX_PREAUTH_SOCKETS_def)
qed

section \<open>Alarm, requests, upgrades\<close>

lemma sweep_frame: "atts (snd (live_and_expired now p r)) = atts r" "socks (snd (live_and_expired now p r)) = socks r"
  unfolding live_and_expired_def sweep_fold by simp_all

lemma prune_frame: "pruneExpired now r = (n, r') \<Longrightarrow> atts r' = atts r \<and> socks r' = socks r"
proof -
  have "live_and_expired now p r = (n, r') \<Longrightarrow> atts r' = atts r \<and> socks r' = socks r" for p r n r'
    using sweep_frame [of now p r] by simp
  then show "pruneExpired now r = (n, r') \<Longrightarrow> atts r' = atts r \<and> socks r' = socks r"
    by (simp add: pruneExpired_def EPHEMERAL_PREFIXES_def split: prod.splits)
qed

lemma moves_alarm: "moves ws r (alarm E now r)"
proof -
  let ?r1 = "close_all (filter (timed_out now r) (socks r)) 1008 ''admission timeout'' r"
  obtain n r2 where p: "pruneExpired now ?r1 = (n, r2)" by (cases "pruneExpired now ?r1")
  have "moves ws r ?r1" by (rule moves_same) auto
  moreover have "moves ws ?r1 r2" using prune_frame [OF p] by (intro moves_same) (simp_all only: filter_always)
  ultimately have 2: "moves ws r r2" by (rule moves_trans)
  have 3: "moves ws r2 (snd (last_activity now r2))" by (rule moves_same) (simp_all add: filter_always)
  have 4: "moves ws x (reschedule now w d x)" for x w d by (rule moves_same) (simp_all add: filter_always)
  show ?thesis
    using moves_trans [OF 2 3] moves_trans [OF moves_trans [OF 2 3] moves_teardown]
      moves_trans [OF moves_trans [OF 2 3] 4] moves_trans [OF 2 4]
    by (simp add: alarm_def sweepPreAuth_def p Let_def case_prod_beta)
qed

lemma alarm_atts: "atts (alarm E now r) = atts r"
proof
  fix s
  show "atts (alarm E now r) s = atts r s"
    using moves_alarm [of "Suc s" r E now] by (simp add: moves_def)
qed

text \<open>A request or its continuation leaves the attachments alone and keeps or closes all sockets.\<close>

definition quiet :: "room \<Rightarrow> room \<Rightarrow> bool" where
  "quiet r r' \<longleftrightarrow> atts r' = atts r \<and> (socks r' = socks r \<or> socks r' = [])"

lemma quiet_moves: "quiet r r' \<Longrightarrow> moves ws r r'"
  by (rule moves_same) (auto simp: quiet_def filter_always intro: exI [of _ "\<lambda>_. False"])

lemma consume_quiet: "consume_challenge now c r = (b, r1) \<Longrightarrow> quiet r r1"
  by (auto simp: consume_challenge_def quiet_def split: option.splits if_splits)

lemma challenge_quiet: "quiet r (snd (snd (handleAttestChallenge P now r)))"
  using sweep_frame [of now "''attestchallenge:''" r]
  by (auto simp: handleAttestChallenge_def quiet_def draw_def split: prod.split)

lemma request_quiet: "quiet r (snd (handleHttp P E now meth path nm body r))"
proof -
  have r: "quiet r (snd (handleRegister E now body r))"
    by (auto simp: handleRegister_def finish_register_def quiet_def dest!: consume_quiet
        split: option.split prod.split bool.split)
  have a: "quiet r (snd (handleAttest E now body r))"
    by (auto simp: handleAttest_def quiet_def dest!: consume_quiet split: option.split prod.split bool.split)
  have d: "quiet r (snd (handleDelete E now nm body r))"
    by (auto simp: handleDelete_def quiet_def dest!: consume_quiet split: option.split prod.split bool.split)
  have "quiet r r" by (simp add: quiet_def)
  with r a d challenge_quiet [of r P now] show ?thesis
    by (simp add: handleHttp_def outcome_map_def case_prod_beta)
qed

lemma resume_quiet: "quiet r (snd (snd (resumeHttp P E tv now w r)))"
  by (auto simp: resumeHttp_def resumeAttest_def resumeRegister_def resumeDelete_def finish_register_def draw_def
      quiet_def split: http_wait.split reg_wait.split del_wait.split option.split sum.split prod.split)

lemma moves_resumeProof:
  assumes "\<not> is_admitted r ws"
  shows "moves ws r (resumeProof P now ws aw r)"
proof -
  have 0: "moves ws r (bumpActivity now r)" by (rule moves_same) (simp_all add: filter_always)
  have "moves ws (bumpActivity now r) (admit P now ws rl None (bumpActivity now r))" for rl
    using assms by (intro moves_admit) (simp add: is_admitted_atts [of "bumpActivity now r" r])
  from moves_trans [OF 0 this] show ?thesis
    by (simp add: resumeProof_def moves_reject split: await.split)
qed

text \<open>The two halves of an upgrade.\<close>

lemma accept_slots:
  assumes "slots_ok r" "atts r ws = None"
  shows "slots_ok (acceptUpgrade ws nm now r)"
    and "length (preauth_socks (acceptUpgrade ws nm now r)) = length (preauth_socks r) + 1"
proof -
  let ?r' = "acceptUpgrade ws nm now r"
  have new: "ws \<notin> set (socks r)" using assms by (auto simp: slots_ok_def)
  have h: "holds ?r' rl s \<longleftrightarrow> s \<noteq> ws \<and> holds r rl s" for rl s
    using assms(2) by (simp add: acceptUpgrade_def holds_atts)
  have so: "socks ?r' = socks r @ [ws]" using new by (simp add: acceptUpgrade_def)
  have at: "atts ?r' s \<noteq> None \<longleftrightarrow> s = ws \<or> atts r s \<noteq> None" for s by (simp add: acceptUpgrade_def)
  show "slots_ok ?r'"
    using assms(1) new unfolding slots_ok_def so h at by auto
  have "pre_auth ?r' s = pre_auth r s" if "s \<noteq> ws" for s
    using that h at by (simp add: pre_auth_def is_admitted_def)
  then have "filter (pre_auth ?r') (socks r) = filter (pre_auth r) (socks r)"
    using new by (intro filter_cong [OF refl]) metis
  moreover have "pre_auth ?r' ws" using h at by (simp add: pre_auth_def is_admitted_def)
  ultimately show "length (preauth_socks ?r') = length (preauth_socks r) + 1"
    by (simp add: preauth_socks_def so)
qed

text \<open>\<open>ph\<close> and \<open>roomName\<close> of every attachment survive.\<close>

definition same_identity :: "room \<Rightarrow> room \<Rightarrow> bool" where
  "same_identity r r' \<longleftrightarrow> (\<forall>s. map_option (\<lambda>a. (ph a, roomName a)) (atts r' s) = map_option (\<lambda>a. (ph a, roomName a)) (atts r s))"

lemma same_identity_holds:
  assumes "same_identity r r'"
  shows "holds r' = holds r" "atts r' s = None \<longleftrightarrow> atts r s = None"
proof -
  have "map_option ph (atts r' s) = map_option ph (atts r s) \<and> (atts r' s = None \<longleftrightarrow> atts r s = None)" for s
    using assms [unfolded same_identity_def, rule_format, of s] by (cases "atts r s"; cases "atts r' s") auto
  then show "holds r' = holds r" "atts r' s = None \<longleftrightarrow> atts r s = None"
    by (auto simp: holds_def att_phase_def fun_eq_iff)
qed

lemma finish_identity: "same_identity r (finishUpgrade ws tg now r)"
  by (simp add: finishUpgrade_def same_identity_def evictExcessPreAuth_def Let_def split: option.split)

lemma finish_slots:
  assumes "slots_ok r"
  shows "slots_ok (finishUpgrade ws tg now r)" "length (preauth_socks (finishUpgrade ws tg now r)) \<le> 4"
proof -
  let ?r1 = "case atts r ws of Some a \<Rightarrow> if tag a = None then put_att ws (a\<lparr>tag := Some tg\<rparr>) r else r | None \<Rightarrow> r"
  have f: "finishUpgrade ws tg now r = ensureAlarm now (evictExcessPreAuth ?r1)" by (simp add: finishUpgrade_def)
  have s1: "socks ?r1 = socks r" by (simp split: option.split)
  have sub: "set (socks (finishUpgrade ws tg now r)) \<subseteq> set (socks r)" "distinct (socks (finishUpgrade ws tg now r))"
    using assms unfolding f by (auto simp: evictExcessPreAuth_def Let_def s1 slots_ok_def)
  note id = same_identity_holds [OF finish_identity [of r ws tg now]]
  show "slots_ok (finishUpgrade ws tg now r)"
    using assms sub unfolding slots_ok_def id by blast
  have "preauth_socks (finishUpgrade ws tg now r) = preauth_socks (evictExcessPreAuth ?r1)"
    unfolding f preauth_socks_def using pre_auth_cong [of "ensureAlarm now (evictExcessPreAuth ?r1)"] by simp
  with evict_preauth [of ?r1] assms s1 show "length (preauth_socks (finishUpgrade ws tg now r)) \<le> 4"
    by (simp add: slots_ok_def)
qed

section \<open>The invariant\<close>

text \<open>A waiting proof belongs to a challenged socket and signs that socket's own challenge.\<close>

definition bound_to :: "env \<Rightarrow> room \<Rightarrow> sid \<Rightarrow> await \<Rightarrow> bool" where
  "bound_to E r s aw = (case aw of AwaitJoin rl sg tr v \<Rightarrow>
     \<exists>a nonce nd. atts r s = Some a \<and> ph a = Challenged rl nonce nd
       \<and> joinTranscript rl nonce (opt_str (roomName a)) (RELAY_ORIGIN E) = Some tr)"

definition room_inv :: "env \<Rightarrow> machine \<Rightarrow> bool" where
  "room_inv E m \<longleftrightarrow> slots_ok (rm m) \<and> length (preauth_socks (rm m)) \<le> 4 + length (upgrading m)
     \<and> (\<forall>s aw. waiting m s = Some aw \<longrightarrow> bound_to E (rm m) s aw)"

lemma bound_atts: "atts r' s = atts r s \<Longrightarrow> bound_to E r' s aw = bound_to E r s aw"
  by (cases aw) (simp add: bound_to_def)

lemma bound_identity: "same_identity r r' \<Longrightarrow> bound_to E r s aw \<Longrightarrow> bound_to E r' s aw"
proof -
  assume id: "same_identity r r'" and b: "bound_to E r s aw"
  obtain rl sg tr v where aw: "aw = AwaitJoin rl sg tr v" by (cases aw)
  from b obtain a nonce nd where a: "atts r s = Some a" "ph a = Challenged rl nonce nd"
    "joinTranscript rl nonce (opt_str (roomName a)) (RELAY_ORIGIN E) = Some tr"
    by (auto simp: bound_to_def aw)
  from id a(1) obtain a' where "atts r' s = Some a'" "ph a' = ph a" "roomName a' = roomName a"
    unfolding same_identity_def by (cases "atts r' s") (auto dest: spec [of _ s])
  with a show "bound_to E r' s aw" by (simp add: bound_to_def aw)
qed

lemma bound_not_admitted: "bound_to E r s aw \<Longrightarrow> \<not> is_admitted r s"
  by (cases aw) (auto simp: bound_to_def is_admitted_def holds_atts)

lemma message_wait:
  assumes "webSocketMessage P E now ws msg r = (r1, Some aw)"
  shows "bound_to E r1 ws aw"
proof -
  obtain a where a: "atts r ws = Some a" "\<exists>rl nonce nd. ph a = Challenged rl nonce nd"
    using assms by (auto simp: webSocketMessage_def Let_def no_att_def split: option.splits if_splits phase.splits)
  then obtain rl nonce nd where ph: "ph a = Challenged rl nonce nd" by blast
  obtain lim w where l: "rateLimited now MAX_ADMISSION_ATTEMPTS ADMISSION_WINDOW_MS (admissionWindow r) = (lim, w)"
    by (cases "rateLimited now MAX_ADMISSION_ATTEMPTS ADMISSION_WINDOW_MS (admissionWindow r)")
  from assms a(1) ph have "handleProof P E now ws a rl nonce msg r = (r1, Some aw)"
    by (auto simp: webSocketMessage_def Let_def split: if_splits)
  then obtain sg tr v where "r1 = r\<lparr>admissionWindow := w\<rparr>" "aw = AwaitJoin rl sg tr v"
    "joinTranscript rl nonce (opt_str (roomName a)) (RELAY_ORIGIN E) = Some tr"
    by (auto simp: handleProof_def l Let_def proof_signed_def split: option.splits if_splits)
  with a(1) ph show ?thesis by (simp add: bound_to_def)
qed

lemma drain_wait: "drain P E now ws js r = (r1, Some aw, rest) \<Longrightarrow> bound_to E r1 ws aw"
proof (induction js arbitrary: r)
  case (Cons j js)
  then show ?case by (cases j) (auto split: prod.splits option.splits dest: message_wait)
qed simp

lemma inv_moves:
  assumes "room_inv E m" "moves ws (rm m) r'" "m' = m\<lparr>rm := r', waiting := (waiting m)(ws := w), queue := q, https := h\<rparr>"
    and "\<And>aw. w = Some aw \<Longrightarrow> bound_to E r' ws aw"
  shows "room_inv E m'"
proof -
  have "bound_to E r' s aw" if "(if s = ws then w else waiting m s) = Some aw" for s aw
    using that assms(1,2,4) bound_atts [of r' s "rm m"] unfolding room_inv_def moves_def by (auto split: if_splits)
  with assms(1,3) slots_moves [OF _ assms(2)] preauth_moves [OF _ assms(2)] show ?thesis
    unfolding room_inv_def by fastforce
qed

lemma inv_quiet:
  assumes "room_inv E m" "moves ws (rm m) r'" "atts r' = atts (rm m)" "m' = m\<lparr>rm := r', queue := q, https := h\<rparr>"
  shows "room_inv E m'"
proof (rule inv_moves [OF assms(1,2)])
  show "m' = m\<lparr>rm := r', waiting := (waiting m)(ws := waiting m ws), queue := q, https := h\<rparr>"
    using assms(4) by simp
  show "bound_to E r' ws aw" if "waiting m ws = Some aw" for aw
    using that assms(1,3) bound_atts [of r' ws "rm m"] unfolding room_inv_def by simp
qed

lemma inv_run_chain:
  assumes "room_inv E m" "moves ws (rm m) r1" "m1 = m\<lparr>rm := r1\<rparr>"
  shows "room_inv E (run_chain P E now ws js m1)"
proof -
  obtain r2 w rest where d: "drain P E now ws js r1 = (r2, w, rest)" by (cases "drain P E now ws js r1")
  have "moves ws r1 r2" using moves_drain [of ws r1 P E now js] d by simp
  from moves_trans [OF assms(2) this] have mv: "moves ws (rm m) r2" .
  have eq: "run_chain P E now ws js m1 = m\<lparr>rm := r2, waiting := (waiting m)(ws := w),
      queue := (queue m)(ws := rest), https := https m\<rparr>"
    using d assms(3) by (simp add: run_chain_def)
  show ?thesis
    by (rule inv_moves [OF assms(1) mv eq]) (use drain_wait d in blast)
qed

lemma inv_dispatch:
  assumes "room_inv E m" "moves ws (rm m) r1" "atts r1 = atts (rm m)" "m1 = m\<lparr>rm := r1\<rparr>"
  shows "room_inv E (dispatch P E now ws j m1)"
proof (cases "waiting m1 ws")
  case None
  have "room_inv E (run_chain P E now ws (queue m1 ws @ [j]) m1)"
    by (rule inv_run_chain [OF assms(1,2,4)])
  with None show ?thesis by (simp add: dispatch_def)
next
  case (Some aw)
  then have "dispatch P E now ws j m1 = m\<lparr>rm := r1, queue := (queue m1)(ws := queue m1 ws @ [j]), https := https m\<rparr>"
    using assms(4) by (simp add: dispatch_def)
  from inv_quiet [OF assms(1-3) this] show ?thesis .
qed

lemma inv_set_room:
  assumes "room_inv E m" "moves ws (rm m) r'" "atts r' = atts (rm m)"
  shows "room_inv E (m\<lparr>rm := r'\<rparr>)" "room_inv E (m\<lparr>rm := r', https := h\<rparr>)"
  by (rule inv_quiet [OF assms, where q = "queue m" and h = "https m"], simp)
    (rule inv_quiet [OF assms, where q = "queue m" and h = h], simp)

lemma inv_dispatch_same: "room_inv E m \<Longrightarrow> room_inv E (dispatch P E now ws j m)"
  by (rule inv_dispatch [OF _ moves_refl]) simp_all

lemma inv_init: "room_inv E init"
  by (simp add: room_inv_def init_def empty_room_def slots_ok_def preauth_socks_def)

lemma inv_accept:
  assumes "room_inv E m" "\<not> known m ws"
  shows "room_inv E (step P E (Accept ws nm now) m)"
proof -
  let ?r' = "acceptUpgrade ws nm now (rm m)"
  have new: "atts (rm m) ws = None" using assms(2) by (simp add: known_def)
  have "bound_to E ?r' s aw" if "waiting m s = Some aw" for s aw
  proof -
    have b: "bound_to E (rm m) s aw" using assms(1) that by (simp add: room_inv_def)
    then have "s \<noteq> ws" using new by (cases aw) (auto simp: bound_to_def)
    then show ?thesis using b bound_atts [of ?r' s "rm m"] by (simp add: acceptUpgrade_def)
  qed
  with assms accept_slots [OF _ new] show ?thesis
    by (simp add: room_inv_def on_room_def)
qed

lemma inv_tagged:
  assumes "room_inv E m"
  shows "room_inv E (step P E (Tagged ws tg now) m)"
proof (cases "ws \<in> set (upgrading m)")
  case True
  let ?r' = "finishUpgrade ws tg now (rm m)"
  have "bound_to E ?r' s aw" if "waiting m s = Some aw" for s aw
    using bound_identity [OF finish_identity] assms that by (simp add: room_inv_def)
  moreover have "slots_ok (rm m)" using assms by (simp add: room_inv_def)
  note fin = finish_slots [OF this, of ws tg now]
  ultimately show ?thesis using True fin by (simp add: room_inv_def on_room_def)
qed (use assms in simp)

lemma inv_step: "room_inv E m \<Longrightarrow> room_inv E (step P E ev m)"
proof (cases ev)
  case (Accept ws nm now)
  then show "room_inv E m \<Longrightarrow> ?thesis" using inv_accept by (cases "known m ws") auto
next
  case (Tagged ws tg now)
  then show "room_inv E m \<Longrightarrow> ?thesis" using inv_tagged by blast
next
  case (Frame ws msg now)
  then show "room_inv E m \<Longrightarrow> ?thesis" by (simp add: inv_dispatch_same)
next
  case (CloseFrame ws code reason)
  let ?r = "rm m"
  let ?r1 = "?r\<lparr>closeRecvd := insert ws (closeRecvd ?r)\<rparr>"
  have "moves ws ?r ?r1" by (rule moves_same) (simp_all add: filter_always)
  from moves_trans [OF this moves_ws_close] have "moves ws ?r (ws_close ws code reason ?r1)" .
  from inv_set_room(1) [OF _ this] CloseFrame show "room_inv E m \<Longrightarrow> ?thesis" by (simp add: on_room_def)
next
  case (Closed ws now)
  let ?r1 = "(rm m)\<lparr>socks := removeAll ws (socks (rm m))\<rparr>"
  have mv: "moves ws (rm m) ?r1" by (rule moves_same) (simp_all add: removeAll_filter)
  have "room_inv E m \<Longrightarrow> room_inv E (m\<lparr>rm := ?r1\<rparr>)" by (rule inv_set_room(1) [OF _ mv]) simp_all
  moreover have "room_inv E m \<Longrightarrow> room_inv E (dispatch P E now ws JClose (m\<lparr>rm := ?r1\<rparr>))"
    by (rule inv_dispatch [OF _ mv]) simp_all
  ultimately show "room_inv E m \<Longrightarrow> ?thesis" using Closed by (simp add: on_room_def Let_def)
next
  case (Failed ws now)
  then show "room_inv E m \<Longrightarrow> ?thesis" by (simp add: inv_dispatch_same)
next
  case (Verified ws now)
  show ?thesis if i: "room_inv E m"
  proof (cases "waiting m ws")
    case (Some aw)
    with i have "\<not> is_admitted (rm m) ws" using bound_not_admitted unfolding room_inv_def by blast
    from inv_run_chain [OF i moves_resumeProof [OF this] refl] Some Verified show ?thesis by (simp add: on_room_def)
  qed (use i Verified in simp)
next
  case (Timer now)
  have 0: "moves ws (rm m) ((rm m)\<lparr>timer := None\<rparr>)" for ws by (rule moves_same) (simp_all add: filter_always)
  have "atts (fireAlarm E now (rm m)) = atts (rm m)" by (simp add: fireAlarm_def alarm_atts)
  with inv_set_room(1) [OF _ moves_trans [OF 0 moves_alarm]] Timer show "room_inv E m \<Longrightarrow> ?thesis"
    by (simp add: on_room_def fireAlarm_def split: option.split)
next
  case (Request meth path nm body now)
  obtain oc r where h: "handleHttp P E now meth path nm body (rm m) = (oc, r)"
    by (cases "handleHttp P E now meth path nm body (rm m)")
  then have q: "quiet (rm m) r" using request_quiet [of "rm m" P E now meth path nm body] by simp
  from inv_set_room [OF _ quiet_moves [OF q]] q Request h show "room_inv E m \<Longrightarrow> ?thesis"
    by (cases oc) (simp_all add: quiet_def)
next
  case (Finished i tv now)
  have q: "quiet (rm m) (snd (snd (resumeHttp P E tv now w (rm m))))" for w by (rule resume_quiet)
  from inv_set_room(2) [OF _ quiet_moves [OF q]] q Finished show "room_inv E m \<Longrightarrow> ?thesis"
    by (simp add: quiet_def case_prod_beta)
qed

lemma reachable_inv: "reachable P E m \<Longrightarrow> room_inv E m"
  by (induction rule: reachable.induct) (simp_all add: inv_init inv_step)

lemma reachable_run: "reachable P E (run_events P E evs init)"
proof -
  have "reachable P E m \<Longrightarrow> reachable P E (fold (step P E) evs m)" for m
    by (induction evs arbitrary: m) (auto intro: reachable.more)
  from this [OF reachable.start] show ?thesis by (simp add: run_events_def)
qed

section \<open>Safety\<close>

text \<open>A concrete run: a mac and two phones join an open room, the second phone displaces the first.\<close>

definition demo_events :: "event list" where
  "demo_events = [Accept 1 ''room'' 1000, Tagged 1 ''t'' 1000, Frame 1 (Text ''mac'') 1100, Frame 1 (Text ''mac'') 1200,
     Accept 2 ''room'' 1300, Tagged 2 ''t'' 1300, Frame 2 (Text ''phone'') 1400, Frame 2 (Text ''phone'') 1500,
     Accept 3 ''room'' 1600, Frame 3 (Text ''phone'') 1700, Frame 3 (Text ''phone'') 1800]"

lemma demo_events_end:
  "let m = run_events demo_plat demo_config demo_events init
   in socks (rm m) = [1, 3] \<and> holds (rm m) Mac 1 \<and> holds (rm m) Phone 3 \<and> upgrading m = [3]"
  by code_simp

text \<open>
  C1. Slot exclusivity: in every state a room can reach, under any interleaving of frames,
  closes, verifications, requests and alarms, each role is held by at most one live socket, and
  no socket is routable twice.
\<close>

theorem slot_exclusive:
  assumes "reachable P E m"
  shows "distinct (socks (rm m)) \<and> length (filter (holds (rm m) rl) (socks (rm m))) \<le> 1"
proof -
  from reachable_inv [OF assms] have ok: "slots_ok (rm m)" by (simp add: room_inv_def)
  then have "length (filter (holds (rm m) rl) (socks (rm m))) \<le> 1"
    unfolding slots_ok_def by (intro length_all_equal) (simp, simp, blast)
  with ok show ?thesis by (simp add: slots_ok_def)
qed

theorem slot_exclusive_witness:
  "let m = run_events demo_plat demo_config demo_events init
   in distinct (socks (rm m)) \<and> length (filter (holds (rm m) Phone) (socks (rm m))) \<le> 1"
  unfolding Let_def by (rule slot_exclusive [OF reachable_run])

text \<open>
  C6. Loiterers are bounded: in every reachable state at most four live sockets are not admitted,
  plus one for each upgrade whose log tag is still being hashed.
\<close>

theorem preauth_bounded:
  assumes "reachable P E m"
  shows "length (preauth_socks (rm m)) \<le> 4 + length (upgrading m)"
  using reachable_inv [OF assms] by (simp add: room_inv_def)

theorem preauth_bounded_witness:
  "let m = run_events demo_plat demo_config demo_events init in length (preauth_socks (rm m)) \<le> 4 + length (upgrading m)"
  unfolding Let_def by (rule preauth_bounded [OF reachable_run])

text \<open>
  A signature in flight is bound to its socket: whenever the relay waits for a verification, the
  socket is challenged, and what is verified is the join transcript of that socket's own role,
  nonce and room at this relay's origin, however many other events happen meanwhile.
\<close>

theorem pending_proof_bound:
  assumes "reachable P E m" "waiting m s = Some (AwaitJoin rl sg tr v)"
  shows "\<exists>a nonce nd. atts (rm m) s = Some a \<and> ph a = Challenged rl nonce nd
    \<and> joinTranscript rl nonce (opt_str (roomName a)) (RELAY_ORIGIN E) = Some tr"
proof -
  have "bound_to E (rm m) s (AwaitJoin rl sg tr v)"
    using reachable_inv [OF assms(1)] assms(2) unfolding room_inv_def by blast
  then show ?thesis by (simp add: bound_to_def)
qed

text \<open>The room is registered and a mac reconnects and is challenged.\<close>

definition demo_signed_events :: "event list" where
  "demo_signed_events = demo_events @
     [Request ''POST'' ''/register'' ''room''
        (Some (JObj [(''verifier'', JStr ''VVVV''), (''registrationToken'', JStr (b64 (replicate 24 2)))])) 1900,
      Accept 4 ''room'' 2000, Frame 4 (Text ''mac'') 2100]"

definition demo_challenged :: machine where
  "demo_challenged = run_events demo_plat demo_config demo_signed_events init"

text \<open>What the run is asked about, as one function, so that the run is evaluated once.\<close>

definition probe :: "machine \<Rightarrow> sid \<Rightarrow> await option \<times> job list \<times> bool \<times> phase option \<times> (int \<times> int)" where
  "probe m s = (waiting m s, queue m s, established (rm m), att_phase (rm m) s, admissionWindow (rm m))"

lemma demo_probe:
  "probe (run_events demo_plat demo_config demo_signed_events init) 4
     = (None, [], True, Some (Challenged Mac (b64 (replicate 32 5)) False), (0, 3))"
  by code_simp

lemma demo_challenged_state:
  "waiting demo_challenged 4 = None" "queue demo_challenged 4 = []" "established (rm demo_challenged)"
  "att_phase (rm demo_challenged) 4 = Some (Challenged Mac (b64 (replicate 32 5)) False)"
  "admissionWindow (rm demo_challenged) = (0, 3)"
  using demo_probe by (simp_all add: probe_def demo_challenged_def)

lemma demo_proof_waits:
  "\<exists>tr v. waiting (step demo_plat demo_config (Frame 4 (Text ''mac'') 2200) demo_challenged) 4
     = Some (AwaitJoin Mac ''mac'' tr v)"
proof -
  let ?r = "rm demo_challenged"
  note st = demo_challenged_state
  obtain a where a: "atts ?r 4 = Some a" "ph a = Challenged Mac (b64 (replicate 32 5)) False"
    using st by (auto simp: att_phase_def)
  obtain tr where tr: "joinTranscript Mac (b64 (replicate 32 5)) (opt_str (roomName a)) (RELAY_ORIGIN demo_config) = Some tr"
    by (simp add: joinTranscript_def b64_roundtrip_aux)
  have est: "established (?r\<lparr>admissionWindow := w\<rparr>)" for w using st by (simp add: established_def st_get_def)
  have json: "p_json demo_plat (Text ''mac'')
      = Some (JObj [(''v'', JNum 1), (''role'', JStr ''mac''), (''ticket'', JStr ''mac''), (''sig'', JStr ''mac'')])"
    by (simp add: demo_plat_def attest_env.extend_def)
  have "\<exists>r1 v. webSocketMessage demo_plat demo_config 2200 4 (Text ''mac'') ?r = (r1, Some (AwaitJoin Mac ''mac'' tr v))"
    using st tr
    by (simp add: webSocketMessage_def Let_def a handleProof_def rateLimited_def ADMISSION_WINDOW_MS_def
        MAX_ADMISSION_ATTEMPTS_def MAX_CONTROL_BYTES_def est json proof_signed_def jprop_def)
  moreover have "known demo_challenged 4" using a by (simp add: known_def)
  ultimately show ?thesis
    using st by (auto simp: dispatch_def run_chain_def)
qed

theorem pending_proof_bound_witness:
  "let m = step demo_plat demo_config (Frame 4 (Text ''mac'') 2200) demo_challenged
   in \<exists>tr v a nonce nd. waiting m 4 = Some (AwaitJoin Mac ''mac'' tr v) \<and> atts (rm m) 4 = Some a
     \<and> ph a = Challenged Mac nonce nd
     \<and> joinTranscript Mac nonce (opt_str (roomName a)) (RELAY_ORIGIN demo_config) = Some tr"
proof -
  have "reachable demo_plat demo_config (step demo_plat demo_config (Frame 4 (Text ''mac'') 2200) demo_challenged)"
    unfolding demo_challenged_def by (rule reachable.more [OF reachable_run])
  moreover obtain tr v where
    w: "waiting (step demo_plat demo_config (Frame 4 (Text ''mac'') 2200) demo_challenged) 4 = Some (AwaitJoin Mac ''mac'' tr v)"
    using demo_proof_waits by blast
  ultimately show ?thesis
    using pending_proof_bound [OF _ w] w unfolding Let_def by blast
qed

end
