(* ===== verification/Runtime.thy ===== *)
theory Runtime
  imports ShardMap RoomState "HOL-Library.AList"
begin

text \<open>
  The registry of live rooms, \<^verbatim>\<open>host/runtime.js\<close>: contexts, their pins, sockets and alarm timers,
  and the map from room names to contexts. A context is an object with an identity, so contexts
  live in a heap (\<open>rt_ctxs\<close>, the index is the identity) and the registry \<open>rt_rooms\<close> holds
  references, in insertion order. Of the room inside a context only what the registry reads is
  kept: its sockets with their admission phase. The lemmas show that two contexts of one room are
  never in use together, that nothing is armed after shutdown, and that long alarms are reached
  exactly, in steps a 32-bit timer can hold.
\<close>

section \<open>Contexts\<close>

definition MAX_DELAY :: int where "MAX_DELAY = 2 ^ 31 - 1"
definition ALARM_RETRY_MS :: int where "ALARM_RETRY_MS = 30 * 1000"

record rctx =
  rc_name :: string
  rc_socks :: "(sid \<times> phase option) list"
  rc_timer :: "int option"
  rc_alarmAt :: "int option"
  rc_pending :: int

definition new_ctx :: "string \<Rightarrow> rctx" where
  "new_ctx nm = \<lparr>rc_name = nm, rc_socks = [], rc_timer = None, rc_alarmAt = None, rc_pending = 0\<rparr>"

definition ctx_idle :: "rctx \<Rightarrow> bool" where
  "ctx_idle x \<longleftrightarrow> rc_socks x = [] \<and> rc_alarmAt x = None \<and> rc_pending x = 0"

definition ctx_dispose :: "rctx \<Rightarrow> rctx" where
  "ctx_dispose x = x\<lparr>rc_timer := None\<rparr>"

text \<open>The start of \<open>_fire\<close>: whether \<open>alarm()\<close> is called, and the context by then.\<close>

definition fire :: "bool \<Rightarrow> rctx \<Rightarrow> bool \<times> rctx" where
  "fire shut x =
     (let x1 = x\<lparr>rc_timer := None\<rparr> in if shut then (False, x1) else (True, x1\<lparr>rc_alarmAt := None\<rparr>))"

text \<open>In \<open>this._alarmAt - Date.now()\<close> an absent time counts as zero.\<close>

definition armTimer :: "bool \<Rightarrow> int \<Rightarrow> rctx \<Rightarrow> bool \<times> rctx" where
  "armTimer shut now x =
     (let remaining = (case rc_alarmAt x of None \<Rightarrow> 0 | Some t \<Rightarrow> t) - now
      in if remaining \<le> 0 then fire shut x
         else (False, x\<lparr>rc_timer := Some (now + min remaining MAX_DELAY)\<rparr>))"

definition ctx_reschedule :: "bool \<Rightarrow> int \<Rightarrow> int option \<Rightarrow> rctx \<Rightarrow> bool \<times> rctx" where
  "ctx_reschedule shut now due x =
     (let x1 = x\<lparr>rc_timer := None\<rparr>
      in if shut then (False, x1)
         else let x2 = x1\<lparr>rc_alarmAt := due\<rparr>
              in if due = None then (False, x2) else armTimer shut now x2)"

section \<open>The registry\<close>

text \<open>
  \<open>rt_alarms\<close> is the alarms table of the backend, and \<open>rt_firing\<close> lists the contexts whose
  \<open>alarm()\<close> has been called and has not returned.
\<close>

record runtime =
  rt_ctxs :: "rctx list"
  rt_rooms :: "(string \<times> nat) list"
  rt_closed :: bool
  rt_alarms :: "string \<Rightarrow> int option"
  rt_firing :: "nat list"

definition new_runtime :: "(string \<Rightarrow> int option) \<Rightarrow> runtime" where
  "new_runtime rows = \<lparr>rt_ctxs = [], rt_rooms = [], rt_closed = False, rt_alarms = rows, rt_firing = []\<rparr>"

definition upd :: "nat \<Rightarrow> (rctx \<Rightarrow> rctx) \<Rightarrow> runtime \<Rightarrow> runtime" where
  "upd c f rt = rt\<lparr>rt_ctxs := (rt_ctxs rt)[c := f (rt_ctxs rt ! c)]\<rparr>"

definition arm :: "nat \<Rightarrow> (rctx \<Rightarrow> bool \<times> rctx) \<Rightarrow> runtime \<Rightarrow> runtime" where
  "arm c f rt =
     (case f (rt_ctxs rt ! c) of (fires, x) \<Rightarrow>
        rt\<lparr>rt_ctxs := (rt_ctxs rt)[c := x], rt_firing := (if fires then c # rt_firing rt else rt_firing rt)\<rparr>)"

definition evict :: "nat \<Rightarrow> runtime \<Rightarrow> runtime" where
  "evict c rt =
     (let nm = rc_name (rt_ctxs rt ! c)
      in if map_of (rt_rooms rt) nm \<noteq> Some c then rt
         else (upd c ctx_dispose rt)\<lparr>rt_rooms := AList.delete nm (rt_rooms rt)\<rparr>)"

definition maybeEvict :: "nat \<Rightarrow> runtime \<Rightarrow> runtime" where
  "maybeEvict c rt = (if ctx_idle (rt_ctxs rt ! c) then evict c rt else rt)"

definition pin :: "nat \<Rightarrow> runtime \<Rightarrow> runtime" where
  "pin c rt = upd c (\<lambda>x. x\<lparr>rc_pending := rc_pending x + 1\<rparr>) rt"

definition unpin :: "nat \<Rightarrow> runtime \<Rightarrow> runtime" where
  "unpin c rt = maybeEvict c (upd c (\<lambda>x. x\<lparr>rc_pending := rc_pending x - 1\<rparr>) rt)"

text \<open>\<open>init\<close> arms the alarm that is already stored.\<close>

definition ctx_init :: "nat \<Rightarrow> int \<Rightarrow> runtime \<Rightarrow> runtime" where
  "ctx_init c now rt =
     (case rt_alarms rt (rc_name (rt_ctxs rt ! c)) of
        None \<Rightarrow> rt
      | Some t \<Rightarrow> arm c (ctx_reschedule (rt_closed rt) now (Some t)) rt)"

definition rt_get :: "string \<Rightarrow> int \<Rightarrow> runtime \<Rightarrow> nat \<times> runtime" where
  "rt_get nm now rt =
     (case map_of (rt_rooms rt) nm of
        Some c \<Rightarrow> (c, rt)
      | None \<Rightarrow>
          (let c = length (rt_ctxs rt);
               rt1 = rt\<lparr>rt_ctxs := rt_ctxs rt @ [new_ctx nm], rt_rooms := rt_rooms rt @ [(nm, c)]\<rparr>
           in (c, ctx_init c now rt1)))"

definition rehydrate_one :: "string \<Rightarrow> int \<Rightarrow> runtime \<Rightarrow> runtime" where
  "rehydrate_one nm now rt = (case rt_get nm now rt of (c, rt1) \<Rightarrow> maybeEvict c rt1)"

definition rehydrate :: "string list \<Rightarrow> int \<Rightarrow> runtime \<Rightarrow> runtime" where
  "rehydrate nms now rt = fold (\<lambda>nm. rehydrate_one nm now) nms rt"

definition shutdown :: "runtime \<Rightarrow> runtime" where
  "shutdown rt =
     (fold (\<lambda>(_, c). upd c ctx_dispose) (rt_rooms rt) (rt\<lparr>rt_closed := True\<rparr>))\<lparr>rt_rooms := []\<rparr>"

text \<open>What \<open>alarm()\<close> did: the sockets it closed and what it did to the stored alarm, if anything.\<close>

datatype alarm_result = AlarmRan "sid list" "int option option" | AlarmThrew

definition drop_socks :: "sid list \<Rightarrow> rctx \<Rightarrow> rctx" where
  "drop_socks ss x = x\<lparr>rc_socks := filter (\<lambda>(s, _). s \<notin> set ss) (rc_socks x)\<rparr>"

definition store_alarm :: "nat \<Rightarrow> int \<Rightarrow> int option \<Rightarrow> runtime \<Rightarrow> runtime" where
  "store_alarm c now due rt =
     arm c (ctx_reschedule (rt_closed rt) now due)
       (rt\<lparr>rt_alarms := (rt_alarms rt)(rc_name (rt_ctxs rt ! c) := due)\<rparr>)"

text \<open>The rest of \<open>_fire\<close>, once \<open>alarm()\<close> has settled.\<close>

definition fire_end :: "nat \<Rightarrow> int \<Rightarrow> alarm_result \<Rightarrow> runtime \<Rightarrow> runtime" where
  "fire_end c now res rt0 =
     (let rt = rt0\<lparr>rt_firing := remove1 c (rt_firing rt0)\<rparr>
      in maybeEvict c
           (case res of
              AlarmThrew \<Rightarrow> arm c (ctx_reschedule (rt_closed rt) now (Some (now + ALARM_RETRY_MS))) rt
            | AlarmRan ss None \<Rightarrow> upd c (drop_socks ss) rt
            | AlarmRan ss (Some due) \<Rightarrow> store_alarm c now due (upd c (drop_socks ss) rt)))"

section \<open>Reading the registry\<close>

definition has_role :: "role \<Rightarrow> rctx \<Rightarrow> bool" where
  "has_role rl x \<longleftrightarrow> (\<exists>(s, p) \<in> set (rc_socks x). p = Some (Admitted rl))"

record occupancy_counts =
  both :: nat
  mac_only :: nat
  phone_only :: nat
  neither :: nat

definition count_room :: "rctx \<Rightarrow> occupancy_counts \<Rightarrow> occupancy_counts" where
  "count_room x oc =
     (if has_role Mac x \<and> has_role Phone x then oc\<lparr>both := both oc + 1\<rparr>
      else if has_role Mac x then oc\<lparr>mac_only := mac_only oc + 1\<rparr>
      else if has_role Phone x then oc\<lparr>phone_only := phone_only oc + 1\<rparr>
      else oc\<lparr>neither := neither oc + 1\<rparr>)"

definition occupancy :: "runtime \<Rightarrow> occupancy_counts" where
  "occupancy rt = fold (\<lambda>(_, c). count_room (rt_ctxs rt ! c)) (rt_rooms rt)
     \<lparr>both = 0, mac_only = 0, phone_only = 0, neither = 0\<rparr>"

definition roomsInBucket :: "int \<Rightarrow> runtime \<Rightarrow> string list" where
  "roomsInBucket b rt = map fst (filter (\<lambda>(nm, c).
     rc_socks (rt_ctxs rt ! c) \<noteq> [] \<and> bucketForRoomName (Some nm) = Some b) (rt_rooms rt))"

definition closeRoom :: "string \<Rightarrow> runtime \<Rightarrow> nat \<times> runtime" where
  "closeRoom nm rt =
     (case map_of (rt_rooms rt) nm of
        None \<Rightarrow> (0, rt)
      | Some c \<Rightarrow> (let ss = map fst (rc_socks (rt_ctxs rt ! c)) in (length ss, upd c (drop_socks ss) rt)))"

section \<open>Alarm timers\<close>

text \<open>
  The delays one armed alarm sleeps through when every timer is punctual: \<open>_armTimer\<close> calls itself
  when a hop is over.
\<close>

function hops :: "int \<Rightarrow> int \<Rightarrow> int list" where
  "hops due now =
     (case armTimer False now \<lparr>rc_name = [], rc_socks = [], rc_timer = None, rc_alarmAt = Some due, rc_pending = 0\<rparr> of
        (True, _) \<Rightarrow> []
      | (False, x) \<Rightarrow> (case rc_timer x of None \<Rightarrow> [] | Some t \<Rightarrow> (t - now) # hops due t))"
  by pat_completeness auto

termination
  by (relation "measure (\<lambda>(due, now). nat (due - now))")
    (auto simp: armTimer_def fire_def Let_def MAX_DELAY_def split: if_splits)

lemma hops_unfold:
  "hops due now = (if due \<le> now then []
     else min (due - now) MAX_DELAY # hops due (now + min (due - now) MAX_DELAY))"
  by (subst hops.simps) (simp add: armTimer_def fire_def Let_def)

declare hops.simps [simp del]

text \<open>
  A long alarm is reached exactly: however far away its time is, the timer delays that lead up
  to it are all positive and fit the signed 32-bit field of setTimeout, and together they make up
  the whole wait, so a thirty-day alarm neither fires at once nor spins.
\<close>

theorem timer_chain_exact:
  "sum_list (hops due now) = max 0 (due - now)
    \<and> list_all (\<lambda>d. 0 < d \<and> d \<le> 2 ^ 31 - 1) (hops due now)"
proof (induction "nat (due - now)" arbitrary: now rule: less_induct)
  case less
  show ?case
  proof (cases "due \<le> now")
    case True
    then show ?thesis by (simp add: hops_unfold)
  next
    case False
    let ?d = "min (due - now) MAX_DELAY"
    from False have d: "0 < ?d" "?d \<le> due - now" "?d \<le> 2 ^ 31 - 1" by (simp_all add: MAX_DELAY_def)
    then have "nat (due - (now + ?d)) < nat (due - now)" by linarith
    from less.hyps [OF this] False d show ?thesis
      by (subst (1 2) hops_unfold) auto
  qed
qed

section \<open>The registry as a machine\<close>

text \<open>
  The events. \<open>Acquire\<close> is the host's \<open>get\<close> followed by \<open>pin\<close>, which no other event separates,
  and \<open>Release\<close> the matching \<open>unpin\<close>: it waits for an alarm that the same \<open>get\<close> started, since an
  operation of the host hashes the room tag before it ends and an alarm only reads storage.
  A timer runs the whole alarm, for the same reason. Sockets are opened, and alarms stored, by
  operations that hold a pin.
\<close>

datatype rt_event =
    Acquire string int
  | Release nat
  | OpenSock nat sid
  | Attach nat sid phase
  | CloseSock nat sid
  | SockGone nat sid
  | StoreAlarm nat int int
  | DropAlarm nat int
  | AlarmEnds nat int alarm_result
  | TimerFires nat int alarm_result
  | Rehydrate string int
  | Shutdown

definition held :: "runtime \<Rightarrow> nat \<Rightarrow> bool" where
  "held rt c \<longleftrightarrow> c < length (rt_ctxs rt) \<and> 0 < rc_pending (rt_ctxs rt ! c)"

definition attach :: "sid \<Rightarrow> phase \<Rightarrow> rctx \<Rightarrow> rctx" where
  "attach s p x = x\<lparr>rc_socks := map (\<lambda>(t, q). if t = s then (t, Some p) else (t, q)) (rc_socks x)\<rparr>"

fun rt_step :: "rt_event \<Rightarrow> runtime \<Rightarrow> runtime" where
  "rt_step (Acquire nm now) rt = (case rt_get nm now rt of (c, rt1) \<Rightarrow> pin c rt1)"
| "rt_step (Release c) rt = (if held rt c \<and> c \<notin> set (rt_firing rt) then unpin c rt else rt)"
| "rt_step (OpenSock c s) rt =
     (if held rt c then upd c (\<lambda>x. x\<lparr>rc_socks := rc_socks x @ [(s, None)]\<rparr>) rt else rt)"
| "rt_step (Attach c s p) rt = (if c < length (rt_ctxs rt) then upd c (attach s p) rt else rt)"
| "rt_step (CloseSock c s) rt = (if c < length (rt_ctxs rt) then upd c (drop_socks [s]) rt else rt)"
| "rt_step (SockGone c s) rt =
     (if c < length (rt_ctxs rt) then maybeEvict c (upd c (drop_socks [s]) rt) else rt)"
| "rt_step (StoreAlarm c now due) rt = (if held rt c then store_alarm c now (Some due) rt else rt)"
| "rt_step (DropAlarm c now) rt = (if held rt c then store_alarm c now None rt else rt)"
| "rt_step (AlarmEnds c now res) rt = (if c \<in> set (rt_firing rt) then fire_end c now res rt else rt)"
| "rt_step (TimerFires c now res) rt =
     (if c < length (rt_ctxs rt) \<and> (\<exists>t. rc_timer (rt_ctxs rt ! c) = Some t \<and> t \<le> now)
      then let rt1 = arm c (armTimer (rt_closed rt) now) rt
           in if rt_firing rt1 = rt_firing rt then rt1 else fire_end c now res rt1
      else rt)"
| "rt_step (Rehydrate nm now) rt = rehydrate_one nm now rt"
| "rt_step Shutdown rt = shutdown rt"

text \<open>
  A boot-time \<open>get\<close> is not pinned. It is in time when the stored alarm of its room is not due yet;
  the same holds for the alarms a room stores, which lie ahead.
\<close>

fun timely :: "runtime \<Rightarrow> rt_event \<Rightarrow> bool" where
  "timely rt (Rehydrate nm now) = (case rt_alarms rt nm of None \<Rightarrow> True | Some t \<Rightarrow> now < t)"
| "timely rt (StoreAlarm c now due) = (now < due)"
| "timely rt (AlarmEnds c now res) = (case res of AlarmRan ss (Some (Some t)) \<Rightarrow> now < t | _ \<Rightarrow> True)"
| "timely rt (TimerFires c now res) = (case res of AlarmRan ss (Some (Some t)) \<Rightarrow> now < t | _ \<Rightarrow> True)"
| "timely rt _ = True"

inductive rt_reachable :: "runtime \<Rightarrow> bool" where
  boot: "rt_reachable (new_runtime rows)"
| event: "rt_reachable rt \<Longrightarrow> timely rt ev \<Longrightarrow> rt_reachable (rt_step ev rt)"

text \<open>A context is in use while something can still act on it.\<close>

definition in_use :: "runtime \<Rightarrow> nat \<Rightarrow> bool" where
  "in_use rt c \<longleftrightarrow> c < length (rt_ctxs rt) \<and> (\<not> ctx_idle (rt_ctxs rt ! c) \<or> c \<in> set (rt_firing rt))"

definition resident :: "runtime \<Rightarrow> nat \<Rightarrow> bool" where
  "resident rt c \<longleftrightarrow> map_of (rt_rooms rt) (rc_name (rt_ctxs rt ! c)) = Some c"

text \<open>
  The invariant, field by field of one context: a socket, pin or alarm makes it resident; a timer
  is armed for an alarm time only, and not after shutdown; an alarm that runs while another event
  can happen is protected by a pin.
\<close>

definition ctx_ok :: "runtime \<Rightarrow> nat \<Rightarrow> bool" where
  "ctx_ok rt c \<longleftrightarrow>
     (\<not> rt_closed rt \<longrightarrow> in_use rt c \<longrightarrow> resident rt c)
     \<and> (rc_timer (rt_ctxs rt ! c) \<noteq> None \<longrightarrow> rc_alarmAt (rt_ctxs rt ! c) \<noteq> None \<and> \<not> rt_closed rt)
     \<and> 0 \<le> rc_pending (rt_ctxs rt ! c)
     \<and> (c \<in> set (rt_firing rt) \<longrightarrow> 0 < rc_pending (rt_ctxs rt ! c))"

definition reg_ok :: "runtime \<Rightarrow> bool" where
  "reg_ok rt \<longleftrightarrow> distinct (map fst (rt_rooms rt)) \<and> set (rt_firing rt) \<subseteq> {..<length (rt_ctxs rt)}
     \<and> (\<forall>(nm, c) \<in> set (rt_rooms rt). c < length (rt_ctxs rt) \<and> rc_name (rt_ctxs rt ! c) = nm)"

definition rt_inv :: "runtime \<Rightarrow> bool" where
  "rt_inv rt \<longleftrightarrow> reg_ok rt \<and> (\<forall>c < length (rt_ctxs rt). ctx_ok rt c)"

section \<open>The invariant is kept\<close>

lemma rt_inv_ctx: "rt_inv rt \<Longrightarrow> c < length (rt_ctxs rt) \<Longrightarrow> ctx_ok rt c"
  by (simp add: rt_inv_def)

lemma change_inv:
  assumes "rt_inv rt" "c < length (rt_ctxs rt)"
    and "rt_rooms rt' = rt_rooms rt" "rt_closed rt' = rt_closed rt"
    and "rt_ctxs rt' = (rt_ctxs rt)[c := x]" "rc_name x = rc_name (rt_ctxs rt ! c)"
    and "set (rt_firing rt') - {c} = set (rt_firing rt) - {c}" "ctx_ok rt' c"
  shows "rt_inv rt'"
  unfolding rt_inv_def
proof
  have len: "length (rt_ctxs rt') = length (rt_ctxs rt)" by (simp add: assms(5))
  have name: "rc_name (rt_ctxs rt' ! d) = rc_name (rt_ctxs rt ! d)" if "d < length (rt_ctxs rt)" for d
    using that assms(2,5,6) by (cases "d = c") simp_all
  have sub: "set (rt_firing rt') \<subseteq> insert c (set (rt_firing rt))" using assms(7) by blast
  show "reg_ok rt'"
    using assms(1-3) len name sub unfolding rt_inv_def reg_ok_def by fastforce
  show "\<forall>d < length (rt_ctxs rt'). ctx_ok rt' d"
  proof (intro allI impI)
    fix d assume d: "d < length (rt_ctxs rt')"
    show "ctx_ok rt' d"
    proof (cases "d = c")
      case False
      then have "d \<in> set (rt_firing rt') \<longleftrightarrow> d \<in> set (rt_firing rt)" "rt_ctxs rt' ! d = rt_ctxs rt ! d"
        using assms(5,7) by auto
      then show ?thesis
        using rt_inv_ctx [OF assms(1), of d] d len assms(3,4)
        by (simp add: ctx_ok_def in_use_def resident_def)
    qed (use assms(8) in simp)
  qed
qed

lemma add_inv:
  assumes "rt_inv rt" "map_of (rt_rooms rt) nm = None"
    and "rt_rooms rt' = rt_rooms rt @ [(nm, length (rt_ctxs rt))]" "rt_closed rt' = rt_closed rt"
    and "rt_ctxs rt' = rt_ctxs rt @ [x]" "rc_name x = nm"
    and "set (rt_firing rt') - {length (rt_ctxs rt)} = set (rt_firing rt)" "ctx_ok rt' (length (rt_ctxs rt))"
  shows "rt_inv rt'"
  unfolding rt_inv_def
proof
  let ?n = "length (rt_ctxs rt)"
  have sub: "set (rt_firing rt') \<subseteq> insert ?n (set (rt_firing rt))" using assms(7) by blast
  have new: "nm \<notin> fst ` set (rt_rooms rt)" using assms(2) by (simp add: map_of_eq_None_iff)
  show "reg_ok rt'"
    using assms(1,3,5,6) sub new unfolding rt_inv_def reg_ok_def
    by (fastforce simp: nth_append)
  show "\<forall>d < length (rt_ctxs rt'). ctx_ok rt' d"
  proof (intro allI impI)
    fix d assume d: "d < length (rt_ctxs rt')"
    show "ctx_ok rt' d"
    proof (cases "d = ?n")
      case False
      then have d': "d < ?n" using d assms(5) by simp
      then have "d \<in> set (rt_firing rt') \<longleftrightarrow> d \<in> set (rt_firing rt)" "rt_ctxs rt' ! d = rt_ctxs rt ! d"
        using assms(5,7) by (auto simp: nth_append)
      moreover have "resident rt d \<Longrightarrow> resident rt' d"
        using assms(3,5) d' by (simp add: resident_def nth_append map_add_def)
      ultimately show ?thesis
        using rt_inv_ctx [OF assms(1) d'] d d' assms(4)
        by (simp add: ctx_ok_def in_use_def)
    qed (use assms(8) in simp)
  qed
qed

lemma idle_not_firing: "rt_inv rt \<Longrightarrow> c < length (rt_ctxs rt) \<Longrightarrow> ctx_idle (rt_ctxs rt ! c) \<Longrightarrow> c \<notin> set (rt_firing rt)"
  using rt_inv_ctx [of rt c] by (auto simp: ctx_ok_def ctx_idle_def)

lemma maybeEvict_inv:
  assumes "rt_inv rt" "c < length (rt_ctxs rt)"
  shows "rt_inv (maybeEvict c rt)"
proof (cases "ctx_idle (rt_ctxs rt ! c) \<and> resident rt c")
  case False
  then have "maybeEvict c rt = rt" by (auto simp: maybeEvict_def evict_def resident_def Let_def)
  then show ?thesis using assms(1) by simp
next
  case True
  let ?x = "ctx_dispose (rt_ctxs rt ! c)"
  let ?rt = "rt\<lparr>rt_ctxs := (rt_ctxs rt)[c := ?x]\<rparr>"
  let ?nm = "rc_name (rt_ctxs rt ! c)"
  have ev: "maybeEvict c rt = ?rt\<lparr>rt_rooms := AList.delete ?nm (rt_rooms rt)\<rparr>"
    using True by (simp add: maybeEvict_def evict_def resident_def upd_def Let_def)
  have "rt_inv ?rt"
    using rt_inv_ctx [OF assms] assms True
    by (intro change_inv [OF assms, where x = ?x])
      (auto simp: ctx_ok_def in_use_def resident_def ctx_dispose_def ctx_idle_def)
  moreover have "resident (maybeEvict c rt) d" if "in_use ?rt d" "resident ?rt d" for d
  proof -
    have "d \<noteq> c" using that(1) True idle_not_firing [OF assms] by (auto simp: in_use_def ctx_idle_def ctx_dispose_def)
    with that assms(2) True have "rc_name (rt_ctxs rt ! d) \<noteq> ?nm"
      by (auto simp: resident_def in_use_def)
    with that \<open>d \<noteq> c\<close> show ?thesis by (simp add: ev resident_def delete_conv' AList.delete_conv)
  qed
  ultimately show ?thesis
    unfolding ev rt_inv_def reg_ok_def ctx_ok_def
    by (auto simp: in_use_def AList.delete_eq distinct_map_filter split: prod.splits)
qed

lemma upd_inv:
  assumes "rt_inv rt" "c < length (rt_ctxs rt)" "rc_name (f (rt_ctxs rt ! c)) = rc_name (rt_ctxs rt ! c)"
    and "ctx_ok (upd c f rt) c"
  shows "rt_inv (upd c f rt)"
  using assms by (intro change_inv [OF assms(1,2), where x = "f (rt_ctxs rt ! c)"]) (simp_all add: upd_def)

text \<open>Rescheduling to a time ahead, or to none, never fires.\<close>

definition ahead :: "int \<Rightarrow> int option \<Rightarrow> bool" where
  "ahead now due \<longleftrightarrow> (case due of None \<Rightarrow> True | Some t \<Rightarrow> now < t)"

lemma reschedule_ahead:
  assumes "ahead now due"
  shows "ctx_reschedule shut now due x =
    (False, if shut then x\<lparr>rc_timer := None\<rparr>
            else x\<lparr>rc_timer := map_option (\<lambda>t. now + min (t - now) MAX_DELAY) due, rc_alarmAt := due\<rparr>)"
  using assms by (cases due) (auto simp: ctx_reschedule_def armTimer_def ahead_def Let_def)

lemma arm_ahead:
  assumes "ahead now due"
  shows "arm c (ctx_reschedule (rt_closed rt) now due) rt =
    upd c (\<lambda>x. if rt_closed rt then x\<lparr>rc_timer := None\<rparr>
      else x\<lparr>rc_timer := map_option (\<lambda>t. now + min (t - now) MAX_DELAY) due, rc_alarmAt := due\<rparr>) rt"
  using assms by (simp add: arm_def reschedule_ahead upd_def)

definition anchored :: "runtime \<Rightarrow> nat \<Rightarrow> bool" where
  "anchored rt c \<longleftrightarrow> rt_inv rt \<and> c < length (rt_ctxs rt) \<and> (rt_closed rt \<or> resident rt c)"

lemma in_use_anchored: "rt_inv rt \<Longrightarrow> in_use rt c \<Longrightarrow> anchored rt c"
  using rt_inv_ctx [of rt c] by (auto simp: anchored_def in_use_def ctx_ok_def)

definition timer_ok :: "runtime \<Rightarrow> rctx \<Rightarrow> bool" where
  "timer_ok rt x \<longleftrightarrow> (rc_timer x \<noteq> None \<longrightarrow> rc_alarmAt x \<noteq> None \<and> \<not> rt_closed rt)"

lemma anchored_upd:
  assumes "anchored rt c" "\<And>x. rc_name (f x) = rc_name x" "\<And>x. rc_pending (f x) = rc_pending x"
    and "\<And>x. timer_ok rt x \<Longrightarrow> timer_ok rt (f x)"
  shows "anchored (upd c f rt) c"
proof -
  have rt: "rt_inv rt" "c < length (rt_ctxs rt)" using assms(1) by (simp_all add: anchored_def)
  have res: "rt_closed rt \<or> resident (upd c f rt) c"
    using assms(1,2) by (auto simp: anchored_def resident_def upd_def)
  have "ctx_ok (upd c f rt) c"
    using rt_inv_ctx [OF rt] assms(3) assms(4) [of "rt_ctxs rt ! c"] rt(2) res
    unfolding ctx_ok_def timer_ok_def by (auto simp: upd_def)
  then have "rt_inv (upd c f rt)" by (intro upd_inv rt assms(2))
  with res rt(2) show ?thesis by (simp add: anchored_def upd_def)
qed

lemma anchored_arm:
  assumes "anchored rt c" "ahead now due"
  shows "anchored (arm c (ctx_reschedule (rt_closed rt) now due) rt) c"
  unfolding arm_ahead [OF assms(2)]
  by (rule anchored_upd [OF assms(1)]) (auto simp: timer_ok_def)

lemma anchored_rows: "anchored (rt\<lparr>rt_alarms := al\<rparr>) c = anchored rt c"
proof -
  have "ctx_ok (rt\<lparr>rt_alarms := al\<rparr>) d = ctx_ok rt d" for d
    by (simp add: ctx_ok_def in_use_def resident_def)
  then show ?thesis by (simp add: anchored_def rt_inv_def reg_ok_def resident_def)
qed

lemma anchored_store:
  assumes "anchored rt c" "ahead now due"
  shows "anchored (store_alarm c now due rt) c"
  using anchored_arm [of "rt\<lparr>rt_alarms := (rt_alarms rt)(rc_name (rt_ctxs rt ! c) := due)\<rparr>" c now due] assms
  by (simp add: store_alarm_def anchored_rows)

lemma anchored_drop: "anchored rt c \<Longrightarrow> anchored (upd c (drop_socks ss) rt) c"
  by (rule anchored_upd) (simp_all add: drop_socks_def timer_ok_def)

fun result_ahead :: "int \<Rightarrow> alarm_result \<Rightarrow> bool" where
  "result_ahead now (AlarmRan ss (Some due)) = ahead now due"
| "result_ahead now _ = True"

lemma fire_end_inv:
  assumes "anchored (rt\<lparr>rt_firing := remove1 c (rt_firing rt)\<rparr>) c" "result_ahead now res"
  shows "rt_inv (fire_end c now res rt)"
proof -
  let ?rt = "rt\<lparr>rt_firing := remove1 c (rt_firing rt)\<rparr>"
  have retry: "anchored (arm c (ctx_reschedule (rt_closed rt) now (Some (now + ALARM_RETRY_MS))) ?rt) c"
    using anchored_arm [OF assms(1), of now "Some (now + ALARM_RETRY_MS)"]
    by (simp add: ahead_def ALARM_RETRY_MS_def)
  have ran: "anchored (case ch of None \<Rightarrow> upd c (drop_socks ss) ?rt
      | Some due \<Rightarrow> store_alarm c now due (upd c (drop_socks ss) ?rt)) c"
    if "res = AlarmRan ss ch" for ss ch
    using that assms(2) by (auto intro!: anchored_store anchored_drop assms(1) split: option.splits)
  show ?thesis
  proof (cases res)
    case AlarmThrew
    with retry show ?thesis by (simp add: fire_end_def maybeEvict_inv anchored_def)
  next
    case (AlarmRan ss ch)
    with ran [OF AlarmRan] show ?thesis
      by (cases ch) (simp_all add: fire_end_def maybeEvict_inv anchored_def)
  qed
qed

lemma keep_idle_inv:
  assumes "rt_inv rt" "c < length (rt_ctxs rt)"
    and "\<And>x. rc_name (f x) = rc_name x \<and> rc_pending (f x) = rc_pending x \<and> rc_timer (f x) = rc_timer x
      \<and> rc_alarmAt (f x) = rc_alarmAt x \<and> (ctx_idle x \<longrightarrow> ctx_idle (f x))"
  shows "rt_inv (upd c f rt)"
  using assms(3) [of "rt_ctxs rt ! c"] rt_inv_ctx [OF assms(1,2)] assms(2)
  by (intro upd_inv assms(1,2)) (auto simp: upd_def ctx_ok_def in_use_def resident_def)

lemma held_in_use: "held rt c \<Longrightarrow> in_use rt c"
  by (auto simp: held_def in_use_def ctx_idle_def)

lemma acquire_inv:
  assumes "rt_inv rt"
  shows "rt_inv (rt_step (Acquire nm now) rt)"
proof (cases "map_of (rt_rooms rt) nm")
  case (Some c)
  then have c: "c < length (rt_ctxs rt)" "rc_name (rt_ctxs rt ! c) = nm"
    using assms map_of_SomeD [OF Some] by (auto simp: rt_inv_def reg_ok_def)
  then have "ctx_ok (pin c rt) c"
    using rt_inv_ctx [OF assms c(1)] Some by (auto simp: pin_def upd_def ctx_ok_def resident_def)
  with Some c show ?thesis
    unfolding pin_def by (simp add: rt_get_def pin_def upd_inv [OF assms])
next
  case None
  let ?n = "length (rt_ctxs rt)"
  let ?rt = "rt_step (Acquire nm now) rt"
  define f where "f = (case rt_alarms rt nm of None \<Rightarrow> (\<lambda>x. (False, x))
    | Some t \<Rightarrow> ctx_reschedule (rt_closed rt) now (Some t))"
  obtain b x where f: "f (new_ctx nm) = (b, x)" by force
  then have x: "rc_name x = nm" "rc_pending x = 0" "timer_ok rt x"
    by (auto simp: f_def new_ctx_def ctx_reschedule_def armTimer_def fire_def timer_ok_def Let_def
        split: option.splits if_splits)
  have rt: "?rt = rt\<lparr>rt_ctxs := rt_ctxs rt @ [x\<lparr>rc_pending := 1\<rparr>], rt_rooms := rt_rooms rt @ [(nm, ?n)],
      rt_firing := (if b then ?n # rt_firing rt else rt_firing rt)\<rparr>"
    using None f x(2) by (cases "rt_alarms rt nm")
      (auto simp: rt_get_def ctx_init_def arm_def pin_def upd_def f_def new_ctx_def nth_append Let_def)
  have "?n \<notin> set (rt_firing rt)" using assms by (auto simp: rt_inv_def reg_ok_def)
  moreover have "ctx_ok ?rt ?n"
    using x None unfolding rt by (auto simp: ctx_ok_def resident_def timer_ok_def map_add_def)
  ultimately show ?thesis
    using x(1) unfolding rt
    by (intro add_inv [OF assms None, where x = "x\<lparr>rc_pending := 1\<rparr>"]) auto
qed

lemma rehydrate_one_inv:
  assumes "rt_inv rt" "ahead now (rt_alarms rt nm)"
  shows "rt_inv (rehydrate_one nm now rt)"
proof (cases "map_of (rt_rooms rt) nm")
  case (Some c)
  then have "c < length (rt_ctxs rt)"
    using assms(1) map_of_SomeD [OF Some] by (auto simp: rt_inv_def reg_ok_def)
  with Some show ?thesis by (simp add: rehydrate_one_def rt_get_def maybeEvict_inv [OF assms(1)])
next
  case None
  let ?n = "length (rt_ctxs rt)"
  obtain x where x: "rc_name x = nm" "rc_pending x = 0" "timer_ok rt x"
    and rt: "snd (rt_get nm now rt) = rt\<lparr>rt_ctxs := rt_ctxs rt @ [x], rt_rooms := rt_rooms rt @ [(nm, ?n)]\<rparr>"
  proof (cases "rt_alarms rt nm")
    case None
    then show thesis
      using that [of "new_ctx nm"] \<open>map_of (rt_rooms rt) nm = None\<close>
      by (simp add: rt_get_def ctx_init_def new_ctx_def timer_ok_def Let_def)
  next
    case (Some t)
    obtain x where "ctx_reschedule (rt_closed rt) now (Some t) (new_ctx nm) = (False, x)"
      "rc_name x = nm" "rc_pending x = 0" "timer_ok rt x"
      using assms(2) Some by (simp add: reschedule_ahead new_ctx_def timer_ok_def)
    then show thesis
      using that [of x] \<open>map_of (rt_rooms rt) nm = None\<close> Some
      by (simp add: rt_get_def ctx_init_def arm_def Let_def new_ctx_def)
  qed
  have "?n \<notin> set (rt_firing rt)" using assms by (auto simp: rt_inv_def reg_ok_def)
  moreover have "ctx_ok (snd (rt_get nm now rt)) ?n"
    using x \<open>map_of (rt_rooms rt) nm = None\<close> \<open>?n \<notin> set (rt_firing rt)\<close> unfolding rt
    by (auto simp: ctx_ok_def resident_def timer_ok_def map_add_def)
  ultimately have "rt_inv (snd (rt_get nm now rt))"
    using x(1) unfolding rt by (intro add_inv [OF assms(1) None, where x = x]) auto
  moreover have "fst (rt_get nm now rt) = ?n" "?n < length (rt_ctxs (snd (rt_get nm now rt)))"
    using None rt by (simp_all add: rt_get_def Let_def)
  ultimately show ?thesis
    by (simp add: rehydrate_one_def maybeEvict_inv split_def)
qed

lemma timer_inv:
  assumes "rt_inv rt" "result_ahead now res"
  shows "rt_inv (rt_step (TimerFires c now res) rt)"
proof (cases "c < length (rt_ctxs rt) \<and> (\<exists>t. rc_timer (rt_ctxs rt ! c) = Some t \<and> t \<le> now)")
  case False
  then show ?thesis using assms(1) by auto
next
  case due: True
  then have c: "c < length (rt_ctxs rt)" and open_rt: "\<not> rt_closed rt"
    and t: "rc_alarmAt (rt_ctxs rt ! c) \<noteq> None"
    using rt_inv_ctx [OF assms(1), of c] by (auto simp: ctx_ok_def)
  then have anc: "anchored rt c"
    by (intro in_use_anchored assms(1)) (auto simp: in_use_def ctx_idle_def)
  then obtain due where at_due: "rc_alarmAt (rt_ctxs rt ! c) = Some due" using t by auto
  show ?thesis
  proof (cases "due - now \<le> 0")
    case True
    let ?f = "\<lambda>x. x\<lparr>rc_timer := None, rc_alarmAt := None\<rparr>"
    let ?rt = "arm c (armTimer (rt_closed rt) now) rt"
    have rt1: "?rt = (upd c ?f rt)\<lparr>rt_firing := c # rt_firing rt\<rparr>"
      using True open_rt at_due by (simp add: arm_def armTimer_def fire_def upd_def Let_def)
    have "anchored (upd c ?f rt) c"
      by (rule anchored_upd [OF anc]) (simp_all add: timer_ok_def)
    then have "anchored (?rt\<lparr>rt_firing := remove1 c (rt_firing ?rt)\<rparr>) c"
      unfolding rt1 by (simp add: upd_def)
    from fire_end_inv [OF this assms(2)] due rt1 show ?thesis by (simp add: Let_def)
  next
    case False
    let ?f = "\<lambda>x. x\<lparr>rc_timer := Some (now + min (due - now) MAX_DELAY)\<rparr>"
    have rt1: "arm c (armTimer (rt_closed rt) now) rt = upd c ?f rt"
      using False at_due by (simp add: arm_def armTimer_def upd_def Let_def)
    have "rt_inv (upd c ?f rt)"
      using rt_inv_ctx [OF assms(1) c] open_rt t c
      by (intro upd_inv assms(1)) (auto simp: upd_def ctx_ok_def in_use_def resident_def ctx_idle_def)
    with due rt1 show ?thesis by (simp add: Let_def upd_def)
  qed
qed

lemma fold_dispose:
  assumes "\<forall>(nm, c) \<in> set rs. c < length (rt_ctxs rt)"
  shows "let rt' = fold (\<lambda>(_, c). upd c ctx_dispose) rs rt in
    rt_rooms rt' = rt_rooms rt \<and> rt_closed rt' = rt_closed rt \<and> rt_firing rt' = rt_firing rt
    \<and> length (rt_ctxs rt') = length (rt_ctxs rt)
    \<and> (\<forall>c < length (rt_ctxs rt). rt_ctxs rt' ! c =
         (if c \<in> snd ` set rs then ctx_dispose (rt_ctxs rt ! c) else rt_ctxs rt ! c))"
  using assms
proof (induction rs arbitrary: rt)
  case (Cons r rs)
  obtain nm c where r: "r = (nm, c)" by force
  have "\<forall>(nm, c) \<in> set rs. c < length (rt_ctxs (upd c ctx_dispose rt))"
    using Cons.prems by (auto simp: upd_def)
  from Cons.IH [of "upd c ctx_dispose rt"] Cons.prems r show ?case
    by (auto simp: upd_def Let_def nth_list_update ctx_dispose_def)
qed (simp add: Let_def)

lemma shutdown_inv:
  assumes "rt_inv rt"
  shows "rt_inv (shutdown rt)"
proof -
  let ?rt = "shutdown rt"
  have "\<forall>(nm, c) \<in> set (rt_rooms rt). c < length (rt_ctxs (rt\<lparr>rt_closed := True\<rparr>))"
    using assms by (auto simp: rt_inv_def reg_ok_def)
  note f = fold_dispose [OF this]
  have len: "length (rt_ctxs ?rt) = length (rt_ctxs rt)" and fs: "rt_firing ?rt = rt_firing rt"
    and cl: "rt_closed ?rt" "rt_rooms ?rt = []"
    using f by (simp_all add: shutdown_def Let_def)
  have ctx: "rt_ctxs ?rt ! c = (if c \<in> snd ` set (rt_rooms rt) then ctx_dispose (rt_ctxs rt ! c) else rt_ctxs rt ! c)"
    if "c < length (rt_ctxs rt)" for c
    using f that by (simp add: shutdown_def Let_def)
  have "ctx_ok ?rt c" if c: "c < length (rt_ctxs rt)" for c
  proof -
    have "resident rt c" if "rc_timer (rt_ctxs rt ! c) \<noteq> None"
      using that rt_inv_ctx [OF assms c] c by (auto simp: ctx_ok_def in_use_def ctx_idle_def)
    then have "rc_timer (rt_ctxs rt ! c) \<noteq> None \<longrightarrow> c \<in> snd ` set (rt_rooms rt)"
      by (force simp: resident_def dest: map_of_SomeD)
    then show ?thesis
      using rt_inv_ctx [OF assms c] cl fs ctx [OF c] by (auto simp: ctx_ok_def ctx_dispose_def)
  qed
  then show ?thesis
    using assms len fs cl by (auto simp: rt_inv_def reg_ok_def)
qed

lemma alarm_ends_inv:
  assumes "rt_inv rt" "result_ahead now res"
  shows "rt_inv (rt_step (AlarmEnds c now res) rt)"
proof (cases "c \<in> set (rt_firing rt)")
  case True
  then have c: "c < length (rt_ctxs rt)" using assms(1) by (auto simp: rt_inv_def reg_ok_def)
  with True have anc: "anchored rt c" by (intro in_use_anchored assms(1)) (simp add: in_use_def)
  let ?rt = "rt\<lparr>rt_firing := remove1 c (rt_firing rt)\<rparr>"
  have "set (remove1 c (rt_firing rt)) - {c} = set (rt_firing rt) - {c}"
    using set_remove1_subset [of c "rt_firing rt"] by auto
  moreover have "ctx_ok ?rt c"
    using rt_inv_ctx [OF assms(1) c] anc set_remove1_subset [of c "rt_firing rt"]
    by (auto simp: ctx_ok_def anchored_def resident_def)
  ultimately have "rt_inv ?rt"
    by (intro change_inv [OF assms(1) c, where x = "rt_ctxs rt ! c"]) simp_all
  then have "anchored ?rt c" using anc by (simp add: anchored_def resident_def)
  from fire_end_inv [OF this assms(2)] True show ?thesis by simp
qed (use assms(1) in simp)

lemma result_ahead_timely:
  "timely rt (AlarmEnds c now res) \<Longrightarrow> result_ahead now res"
  "timely rt (TimerFires c now res) \<Longrightarrow> result_ahead now res"
  by (cases res; auto simp: ahead_def split: option.splits)+

lemma rt_step_inv:
  assumes "rt_inv rt" "timely rt ev"
  shows "rt_inv (rt_step ev rt)"
proof (cases ev)
  case (Acquire nm now)
  then show ?thesis using acquire_inv [OF assms(1)] by simp
next
  case (Release c)
  have "rt_inv (unpin c rt)" if "held rt c" "c \<notin> set (rt_firing rt)"
    using that rt_inv_ctx [OF assms(1), of c] unfolding unpin_def
    by (intro maybeEvict_inv upd_inv assms(1))
      (auto simp: upd_def held_def ctx_ok_def in_use_def resident_def ctx_idle_def)
  with Release assms(1) show ?thesis by simp
next
  case (OpenSock c s)
  have "rt_inv (upd c (\<lambda>x. x\<lparr>rc_socks := rc_socks x @ [(s, None)]\<rparr>) rt)" if "held rt c"
    using anchored_upd [OF in_use_anchored [OF assms(1) held_in_use [OF that]],
        of "\<lambda>x. x\<lparr>rc_socks := rc_socks x @ [(s, None)]\<rparr>"]
    by (simp add: anchored_def timer_ok_def)
  with OpenSock assms(1) show ?thesis by simp
next
  case (Attach c s p)
  have "rt_inv (upd c (attach s p) rt)" if "c < length (rt_ctxs rt)"
    by (rule keep_idle_inv [OF assms(1) that]) (auto simp: attach_def ctx_idle_def)
  with Attach assms(1) show ?thesis by simp
next
  case (CloseSock c s)
  have "rt_inv (upd c (drop_socks [s]) rt)" if "c < length (rt_ctxs rt)"
    by (rule keep_idle_inv [OF assms(1) that]) (auto simp: drop_socks_def ctx_idle_def)
  with CloseSock assms(1) show ?thesis by simp
next
  case (SockGone c s)
  have "rt_inv (maybeEvict c (upd c (drop_socks [s]) rt))" if "c < length (rt_ctxs rt)"
    using that by (intro maybeEvict_inv keep_idle_inv [OF assms(1) that])
      (auto simp: drop_socks_def ctx_idle_def upd_def)
  with SockGone assms(1) show ?thesis by simp
next
  case (StoreAlarm c now due)
  have "rt_inv (store_alarm c now (Some due) rt)" if "held rt c"
    using anchored_store [OF in_use_anchored [OF assms(1) held_in_use [OF that]]] assms(2) StoreAlarm
    by (simp add: anchored_def ahead_def)
  with StoreAlarm assms(1) show ?thesis by simp
next
  case (DropAlarm c now)
  have "rt_inv (store_alarm c now None rt)" if "held rt c"
    using anchored_store [OF in_use_anchored [OF assms(1) held_in_use [OF that]], of now None]
    by (simp add: anchored_def ahead_def)
  with DropAlarm assms(1) show ?thesis by simp
next
  case (AlarmEnds c now res)
  with alarm_ends_inv [OF assms(1)] assms(2) show ?thesis by (simp only: result_ahead_timely)
next
  case (TimerFires c now res)
  with timer_inv [OF assms(1)] assms(2) show ?thesis by (simp only: result_ahead_timely)
next
  case (Rehydrate nm now)
  with rehydrate_one_inv [OF assms(1)] assms(2) show ?thesis by (simp add: ahead_def)
qed (simp add: shutdown_inv assms(1))

lemma rt_reachable_inv: "rt_reachable rt \<Longrightarrow> rt_inv rt"
proof (induction rule: rt_reachable.induct)
  case (boot rows)
  show ?case by (simp add: rt_inv_def reg_ok_def new_runtime_def)
qed (rule rt_step_inv)

section \<open>What the registry guarantees\<close>


definition demo_boot :: runtime where
  "demo_boot = rt_step (OpenSock 0 7) (rt_step (Acquire ''r'' 10) (new_runtime (\<lambda>_. None)))"

lemma demo_boot_reachable: "rt_reachable demo_boot"
  unfolding demo_boot_def by (intro rt_reachable.intros) simp_all


text \<open>
  A boot-time access to a room whose stored alarm is overdue starts the alarm and drops the context
  before the alarm is done: when it stores its next time, a timer is armed on a context that the
  registry no longer knows.
\<close>

lemma rehydrate_overdue_orphans:
  "let rt = rt_step (AlarmEnds 0 10 (AlarmRan [] (Some (Some 100))))
       (rt_step (Rehydrate ''r'' 10) (new_runtime (\<lambda>_. Some 5)))
   in rc_timer (rt_ctxs rt ! 0) = Some 100 \<and> rt_rooms rt = []"
  by (simp add: rehydrate_one_def rt_get_def ctx_init_def new_runtime_def new_ctx_def arm_def ctx_reschedule_def
      armTimer_def fire_def maybeEvict_def evict_def upd_def ctx_idle_def fire_end_def store_alarm_def
      drop_socks_def MAX_DELAY_def ctx_dispose_def Let_def AList.delete_eq)

lemma closed_ops [simp]:
  "rt_closed (upd c f rt) = rt_closed rt" "rt_closed (arm c g rt) = rt_closed rt"
  "rt_closed (evict c rt) = rt_closed rt" "rt_closed (maybeEvict c rt) = rt_closed rt"
  "rt_closed (pin c rt) = rt_closed rt" "rt_closed (unpin c rt) = rt_closed rt"
  "rt_closed (store_alarm c now due rt) = rt_closed rt" "rt_closed (ctx_init c now rt) = rt_closed rt"
  by (simp_all add: upd_def arm_def evict_def maybeEvict_def pin_def unpin_def store_alarm_def ctx_init_def
      Let_def split_def split: option.split)

lemma closed_get [simp]: "rt_closed (snd (rt_get nm now rt)) = rt_closed rt"
  by (simp add: rt_get_def Let_def split: option.split)

lemma closed_fire_end [simp]: "rt_closed (fire_end c now res rt) = rt_closed rt"
  by (simp add: fire_end_def Let_def split: alarm_result.split option.split)

lemma closed_dispose [simp]: "rt_closed (fold (\<lambda>p. upd (snd p) ctx_dispose) rs r) = rt_closed r"
  by (induction rs arbitrary: r) simp_all

lemma closed_stable: "rt_closed rt \<Longrightarrow> rt_closed (rt_step ev rt)"
  by (cases ev) (simp_all add: split_def Let_def rehydrate_one_def shutdown_def)



section \<open>Occupancy and draining\<close>

definition rooms_counted :: "occupancy_counts \<Rightarrow> nat" where
  "rooms_counted oc = both oc + mac_only oc + phone_only oc + neither oc"

lemma occupancy_total: "rooms_counted (occupancy rt) = length (rt_rooms rt)"
proof -
  have step: "rooms_counted (count_room x oc) = Suc (rooms_counted oc)" for x oc
    by (simp add: rooms_counted_def count_room_def)
  have "rooms_counted (fold (\<lambda>(_, c). count_room (rt_ctxs rt ! c)) rs oc) = rooms_counted oc + length rs"
    for rs :: "(string \<times> nat) list" and oc
    by (induction rs arbitrary: oc) (simp_all add: split_def step)
  moreover have "rooms_counted \<lparr>both = 0, mac_only = 0, phone_only = 0, neither = 0\<rparr> = 0"
    by (simp add: rooms_counted_def)
  ultimately show ?thesis by (simp add: occupancy_def)
qed

lemma roomsInBucket_iff:
  assumes "reg_ok rt"
  shows "nm \<in> set (roomsInBucket b rt) \<longleftrightarrow>
    (\<exists>c. map_of (rt_rooms rt) nm = Some c \<and> rc_socks (rt_ctxs rt ! c) \<noteq> [] \<and> bucketForRoomName (Some nm) = Some b)"
proof -
  have "(nm, c) \<in> set (rt_rooms rt) \<longleftrightarrow> map_of (rt_rooms rt) nm = Some c" for c
    using assms by (simp add: reg_ok_def)
  then show ?thesis by (auto simp: roomsInBucket_def image_iff)
qed

lemma closeRoom_empties:
  assumes "reg_ok rt" "closeRoom nm rt = (n, rt')"
  shows "rt_rooms rt' = rt_rooms rt \<and> reg_ok rt'
    \<and> (\<forall>m c. map_of (rt_rooms rt) m = Some c \<longrightarrow>
         rc_socks (rt_ctxs rt' ! c) = (if m = nm then [] else rc_socks (rt_ctxs rt ! c)))"
proof (cases "map_of (rt_rooms rt) nm")
  case (Some c)
  have c: "c < length (rt_ctxs rt)" "rc_name (rt_ctxs rt ! c) = nm"
    using map_of_SomeD [OF Some] assms(1) by (auto simp: reg_ok_def)
  let ?x = "drop_socks (map fst (rc_socks (rt_ctxs rt ! c))) (rt_ctxs rt ! c)"
  have rt': "rt' = rt\<lparr>rt_ctxs := (rt_ctxs rt)[c := ?x]\<rparr>"
    using assms(2) Some by (simp add: closeRoom_def upd_def Let_def)
  have x: "rc_socks ?x = []" "rc_name ?x = nm"
    using c by (force simp: drop_socks_def filter_empty_conv)+
  have other: "m = nm" if "map_of (rt_rooms rt) m = Some c" for m
    using map_of_SomeD [OF that] assms(1) c by (auto simp: reg_ok_def)
  have "rc_name ((rt_ctxs rt)[c := ?x] ! d) = rc_name (rt_ctxs rt ! d)" for d
    using c x by (cases "d = c") simp_all
  then have "reg_ok rt'"
    using assms(1) unfolding rt' by (simp add: reg_ok_def)
  moreover have "rc_socks ((rt_ctxs rt)[c := ?x] ! d) = (if m = nm then [] else rc_socks (rt_ctxs rt ! d))"
    if m: "map_of (rt_rooms rt) m = Some d" for m d
  proof (cases "d = c")
    case True
    with other [of m] m x(1) c(1) show ?thesis by simp
  next
    case False
    with m Some have "m \<noteq> nm" by auto
    with False show ?thesis by simp
  qed
  ultimately show ?thesis unfolding rt' by simp
next
  case None
  with assms show ?thesis by (auto simp: closeRoom_def)
qed

end
