(* ===== verification/Text.thy ===== *)
theory Text
  imports ShardMap "HOL-Library.Sublist"
begin

text \<open>
  The string operations of JavaScript that the host, the monitor and the dashboard use: trimming,
  lower case, splitting and joining, and decimal numbers in both directions. The lemmas are the
  round trips: joined lines split into the same lines, and the text of an integer reads back.
\<close>

section \<open>Trimming, case, splitting\<close>

definition trim :: "string \<Rightarrow> string" where
  "trim s = rev (dropWhile js_space (rev (dropWhile js_space s)))"

definition lower :: "string \<Rightarrow> string" where
  "lower s = map (\<lambda>c. let n = of_char c :: nat in
     if 65 \<le> n \<and> n \<le> 90 \<or> 192 \<le> n \<and> n \<le> 222 \<and> n \<noteq> 215 then char_of (n + 32) else c) s"

fun split_on :: "char \<Rightarrow> string \<Rightarrow> string list" where
  "split_on d [] = [[]]"
| "split_on d (c # cs) =
     (if c = d then [] # split_on d cs
      else case split_on d cs of [] \<Rightarrow> [[c]] | w # ws \<Rightarrow> (c # w) # ws)"

fun join :: "string \<Rightarrow> string list \<Rightarrow> string" where
  "join sep [] = []"
| "join sep [x] = x"
| "join sep (x # xs) = x @ sep @ join sep xs"

text \<open>\<open>s.indexOf(c)\<close> splits a string before the first occurrence, if there is one.\<close>

fun cut :: "char \<Rightarrow> string \<Rightarrow> (string \<times> string) option" where
  "cut d [] = None"
| "cut d (c # cs) = (if c = d then Some ([], cs) else map_option (\<lambda>(a, b). (c # a, b)) (cut d cs))"

lemma split_on_nonempty [simp]: "split_on d s \<noteq> []"
  by (induction s) (auto split: list.splits)

lemma split_on_append: "split_on d (a @ d # b) = split_on d a @ split_on d b"
  by (induction a) (auto split: list.splits simp: append_eq_Cons_conv Cons_eq_append_conv)

lemma split_on_word: "d \<notin> set w \<Longrightarrow> split_on d w = [w]"
  by (induction w) auto

lemma split_join:
  assumes "\<forall>l \<in> set ls. d \<notin> set l" "ls \<noteq> []"
  shows "split_on d (join [d] ls) = ls"
  using assms
proof (induction "[d]" ls rule: join.induct)
  case (3 x y ys)
  then show ?case by (simp add: split_on_append split_on_word)
qed (simp_all add: split_on_word)

lemma cut_word: "d \<notin> set a \<Longrightarrow> cut d (a @ d # b) = Some (a, b)"
  by (induction a) auto

lemma cut_None: "cut d s = None \<longleftrightarrow> d \<notin> set s"
  by (induction s) (auto split: prod.splits)

lemma trim_id: "(s = [] \<or> \<not> js_space (hd s) \<and> \<not> js_space (last s)) \<Longrightarrow> trim s = s"
proof -
  assume s: "s = [] \<or> \<not> js_space (hd s) \<and> \<not> js_space (last s)"
  then have "dropWhile js_space s = s" by (auto simp: dropWhile_eq_self_iff)
  moreover have "dropWhile js_space (rev s) = rev s" using s by (auto simp: dropWhile_eq_self_iff hd_rev)
  ultimately show ?thesis by (simp add: trim_def)
qed

section \<open>Decimal numbers\<close>

definition is_digit :: "char \<Rightarrow> bool" where
  "is_digit c \<longleftrightarrow> CHR ''0'' \<le> c \<and> c \<le> CHR ''9''"

definition digit_val :: "char \<Rightarrow> nat" where
  "digit_val c = of_char c - 48"

fun digits_rev :: "nat \<Rightarrow> nat \<Rightarrow> string" where
  "digits_rev 0 n = []"
| "digits_rev (Suc fuel) n =
     char_of (48 + n mod 10) # (if n < 10 then [] else digits_rev fuel (n div 10))"

text \<open>The text of a natural number; it has at most as many digits as its value plus one.\<close>

definition show_nat :: "nat \<Rightarrow> string" where
  "show_nat n = rev (digits_rev (Suc n) n)"

definition show_int :: "int \<Rightarrow> string" where
  "show_int i = (if i < 0 then ''-'' else []) @ show_nat (nat \<bar>i\<bar>)"

definition digits_val :: "string \<Rightarrow> nat" where
  "digits_val s = foldl (\<lambda>a c. a * 10 + digit_val c) 0 s"

text \<open>
  \<open>Number(s)\<close> on text: blanks around it are ignored, an empty text is zero, and a decimal literal
  has a sign, digits, a fraction and an exponent. \<open>None\<close> stands for NaN and the infinities, which
  no caller here tells apart.
\<close>

definition radix_digit :: "char \<Rightarrow> nat" where
  "radix_digit c = (let n = of_char c :: nat in
     if 48 \<le> n \<and> n \<le> 57 then n - 48 else if 97 \<le> n \<and> n \<le> 102 then n - 87
     else if 65 \<le> n \<and> n \<le> 70 then n - 55 else 16)"

definition radix_literal :: "string \<Rightarrow> rat option" where
  "radix_literal s =
     (case map_of [(CHR ''x'', 16), (CHR ''X'', 16), (CHR ''o'', 8), (CHR ''O'', 8), (CHR ''b'', 2), (CHR ''B'', 2)] (s ! 1) of
        None \<Rightarrow> None
      | Some base \<Rightarrow>
          if drop 2 s = [] \<or> \<not> list_all (\<lambda>c. radix_digit c < base) (drop 2 s) then None
          else Some (of_nat (foldl (\<lambda>a c. a * base + radix_digit c) 0 (drop 2 s))))"

definition is_radix :: "string \<Rightarrow> bool" where
  "is_radix s \<longleftrightarrow> 2 \<le> length s \<and> s ! 0 = CHR ''0'' \<and> s ! 1 \<in> set ''xXoObB''"

definition take_sign :: "string \<Rightarrow> rat \<times> string" where
  "take_sign s =
     (if s \<noteq> [] \<and> hd s = CHR ''-'' then (-1, tl s)
      else if s \<noteq> [] \<and> hd s = CHR ''+'' then (1, tl s) else (1, s))"

definition exponent :: "string \<Rightarrow> rat option" where
  "exponent s =
     (if s = [] then Some 1
      else if hd s \<notin> {CHR ''e'', CHR ''E''} then None
      else case take_sign (tl s) of (sg, ds) \<Rightarrow>
        if ds = [] \<or> \<not> list_all is_digit ds then None
        else Some (if sg = 1 then 10 ^ digits_val ds else 1 / 10 ^ digits_val ds))"

definition js_number :: "string \<Rightarrow> rat option" where
  "js_number s0 =
     (let s = trim s0 in
      if s = [] then Some 0
      else if is_radix s then radix_literal s
      else case take_sign s of (sg, body) \<Rightarrow>
        (let whole = takeWhile is_digit body; rest = dropWhile is_digit body;
             dot = (rest \<noteq> [] \<and> hd rest = CHR ''.'');
             frac = (if dot then takeWhile is_digit (tl rest) else []);
             rest' = (if dot then dropWhile is_digit (tl rest) else rest)
         in if whole = [] \<and> frac = [] then None
            else map_option (\<lambda>e. sg * (of_nat (digits_val whole) + of_nat (digits_val frac) / 10 ^ length frac) * e)
                   (exponent rest')))"

lemma digit_char [simp]:
  assumes "n < 10"
  shows "is_digit (char_of (48 + n))" "digit_val (char_of (48 + n)) = n"
proof -
  have "\<forall>k \<in> set [0..<10]. is_digit (char_of (48 + k :: nat)) \<and> digit_val (char_of (48 + k :: nat)) = k"
    by code_simp
  with assms show "is_digit (char_of (48 + n))" "digit_val (char_of (48 + n)) = n" by simp_all
qed

lemma digits_rev_facts:
  assumes "n < fuel"
  shows "list_all is_digit (digits_rev fuel n) \<and> digits_rev fuel n \<noteq> [] \<and> digits_val (rev (digits_rev fuel n)) = n"
  using assms
proof (induction fuel n rule: digits_rev.induct)
  case (2 fuel n)
  show ?case
  proof (cases "n < 10")
    case True
    then show ?thesis by (simp add: digits_val_def)
  next
    case False
    then have "n div 10 < fuel" using "2.prems" by simp
    from "2.IH" [OF False this] False show ?thesis
      by (simp add: digits_val_def foldl_append)
  qed
qed simp

lemma show_nat_facts:
  "list_all is_digit (show_nat n)" "show_nat n \<noteq> []" "digits_val (show_nat n) = n"
  using digits_rev_facts [of n "Suc n"] by (simp_all add: show_nat_def list_all_iff)

lemma is_digit_not: "is_digit c \<Longrightarrow> \<not> js_space c \<and> c \<notin> {CHR ''-'', CHR ''+'', CHR ''.'', CHR ''{'', CHR ''}'', CHR ''e'', CHR ''E''}"
  by (auto simp: is_digit_def js_space_def less_eq_char_def)

lemma show_int_shape:
  "show_int i \<noteq> []" "\<forall>c \<in> set (show_int i). \<not> js_space c \<and> c \<notin> {CHR ''{'', CHR ''}''}"
  using show_nat_facts [of "nat \<bar>i\<bar>"]
  by (auto simp: show_int_def list_all_iff js_space_def dest!: bspec is_digit_not)

lemma trim_spaceless: "\<forall>c \<in> set s. \<not> js_space c \<Longrightarrow> trim s = s"
  by (intro trim_id) (cases s; auto)

lemma show_int_not_radix: "\<not> is_radix (show_int i)"
proof -
  have "\<forall>c \<in> set (show_int i). is_digit c \<or> c = CHR ''-''"
    using show_nat_facts [of "nat \<bar>i\<bar>"] by (auto simp: show_int_def list_all_iff)
  moreover have "\<not> is_digit c \<and> c \<noteq> CHR ''-''" if "c \<in> set ''xXoObB''" for c
    using that by (auto simp: is_digit_def less_eq_char_def)
  ultimately show ?thesis
    unfolding is_radix_def by (metis nth_mem Suc_1 Suc_le_lessD)
qed

lemma js_number_show_int [simp]: "js_number (show_int i) = Some (of_int i)"
proof -
  define n where "n = nat \<bar>i\<bar>"
  define sg :: rat where "sg = (if i < 0 then -1 else 1)"
  have d: "list_all is_digit (show_nat n)" "show_nat n \<noteq> []" "digits_val (show_nat n) = n"
    by (rule show_nat_facts)+
  have split: "takeWhile is_digit (show_nat n) = show_nat n" "dropWhile is_digit (show_nat n) = []"
    using d(1) by (auto simp: list_all_iff takeWhile_eq_all_conv dropWhile_eq_Nil_conv)
  have "hd (show_nat n) \<noteq> CHR ''-'' \<and> hd (show_nat n) \<noteq> CHR ''+''"
    using d(1,2) is_digit_not [of "hd (show_nat n)"] by (auto simp: list_all_iff)
  then have sign: "take_sign (show_int i) = (sg, show_nat n)"
    using d(2) by (simp add: take_sign_def show_int_def flip: n_def) (simp add: sg_def)
  have "(of_nat n :: rat) = of_int \<bar>i\<bar>" by (simp add: n_def)
  then have val: "sg * of_nat n = of_int i" by (cases "i < 0") (simp_all add: sg_def)
  have "trim (show_int i) = show_int i" using show_int_shape(2) by (intro trim_spaceless) auto
  then have "js_number (show_int i) = Some (sg * of_nat n)"
    using show_int_shape(1) show_int_not_radix sign d
    by (simp add: js_number_def Let_def exponent_def digits_val_def [of "[]"] split)
  with val show ?thesis by simp
qed

end
