(* ===== verification/Gate.thy ===== *)
theory Gate
  imports Text RoomAdmit "HOL-Library.AList"
begin

text \<open>
  What a connection meets before it reaches a room: the entry gate of \<^verbatim>\<open>src/index.js\<close>, the client
  address, the per-address limiter and the body reader of \<^verbatim>\<open>host/server.js\<close>. The lemmas show that
  the address cannot be chosen by the client behind a trusted proxy, that the limiter keeps its
  limit and its memory bound, and that the body reader accepts exactly the bodies within its bound.
\<close>

section \<open>Headers and the entry gate\<close>

text \<open>Node's header object: lower-case names, each with its value or values.\<close>

type_synonym node_headers = "(string \<times> string list) list"
type_synonym fetch_headers = "(string \<times> string) list"

definition HOP_BY_HOP :: "string list" where
  "HOP_BY_HOP = [''connection'', ''keep-alive'', ''transfer-encoding'', ''upgrade'', ''content-length'', ''host'']"

definition toHeaders :: "node_headers \<Rightarrow> fetch_headers" where
  "toHeaders hs = concat (map (\<lambda>(k, vs). if lower k \<in> set HOP_BY_HOP then [] else map (Pair (lower k)) vs) hs)"

text \<open>\<open>headers.get(name)\<close>: null, or all the values of the header joined.\<close>

definition hget :: "fetch_headers \<Rightarrow> string \<Rightarrow> string option" where
  "hget hs name = (case filter (\<lambda>(k, _). k = lower name) hs of [] \<Rightarrow> None | vs \<Rightarrow> Some (join '', '' (map snd vs)))"

definition ROOM_HEADER :: string where
  "ROOM_HEADER = ''x-relay-room''"

definition entryReject :: "fetch_headers \<Rightarrow> (nat \<times> string) option" where
  "entryReject hs =
     (if hget hs ''Origin'' \<noteq> None then Some (403, ''forbidden'')
      else case hget hs ROOM_HEADER of
        None \<Rightarrow> Some (400, ''bad room'')
      | Some room \<Rightarrow> if room = [] \<or> \<not> canonical_room_name room then Some (400, ''bad room'') else None)"

section \<open>The client address\<close>

definition xff_parts :: "string \<Rightarrow> string list" where
  "xff_parts xff = filter (\<lambda>s. s \<noteq> []) (map trim (split_on CHR '','' xff))"

record trust =
  trustProxy :: bool
  trustCloudflare :: bool
  trustedHops :: int

text \<open>\<open>parts[i]\<close>, undefined outside the array.\<close>

definition js_nth :: "'a list \<Rightarrow> int \<Rightarrow> 'a option" where
  "js_nth xs i = (if 0 \<le> i \<and> i < int (length xs) then Some (xs ! nat i) else None)"

definition remote_address :: "string option \<Rightarrow> string" where
  "remote_address peer = (case peer of Some a \<Rightarrow> if a = [] then ''unknown'' else a | None \<Rightarrow> ''unknown'')"

text \<open>
  The rate-limit key; \<open>None\<close> is JavaScript's undefined, which only a hop count below one yields.
\<close>

definition clientIp :: "fetch_headers \<Rightarrow> string option \<Rightarrow> trust \<Rightarrow> string option" where
  "clientIp hs peer tr =
     (let cf = (if trustCloudflare tr then hget hs ''cf-connecting-ip'' else None);
          xff = (if trustProxy tr \<or> trustCloudflare tr then hget hs ''x-forwarded-for'' else None);
          parts = (case xff of None \<Rightarrow> [] | Some x \<Rightarrow> xff_parts x);
          idx = int (length parts) - trustedHops tr
      in if (case cf of None \<Rightarrow> False | Some c \<Rightarrow> c \<noteq> []) then map_option trim cf
         else if parts \<noteq> [] then js_nth parts (if 0 \<le> idx then idx else int (length parts) - 1)
         else Some (remote_address peer))"

lemma xff_parts_append: "xff_parts (a @ CHR '','' # b) = xff_parts a @ xff_parts b"
  by (simp add: xff_parts_def split_on_append)

definition forwarded :: "string \<Rightarrow> fetch_headers" where
  "forwarded x = [(''x-forwarded-for'', x)]"

lemma hget_forwarded [simp]:
  "hget (forwarded x) ''x-forwarded-for'' = Some x" "hget (forwarded x) ''cf-connecting-ip'' = None"
  by (simp_all add: hget_def forwarded_def lower_def)

text \<open>
  C20. The address cannot be chosen by the client: behind a generic trusted proxy, when the proxies
  have appended at least as many hops as are trusted, nothing the client put in front of them in
  X-Forwarded-For changes the key, which is the hop that many from the right; and a CF-Connecting-IP
  header is not looked at. With no proxy trusted, no header is looked at: the key is the peer.
\<close>

theorem client_address_not_spoofable:
  assumes "1 \<le> trustedHops tr" "\<not> trustCloudflare tr"
  shows "(trustProxy tr \<and> trustedHops tr \<le> int (length (xff_parts observed)) \<longrightarrow>
      clientIp ((''cf-connecting-ip'', spoof) # forwarded (claimed @ CHR '','' # observed)) peer tr
        = Some (xff_parts observed ! nat (int (length (xff_parts observed)) - trustedHops tr)))
    \<and> (\<not> trustProxy tr \<longrightarrow> clientIp hs peer tr = Some (remote_address peer))"
proof (intro conjI impI)
  assume a: "trustProxy tr \<and> trustedHops tr \<le> int (length (xff_parts observed))"
  let ?o = "xff_parts observed" and ?c = "xff_parts claimed"
  have get: "hget ((''cf-connecting-ip'', spoof) # forwarded x) ''x-forwarded-for'' = Some x" for x
    by (simp add: hget_def forwarded_def lower_def)
  have i: "nat (int (length (?c @ ?o)) - trustedHops tr) = length ?c + nat (int (length ?o) - trustedHops tr)"
    using a by (simp; arith)
  have "?o \<noteq> []" using a assms(1) by auto
  with a assms i show "clientIp ((''cf-connecting-ip'', spoof) # forwarded (claimed @ CHR '','' # observed)) peer tr
      = Some (?o ! nat (int (length ?o) - trustedHops tr))"
    by (simp add: clientIp_def get xff_parts_append js_nth_def Let_def nth_append)
next
  assume "\<not> trustProxy tr"
  with assms show "clientIp hs peer tr = Some (remote_address peer)"
    by (simp add: clientIp_def Let_def)
qed

theorem client_address_not_spoofable_witness:
  "clientIp ((''cf-connecting-ip'', ''9.9.9.9'') # forwarded (''6.6.6.6'' @ CHR '','' # '' 1.2.3.4''))
     (Some ''127.0.0.1'') \<lparr>trustProxy = True, trustCloudflare = False, trustedHops = 1\<rparr> = Some ''1.2.3.4''"
proof -
  have "xff_parts '' 1.2.3.4'' = [''1.2.3.4'']" by code_simp
  with client_address_not_spoofable [of "\<lparr>trustProxy = True, trustCloudflare = False, trustedHops = 1\<rparr>"
      "'' 1.2.3.4''" "''9.9.9.9''" "''6.6.6.6''" "Some ''127.0.0.1''"]
  show ?thesis by simp
qed

section \<open>The per-key limiter\<close>

type_synonym 'k buckets = "('k \<times> int \<times> int) list"

fun evict_oldest :: "nat \<Rightarrow> 'k buckets \<Rightarrow> 'k buckets" where
  "evict_oldest maxKeys [] = []"
| "evict_oldest maxKeys (b # bs) = (if length (b # bs) > maxKeys then evict_oldest maxKeys bs else b # bs)"

definition key_window :: "int \<Rightarrow> int \<Rightarrow> 'k \<Rightarrow> 'k buckets \<Rightarrow> int \<times> int" where
  "key_window windowMs now key bs =
     (case map_of bs key of
        None \<Rightarrow> (now, 0)
      | Some (start, n) \<Rightarrow> if now - start > windowMs then (now, 0) else (start, n))"

definition over :: "int \<Rightarrow> int \<Rightarrow> nat \<Rightarrow> int \<Rightarrow> 'k \<Rightarrow> 'k buckets \<Rightarrow> bool \<times> 'k buckets" where
  "over limit windowMs maxKeys now key bs =
     (case key_window windowMs now key bs of (start, n) \<Rightarrow>
        (let bs1 = AList.update key (start, n + 1) bs;
             bs2 = (if length bs1 > maxKeys
                    then evict_oldest maxKeys (filter (\<lambda>(k, s, c). \<not> now - s > windowMs) bs1) else bs1)
         in (n + 1 > limit, bs2)))"

lemma evict_oldest_drop: "evict_oldest m bs = drop (length bs - m) bs"
  by (induction m bs rule: evict_oldest.induct) (auto simp: drop_Cons' Suc_diff_le)

lemma limiter_size: "length bs \<le> maxKeys \<Longrightarrow> length (snd (over limit windowMs maxKeys now key bs)) \<le> maxKeys"
  by (auto simp: over_def evict_oldest_drop Let_def split: prod.splits)

text \<open>What passes for one key when the requests, each with its time and key, come in order.\<close>

fun passes :: "int \<Rightarrow> int \<Rightarrow> nat \<Rightarrow> 'k \<Rightarrow> (int \<times> 'k) list \<Rightarrow> 'k buckets \<Rightarrow> nat" where
  "passes limit windowMs maxKeys key [] bs = 0"
| "passes limit windowMs maxKeys key ((t, k) # rs) bs =
     (case over limit windowMs maxKeys t k bs of (blocked, bs') \<Rightarrow>
        (if k = key \<and> \<not> blocked then 1 else 0) + passes limit windowMs maxKeys key rs bs')"

definition key_view :: "int \<Rightarrow> int \<Rightarrow> 'k \<Rightarrow> 'k buckets \<Rightarrow> int \<times> int" where
  "key_view windowMs t key bs = (case map_of bs key of None \<Rightarrow> (t - windowMs - 1, 0) | Some w \<Rightarrow> w)"

lemma over_key:
  assumes "t \<le> now" "length (AList.update k v bs) \<le> maxKeys" "v = (case key_window windowMs now k bs of (s, n) \<Rightarrow> (s, n + 1))"
  shows "over limit windowMs maxKeys now k bs =
    (fst (rateLimited now limit windowMs (key_view windowMs t k bs)), AList.update k v bs)
    \<and> v = snd (rateLimited now limit windowMs (key_view windowMs t k bs))"
  using assms
  by (auto simp: over_def rateLimited_def key_view_def key_window_def Let_def split: option.splits prod.splits)

lemma update_length:
  assumes "distinct (map fst bs)" "insert k (fst ` set bs) \<subseteq> K" "finite K" "card K \<le> maxKeys"
  shows "length (AList.update k v bs) \<le> maxKeys \<and> distinct (map fst (AList.update k v bs))
    \<and> fst ` set (AList.update k v bs) \<subseteq> K"
proof -
  have d: "distinct (map fst (AList.update k v bs))" using assms(1) by (simp add: distinct_update)
  have s: "fst ` set (AList.update k v bs) = insert k (fst ` set bs)" by (simp add: dom_update)
  have "length (AList.update k v bs) = card (fst ` set (AList.update k v bs))"
    using distinct_card [OF d] by simp
  also have "\<dots> \<le> card K" unfolding s by (rule card_mono [OF assms(3,2)])
  finally show ?thesis using d s assms(2,4) by simp
qed

lemma passes_let_through:
  assumes "distinct (map fst bs)" "fst ` set bs \<union> snd ` set rs \<subseteq> K" "finite K" "card K \<le> maxKeys"
    and "\<forall>(x, k) \<in> set rs. t \<le> x"
  shows "passes limit windowMs maxKeys key rs bs
    = let_through limit windowMs (map fst (filter (\<lambda>(x, k). k = key) rs)) (key_view windowMs t key bs)"
  using assms
proof (induction rs arbitrary: bs)
  case (Cons r rs)
  obtain x k where r: "r = (x, k)" by force
  define v where "v = (case key_window windowMs x k bs of (s, n) \<Rightarrow> (s, n + 1))"
  have t: "t \<le> x" using Cons.prems(5) r by simp
  have len: "length (AList.update k v bs) \<le> maxKeys" "distinct (map fst (AList.update k v bs))"
    "fst ` set (AList.update k v bs) \<subseteq> K"
    using update_length [of bs k K maxKeys v] Cons.prems r by auto
  note ov = over_key [OF t len(1) v_def, of limit]
  have IH: "passes limit windowMs maxKeys key rs (AList.update k v bs)
      = let_through limit windowMs (map fst (filter (\<lambda>(x, k). k = key) rs)) (key_view windowMs t key (AList.update k v bs))"
    using Cons.prems len r by (intro Cons.IH) auto
  have view: "key_view windowMs t key (AList.update k v bs) = (if k = key then v else key_view windowMs t key bs)"
    by (simp add: key_view_def update_conv')
  show ?case
    using ov IH view r by (auto split: prod.splits)
qed simp

lemma let_through_stretch:
  assumes "0 \<le> mx" "0 \<le> snd w" "\<forall>x \<in> set ts. t \<le> x \<and> x \<le> t + windowMs"
  shows "int (let_through mx windowMs ts w) \<le> 2 * mx"
proof -
  have "\<forall>x \<in> set ts. t \<le> x \<and> x < t + (windowMs + 1)" using assms(3) by auto
  from window_meter.passed_stretch [OF limiter_meter [OF assms(1)] assms(2) this] show ?thesis
    by (simp add: let_through_passed assms(1))
qed

text \<open>
  The per-address limiter keeps both its bounds. Over any stretch no longer than the window, and
  whatever else it is asked, it lets at most twice the limit through for one address (two fixed
  windows can meet inside the stretch), as long as there are no more addresses than it has room
  for; and it never holds more entries than its maximum, however many addresses there are.
\<close>

theorem limiter_bounds:
  assumes "0 \<le> limit" "distinct (map fst bs)" "\<forall>(k, s, n) \<in> set bs. 0 \<le> n"
    and "\<forall>(x, k) \<in> set rs. t \<le> x \<and> x \<le> t + windowMs"
    and "card (fst ` set bs \<union> snd ` set rs) \<le> maxKeys"
  shows "int (passes limit windowMs maxKeys key rs bs) \<le> 2 * limit
    \<and> (length bs2 \<le> maxKeys \<longrightarrow> length (snd (over limit windowMs maxKeys now key bs2)) \<le> maxKeys)"
proof
  have "passes limit windowMs maxKeys key rs bs
      = let_through limit windowMs (map fst (filter (\<lambda>(x, k). k = key) rs)) (key_view windowMs t key bs)"
    using assms(4) by (intro passes_let_through [OF assms(2) subset_refl _ assms(5)]) auto
  moreover have "0 \<le> snd (key_view windowMs t key bs)"
    using assms(3) by (auto simp: key_view_def split: option.splits dest: map_of_SomeD)
  moreover have "\<forall>x \<in> set (map fst (filter (\<lambda>(x, k). k = key) rs)). t \<le> x \<and> x \<le> t + windowMs"
    using assms(4) by auto
  ultimately show "int (passes limit windowMs maxKeys key rs bs) \<le> 2 * limit"
    using let_through_stretch [OF assms(1)] by metis
qed (simp add: limiter_size)

theorem limiter_bounds_witness:
  "int (passes 2 60000 10 ''a'' [(5, ''a''), (6, ''b''), (7, ''a''), (8, ''a'')] []) \<le> 4"
  using limiter_bounds [of 2 "[]" "[(5, ''a''), (6, ''b''), (7, ''a''), (8, ''a'')]" 5 60000 10 "''a''"]
  by (simp add: card_insert_if)

section \<open>The request body\<close>

datatype body_event = Data bytes | EndOfBody | StreamFailed
datatype body_result = Body bytes | TooLarge | Failed | Pending

text \<open>The listeners of \<open>readBody\<close> with what they have kept so far.\<close>

fun read_body :: "nat \<Rightarrow> bytes list \<Rightarrow> nat \<Rightarrow> body_event list \<Rightarrow> body_result" where
  "read_body limit chunks sz [] = Pending"
| "read_body limit chunks sz (Data c # es) =
     (let sz' = sz + length c in if sz' > limit then TooLarge else read_body limit (chunks @ [c]) sz' es)"
| "read_body limit chunks sz (EndOfBody # es) = Body (concat chunks)"
| "read_body limit chunks sz (StreamFailed # es) = Failed"

definition readBody :: "nat \<Rightarrow> body_event list \<Rightarrow> body_result" where
  "readBody limit es = read_body limit [] 0 es"

definition MAX_BODY_BYTES :: nat where "MAX_BODY_BYTES = 64 * 1024"

fun data_of :: "body_event \<Rightarrow> bytes" where
  "data_of (Data c) = c"
| "data_of _ = []"

lemma read_body_data:
  assumes "length (concat chunks) = sz" "sz \<le> limit"
  shows "read_body limit chunks sz (map Data cs @ EndOfBody # es) =
    (if sz + length (concat cs) \<le> limit then Body (concat chunks @ concat cs) else TooLarge)"
  using assms
proof (induction cs arbitrary: chunks sz)
  case (Cons c cs)
  from Cons.IH [of "chunks @ [c]" "sz + length c"] Cons.prems show ?case
    by (auto simp: Let_def)
qed simp

text \<open>
  The body reader is exact and bounded: a body that arrives in any chunks is returned whole when
  it fits the limit and refused when it does not, and whatever arrives, what is returned fits.
\<close>

theorem readBody_exact:
  "readBody limit (map Data cs @ EndOfBody # es)
      = (if length (concat cs) \<le> limit then Body (concat cs) else TooLarge)
    \<and> (case readBody limit evs of Body b \<Rightarrow> length b \<le> limit | _ \<Rightarrow> True)"
proof
  show "readBody limit (map Data cs @ EndOfBody # es)
      = (if length (concat cs) \<le> limit then Body (concat cs) else TooLarge)"
    using read_body_data [of "[]" 0 limit cs es] by (auto simp: readBody_def)
  have "read_body limit chunks sz evs = Body b \<Longrightarrow> length (concat chunks) = sz \<Longrightarrow> sz \<le> limit \<Longrightarrow> length b \<le> limit"
    for chunks sz b
    by (induction limit chunks sz evs rule: read_body.induct) (auto simp: Let_def split: if_splits)
  then show "case readBody limit evs of Body b \<Rightarrow> length b \<le> limit | _ \<Rightarrow> True"
    by (auto simp: readBody_def split: body_result.splits)
qed

end
