(* ===== verification/WireCodes.thy ===== *)
theory WireCodes
  imports Gate
begin

text \<open>
  The codes a client acts on, \<^verbatim>\<open>src/sharding/wireCodes.js\<close>, and the process-level exception budget
  of \<^verbatim>\<open>bin/relay.js\<close>. The lemmas show that the reshard reason is read back as it was written, which
  categories the relay's own closes fall into, and that the process restarts exactly when the
  exceptions of the last minute exceed the budget.
\<close>

section \<open>Reshard reasons\<close>

definition HTTP_MISDIRECTED :: nat where "HTTP_MISDIRECTED = 421"
definition WS_RESHARD_CODE :: nat where "WS_RESHARD_CODE = 4421"
definition RESHARD_SENTINEL :: string where "RESHARD_SENTINEL = ''reshard''"

definition reshardReason :: "string option \<Rightarrow> string" where
  "reshardReason owner =
     (case owner of Some h \<Rightarrow> if h \<noteq> [] then RESHARD_SENTINEL @ '' '' @ h else RESHARD_SENTINEL
      | None \<Rightarrow> RESHARD_SENTINEL)"

text \<open>Whether the reason is a reshard, and the owner it names.\<close>

definition parseReshardReason :: "string option \<Rightarrow> bool \<times> string option" where
  "parseReshardReason reason =
     (case reason of
        None \<Rightarrow> (False, None)
      | Some s \<Rightarrow>
          if s = RESHARD_SENTINEL then (True, None)
          else let prefix_s = RESHARD_SENTINEL @ '' ''
               in if prefix prefix_s s then (True, Some (drop (length prefix_s) s)) else (False, None))"

section \<open>Categories\<close>

datatype Category = RE_RESOLVE | RETRY_HERE | LONG_BACKOFF | FATAL

fun str_includes :: "string \<Rightarrow> string \<Rightarrow> bool" where
  "str_includes [] pat = (pat = [])"
| "str_includes (c # cs) pat = (prefix pat (c # cs) \<or> str_includes cs pat)"

definition classifyWsClose :: "nat \<Rightarrow> string option \<Rightarrow> Category" where
  "classifyWsClose code reason =
     (let low_r = lower (case reason of None \<Rightarrow> [] | Some s \<Rightarrow> s)
      in if code = WS_RESHARD_CODE \<or> fst (parseReshardReason reason) then RE_RESOLVE
         else if code = 1008 \<and> str_includes low_r ''daily quota'' then LONG_BACKOFF
         else if code = 1000 \<and> str_includes low_r ''displaced'' then LONG_BACKOFF
         else RETRY_HERE)"

definition classifyHttpStatus :: "nat \<Rightarrow> Category" where
  "classifyHttpStatus status =
     (if status = HTTP_MISDIRECTED then RE_RESOLVE
      else if status = 403 \<or> status = 413 then FATAL
      else RETRY_HERE)"

lemma str_includes_iff: "str_includes s pat \<longleftrightarrow> (\<exists>a b. s = a @ pat @ b)"
proof (induction s)
  case (Cons c s)
  have "(\<exists>a b. c # s = a @ pat @ b) \<longleftrightarrow> (\<exists>b. c # s = pat @ b) \<or> (\<exists>a b. s = a @ pat @ b)"
    by (metis append_Cons append_Nil list.exhaust list.sel(3))
  with Cons.IH show ?case by (auto simp: prefix_def)
qed simp

text \<open>The closes the room and the host make, with the codes and reasons of their call sites.\<close>

definition relay_closes :: "(nat \<times> string) list" where
  "relay_closes = [(1008, ''daily quota exceeded''), (1009, ''frame too large''), (1008, ''frame rate exceeded''),
     (1011, ''bad state''), (1008, ''bad hello''), (1008, ''rate limited''), (1008, ''bad proof''),
     (1008, ''signature required''), (1008, ''bad signature''), (1008, ''ticket required''), (1008, ''bad ticket''),
     (1008, ''mac offline''), (1000, ''pairing cycle cap''), (1008, ''slot occupied''), (1000, ''displaced''),
     (1000, ''room deleted''), (1008, ''too many pending''), (1008, ''admission timeout''), (1000, ''room expired''),
     (1001, ''peer gone''), (1011, ''internal error''), (1001, ''server shutting down'')]"

text \<open>
  The wire protocol of a reshard closes its loop: a reason written for any owner is read back as
  a reshard with that owner; a room the drain closes is always re-resolved by its client, and an
  owner check that fails over HTTP likewise; and of the closes the relay makes for other reasons
  exactly the quota and the displacement make a client back off for long.
\<close>

theorem reshard_codes:
  "parseReshardReason (Some (reshardReason owner)) = (True, if owner = Some [] then None else owner)
    \<and> classifyWsClose WS_RESHARD_CODE (Some (reshardReason owner)) = RE_RESOLVE
    \<and> classifyHttpStatus HTTP_MISDIRECTED = RE_RESOLVE
    \<and> map (\<lambda>(code, reason). classifyWsClose code (Some reason)) relay_closes
       = map (\<lambda>(code, reason). if reason \<in> {''daily quota exceeded'', ''displaced''} then LONG_BACKOFF else RETRY_HERE)
           relay_closes"
proof (intro conjI)
  show "parseReshardReason (Some (reshardReason owner)) = (True, if owner = Some [] then None else owner)"
    by (auto simp: parseReshardReason_def reshardReason_def RESHARD_SENTINEL_def split: option.splits)
  show "classifyWsClose WS_RESHARD_CODE (Some (reshardReason owner)) = RE_RESOLVE"
    by (simp add: classifyWsClose_def Let_def)
  show "classifyHttpStatus HTTP_MISDIRECTED = RE_RESOLVE"
    by (simp add: classifyHttpStatus_def)
qed code_simp

section \<open>The exception budget\<close>

definition EXC_WINDOW_MS :: int where "EXC_WINDOW_MS = 60000"
definition EXC_LIMIT :: nat where "EXC_LIMIT = 25"

text \<open>One exception: whether the process exits, and the times kept.\<close>

definition onProcessException :: "int \<Rightarrow> int list \<Rightarrow> bool \<times> int list" where
  "onProcessException now excTimes =
     (let ts = dropWhile (\<lambda>x. now - x > EXC_WINDOW_MS) (excTimes @ [now])
      in (length ts > EXC_LIMIT, ts))"

definition exc_times :: "int list \<Rightarrow> int list" where
  "exc_times ts = fold (\<lambda>t kept. snd (onProcessException t kept)) ts []"

lemma dropWhile_sorted:
  "sorted xs \<Longrightarrow> dropWhile (\<lambda>x. x < (b :: int)) xs = filter (\<lambda>x. b \<le> x) xs"
proof (induction xs)
  case (Cons x xs)
  show ?case
  proof (cases "x < b")
    case False
    with Cons.prems have "\<forall>y \<in> set (x # xs). b \<le> y" by force
    with False show ?thesis by (simp add: filter_True)
  qed (use Cons in simp)
qed simp

lemma exc_times_recent:
  assumes "sorted (ts @ [now])"
  shows "exc_times (ts @ [now]) = filter (\<lambda>x. now - EXC_WINDOW_MS \<le> x) (ts @ [now])"
  using assms
proof (induction ts arbitrary: now rule: rev_induct)
  case Nil
  show ?case by (simp add: exc_times_def onProcessException_def EXC_WINDOW_MS_def)
next
  case (snoc t ts)
  have kept: "exc_times (ts @ [t]) = filter (\<lambda>x. t - EXC_WINDOW_MS \<le> x) (ts @ [t])"
    using snoc.prems by (intro snoc.IH) (auto simp: sorted_append)
  have "exc_times ((ts @ [t]) @ [now]) = dropWhile (\<lambda>x. x < now - EXC_WINDOW_MS) (exc_times (ts @ [t]) @ [now])"
    by (simp add: exc_times_def onProcessException_def Let_def algebra_simps)
  also have "\<dots> = filter (\<lambda>x. now - EXC_WINDOW_MS \<le> x) (exc_times (ts @ [t]) @ [now])"
    using snoc.prems unfolding kept by (intro dropWhile_sorted) (auto simp: sorted_append sorted_wrt_filter)
  also have "\<dots> = filter (\<lambda>x. now - EXC_WINDOW_MS \<le> x) ((ts @ [t]) @ [now])"
    using snoc.prems unfolding kept by (auto simp: sorted_append intro!: filter_cong)
  finally show ?case .
qed

text \<open>
  The process gives up exactly when it should: an exception makes it exit if and only if more
  than 25 exceptions, this one included, have been swallowed within the last minute. The hypothesis
  is that the clock does not run backwards.
\<close>

theorem exits_iff_too_many_exceptions:
  assumes "sorted (ts @ [now])"
  shows "fst (onProcessException now (exc_times ts))
    \<longleftrightarrow> 25 < length (filter (\<lambda>x. now - 60000 \<le> x) (ts @ [now]))"
proof -
  have "exc_times (ts @ [now]) = snd (onProcessException now (exc_times ts))"
    by (simp add: exc_times_def)
  moreover have "fst (onProcessException now k) \<longleftrightarrow> 25 < length (snd (onProcessException now k))" for k
    by (simp add: onProcessException_def EXC_LIMIT_def Let_def)
  ultimately show ?thesis
    using exc_times_recent [OF assms] by (metis EXC_WINDOW_MS_def)
qed

theorem exits_iff_too_many_exceptions_witness:
  "\<not> fst (onProcessException 70000 (exc_times [0, 5, 69000]))"
  using exits_iff_too_many_exceptions [of "[0, 5, 69000]" 70000] by simp

end
