(* ===== verification/ShardFetch.thy ===== *)
theory ShardFetch
  imports ShardStore Gate
begin

text \<open>
  How a relay gets its shard map, \<^verbatim>\<open>host/server.js\<close>: the retried fetch, the attribution of its errors,
  the throttled log of an outage, and the boot loop that waits for the first map. The transport is
  an argument. The lemmas show what is retried and how often, that attribution and retry agree,
  that an outage is logged at a bounded rate, and that the boot loop ends, with a map or an error.
\<close>

section \<open>Errors and their causes\<close>

text \<open>
  What the code reads of an error: a status it was given, the Cloudflare ray, the kind of a
  validation error, its name, the codes along its cause chain, its message.
\<close>

record fetch_error =
  httpStatus :: "int option"
  cfRay :: string
  err_kind :: string
  err_name :: string
  codes :: "string list"
  err_message :: string

definition shouldRetryShardFetch :: "fetch_error \<Rightarrow> bool" where
  "shouldRetryShardFetch e =
     (case httpStatus e of Some s \<Rightarrow> \<not> (s \<ge> 400 \<and> s < 500) | None \<Rightarrow> True)"

text \<open>The first code in the first four links of the chain; an empty code is skipped.\<close>

fun errCode_from :: "nat \<Rightarrow> string list \<Rightarrow> string" where
  "errCode_from depth [] = []"
| "errCode_from depth (c # cs) =
     (if depth \<ge> 4 then [] else if c \<noteq> [] then c else errCode_from (depth + 1) cs)"

definition errCode :: "fetch_error \<Rightarrow> string" where
  "errCode e = errCode_from 0 (codes e)"

definition tls_prefixes :: "string list" where
  "tls_prefixes = [''CERT_'', ''ERR_TLS'', ''EPROTO'', ''DEPTH_ZERO'', ''SELF_SIGNED'', ''UNABLE_TO_VERIFY'', ''ERR_SSL'']"

definition classifyShardFetchError :: "fetch_error option \<Rightarrow> string \<times> string" where
  "classifyShardFetchError error =
     (case error of
        None \<Rightarrow> (''other'', ''unknown'')
      | Some e \<Rightarrow>
        (case httpStatus e of
           Some s \<Rightarrow>
             (if s \<ge> 500 then ''http_5xx'' else if s \<ge> 400 then ''http_4xx'' else ''http_other'',
              ''HTTP '' @ show_int s @ (if cfRay e \<noteq> [] then '' cf-ray='' @ cfRay e else []))
         | None \<Rightarrow>
             if err_kind e \<noteq> [] then (''parse'', err_kind e)
             else if err_name e = ''SyntaxError'' then (''parse'', ''json'')
             else if err_name e = ''AbortError'' then (''timeout'', ''abort'')
             else let code = errCode e in
               if code \<in> {''ENOTFOUND'', ''EAI_AGAIN''} then (''dns'', code)
               else if code \<in> {''ETIMEDOUT'', ''UND_ERR_CONNECT_TIMEOUT'', ''UND_ERR_HEADERS_TIMEOUT'', ''UND_ERR_BODY_TIMEOUT''}
               then (''timeout'', code)
               else if code \<in> {''ECONNREFUSED'', ''ECONNRESET'', ''EHOSTUNREACH'', ''ENETUNREACH'', ''EPIPE'', ''ECONNABORTED''}
               then (''conn'', code)
               else if list_ex (\<lambda>p. prefix p code) tls_prefixes then (''tls'', code)
               else (''other'', if code \<noteq> [] then code
                                else if err_message e \<noteq> [] then take 80 (err_message e) else ''unknown'')))"

section \<open>The retried fetch\<close>

definition SHARDMAP_FETCH_ATTEMPT_TIMEOUT_MS :: rat where "SHARDMAP_FETCH_ATTEMPT_TIMEOUT_MS = 3000"
definition SHARDMAP_FETCH_ATTEMPTS :: nat where "SHARDMAP_FETCH_ATTEMPTS = 3"

text \<open>A response, or the exception of the transport (an abort included).\<close>

datatype response = Response bool int string string | TransportError fetch_error

definition http_error :: "int \<Rightarrow> string \<Rightarrow> fetch_error" where
  "http_error status ray =
     \<lparr>httpStatus = Some status, cfRay = ray, err_kind = [], err_name = ''Error'', codes = [],
      err_message = ''shardmap HTTP '' @ show_int status\<rparr>"

definition fetchShardMapOnce :: "response \<Rightarrow> fetch_error + string" where
  "fetchShardMapOnce r =
     (case r of
        TransportError e \<Rightarrow> Inl e
      | Response ok status ray text \<Rightarrow> if \<not> ok then Inl (http_error status ray) else Inr text)"

text \<open>
  The loop: the attempts made, the errors reported to \<open>onRetry\<close>, and the result; with no attempt
  allowed the undefined \<open>last\<close> is thrown.
\<close>

function retry_loop ::
  "(nat \<Rightarrow> response) \<Rightarrow> nat \<Rightarrow> nat \<Rightarrow> fetch_error option \<Rightarrow> nat \<times> fetch_error list \<times> (fetch_error option + string)" where
  "retry_loop net attempts attempt last_e =
     (if attempt > attempts then (0, [], Inl last_e)
      else case fetchShardMapOnce (net attempt) of
        Inr text \<Rightarrow> (1, [], Inr text)
      | Inl e \<Rightarrow>
          if attempt \<ge> attempts \<or> \<not> shouldRetryShardFetch e then (1, [], Inl (Some e))
          else (case retry_loop net attempts (attempt + 1) (Some e) of (n, es, r) \<Rightarrow> (n + 1, e # es, r)))"
  by pat_completeness auto

termination
  by (relation "measure (\<lambda>(net, attempts, attempt, last_e). attempts + 1 - attempt)") auto

declare retry_loop.simps [simp del]

definition fetchShardMapWithRetry :: "(nat \<Rightarrow> response) \<Rightarrow> nat \<Rightarrow> nat \<times> fetch_error list \<times> (fetch_error option + string)" where
  "fetchShardMapWithRetry net attempts = retry_loop net attempts 1 None"

text \<open>An attempt that fails in a way worth repeating.\<close>

definition transient :: "(nat \<Rightarrow> response) \<Rightarrow> nat \<Rightarrow> bool" where
  "transient net i \<longleftrightarrow> (\<exists>e. fetchShardMapOnce (net i) = Inl e \<and> shouldRetryShardFetch e)"

lemma retry_loop_facts:
  assumes "retry_loop net attempts a last_e = (n, es, r)" "a \<le> attempts"
  shows "1 \<le> n \<and> a + n - 1 \<le> attempts \<and> length es = n - 1 \<and> (\<forall>i. a \<le> i \<and> i < a + n - 1 \<longrightarrow> transient net i)
    \<and> (case fetchShardMapOnce (net (a + n - 1)) of
         Inr text \<Rightarrow> r = Inr text
       | Inl e \<Rightarrow> r = Inl (Some e) \<and> (a + n - 1 = attempts \<or> \<not> shouldRetryShardFetch e))"
  using assms
proof (induction net attempts a last_e arbitrary: n es r rule: retry_loop.induct)
  case (1 net attempts a last_e)
  show ?case
  proof (cases "fetchShardMapOnce (net a)")
    case (Inr body)
    with "1.prems" show ?thesis by (subst (asm) retry_loop.simps) auto
  next
    case (Inl e)
    show ?thesis
    proof (cases "attempts \<le> a \<or> \<not> shouldRetryShardFetch e")
      case True
      with "1.prems" Inl show ?thesis by (subst (asm) retry_loop.simps) auto
    next
      case False
      obtain m fs s where rec: "retry_loop net attempts (a + 1) (Some e) = (m, fs, s)"
        by (cases "retry_loop net attempts (a + 1) (Some e)")
      have "retry_loop net attempts a last_e = (m + 1, e # fs, s)"
        using Inl False rec by (subst retry_loop.simps) simp
      with "1.prems"(1) have nes: "n = m + 1" "es = e # fs" "r = s" by simp_all
      have IH: "1 \<le> m \<and> a + 1 + m - 1 \<le> attempts \<and> length fs = m - 1
        \<and> (\<forall>i. a + 1 \<le> i \<and> i < a + 1 + m - 1 \<longrightarrow> transient net i)
        \<and> (case fetchShardMapOnce (net (a + 1 + m - 1)) of Inr text \<Rightarrow> s = Inr text
           | Inl e \<Rightarrow> s = Inl (Some e) \<and> (a + 1 + m - 1 = attempts \<or> \<not> shouldRetryShardFetch e))"
        using "1.prems" Inl False rec by (intro "1.IH") auto
      have "transient net i" if "a \<le> i" "i < a + n - 1" for i
        using that IH Inl False nes by (cases "i = a") (auto simp: transient_def)
      with IH nes show ?thesis by (auto simp: less_Suc_eq_le split: sum.splits)
    qed
  qed
qed

text \<open>
  The retried fetch does what its comment says: it makes at least one and at most the allowed
  number of attempts, goes on only past failures worth repeating, reports each of those once, and
  ends with the outcome of its last attempt, a text or the error; when it ends with an error before
  the attempts are used up, that error is a 4xx status, which is what the log calls an http 4xx cause.
\<close>

theorem fetch_retries:
  assumes "fetchShardMapWithRetry net attempts = (n, retried, result)" "1 \<le> attempts"
  shows "1 \<le> n \<and> n \<le> attempts \<and> length retried = n - 1 \<and> (\<forall>i. 1 \<le> i \<and> i < n \<longrightarrow> transient net i)
    \<and> (case fetchShardMapOnce (net n) of Inr text \<Rightarrow> result = Inr text | Inl e \<Rightarrow> result = Inl (Some e))
    \<and> (\<forall>e. result = Inl (Some e) \<and> n < attempts \<longrightarrow> fst (classifyShardFetchError (Some e)) = ''http_4xx'')"
proof -
  have f: "1 \<le> n \<and> n \<le> attempts \<and> length retried = n - 1 \<and> (\<forall>i. 1 \<le> i \<and> i < n \<longrightarrow> transient net i)
    \<and> (case fetchShardMapOnce (net n) of
         Inr text \<Rightarrow> result = Inr text
       | Inl e \<Rightarrow> result = Inl (Some e) \<and> (n = attempts \<or> \<not> shouldRetryShardFetch e))"
    using retry_loop_facts [of net attempts 1 None n retried result] assms
    by (auto simp: fetchShardMapWithRetry_def split: sum.splits)
  moreover have "fst (classifyShardFetchError (Some e)) = ''http_4xx''" if "\<not> shouldRetryShardFetch e" for e
    using that by (auto simp: shouldRetryShardFetch_def classifyShardFetchError_def split: option.splits)
  ultimately show ?thesis by (auto split: sum.splits)
qed

theorem fetch_retries_witness:
  "\<exists>n retried. fetchShardMapWithRetry (\<lambda>i. if i = 1 then Response False 503 [] [] else Response True 200 [] ''m'') 3
      = (n, retried, Inr ''m'') \<and> n = 2 \<and> length retried = n - 1"
proof -
  let ?net = "\<lambda>i :: nat. if i = 1 then Response False 503 [] [] else Response True 200 [] ''m''"
  have r: "fetchShardMapWithRetry ?net 3 = (2, [http_error 503 []], Inr ''m'')"
    by (simp add: fetchShardMapWithRetry_def retry_loop.simps fetchShardMapOnce_def shouldRetryShardFetch_def http_error_def)
  from fetch_retries [OF this] have "length [http_error 503 []] = 2 - 1" by simp
  with r show ?thesis by blast
qed

section \<open>The log of an outage\<close>

definition SHARD_ERR_LOG_WINDOW_MS :: int where "SHARD_ERR_LOG_WINDOW_MS = 60000"

record outage =
  shardErrStreak :: nat
  shardErrSince :: int
  shardErrLastLog :: int

definition no_outage :: outage where
  "no_outage = \<lparr>shardErrStreak = 0, shardErrSince = 0, shardErrLastLog = 0\<rparr>"

text \<open>
  The lines: an outage begins with its cause, goes on with its streak and elapsed time, and ends.
  Elapsed times are rounded to the nearest second, halves upward.
\<close>

datatype log_line =
    Failing string string
  | StillFailing string string nat int
  | Recovered nat int

definition js_round_s :: "int \<Rightarrow> int" where
  "js_round_s ms = (ms + 500) div 1000"

definition noteShardFetchError :: "int \<Rightarrow> fetch_error option \<Rightarrow> outage \<Rightarrow> log_line list \<times> outage" where
  "noteShardFetchError now error o1 =
     (case classifyShardFetchError error of (cause, detail) \<Rightarrow>
        (let o2 = o1\<lparr>shardErrStreak := shardErrStreak o1 + 1\<rparr>
         in if shardErrStreak o2 = 1
            then ([Failing cause detail], o2\<lparr>shardErrSince := now, shardErrLastLog := now\<rparr>)
            else if now - shardErrLastLog o2 \<ge> SHARD_ERR_LOG_WINDOW_MS
            then ([StillFailing cause detail (shardErrStreak o2) (js_round_s (now - shardErrSince o2))],
                  o2\<lparr>shardErrLastLog := now\<rparr>)
            else ([], o2)))"

definition noteShardFetchOk :: "int \<Rightarrow> outage \<Rightarrow> log_line list \<times> outage" where
  "noteShardFetchOk now o1 =
     (if shardErrStreak o1 > 0
      then ([Recovered (shardErrStreak o1) (js_round_s (now - shardErrSince o1))], o1\<lparr>shardErrStreak := 0\<rparr>)
      else ([], o1))"

text \<open>A run of failed polls at the given times, with its log.\<close>

fun failures :: "(int \<times> fetch_error option) list \<Rightarrow> outage \<Rightarrow> log_line list \<times> outage" where
  "failures [] o1 = ([], o1)"
| "failures ((now, e) # fs) o1 =
     (case noteShardFetchError now e o1 of (ls, o2) \<Rightarrow>
      case failures fs o2 of (ls', o3) \<Rightarrow> (ls @ ls', o3))"

definition poll_ok :: "outage \<Rightarrow> bool" where
  "poll_ok o1 \<longleftrightarrow> 0 < shardErrStreak o1 \<and> shardErrSince o1 \<le> shardErrLastLog o1"

lemma failures_streak:
  assumes "poll_ok o1" "sorted (shardErrLastLog o1 # map fst fs)" "failures fs o1 = (ls, o2)"
  shows "poll_ok o2 \<and> shardErrStreak o2 = shardErrStreak o1 + length fs \<and> shardErrSince o2 = shardErrSince o1
    \<and> SHARD_ERR_LOG_WINDOW_MS * int (length ls) \<le> shardErrLastLog o2 - shardErrLastLog o1
    \<and> shardErrLastLog o2 \<in> set (shardErrLastLog o1 # map fst fs)
    \<and> (\<forall>l \<in> set ls. \<exists>c d n s. l = StillFailing c d n s)"
  using assms
proof (induction fs arbitrary: o1 ls)
  case (Cons f fs)
  obtain now e where f: "f = (now, e)" by force
  obtain l1 o' where n: "noteShardFetchError now e o1 = (l1, o')" by force
  obtain l2 where r: "failures fs o' = (l2, o2)" and ls: "ls = l1 @ l2"
    using Cons.prems(3) f n by (auto split: prod.splits)
  have le: "shardErrLastLog o1 \<le> now" "\<forall>x \<in> set (map fst fs). shardErrLastLog o1 \<le> x \<and> now \<le> x" "sorted (map fst fs)"
    using Cons.prems(2) f by auto
  show ?case
  proof (cases "now - shardErrLastLog o1 \<ge> SHARD_ERR_LOG_WINDOW_MS")
    case True
    then have o': "o' = o1\<lparr>shardErrStreak := shardErrStreak o1 + 1, shardErrLastLog := now\<rparr>"
      and l1: "length l1 = 1" "\<forall>l \<in> set l1. \<exists>c d n s. l = StillFailing c d n s"
      using n Cons.prems(1) by (auto simp: noteShardFetchError_def poll_ok_def Let_def split: prod.splits)
    have "poll_ok o'" "sorted (shardErrLastLog o' # map fst fs)"
      using Cons.prems(1) le unfolding o' by (auto simp: poll_ok_def)
    from Cons.IH [OF this r] l1 ls True show ?thesis
      unfolding o' f by (auto simp: algebra_simps)
  next
    case False
    then have o': "o' = o1\<lparr>shardErrStreak := shardErrStreak o1 + 1\<rparr>" and l1: "l1 = []"
      using n Cons.prems(1) by (auto simp: noteShardFetchError_def poll_ok_def Let_def split: prod.splits)
    have "poll_ok o'" "sorted (shardErrLastLog o' # map fst fs)"
      using Cons.prems(1) le unfolding o' by (auto simp: poll_ok_def)
    from Cons.IH [OF this r] l1 ls show ?thesis
      unfolding o' f by auto
  qed
qed simp

lemma sorted_le_last: "sorted xs \<Longrightarrow> x \<in> set xs \<Longrightarrow> x \<le> last xs"
  by (induction xs) auto

text \<open>
  An outage is logged at once, then at most once a minute, and its end tells how long it was:
  a run of failed polls starting from a healthy state writes a first line with the cause, then no
  more lines than the minutes it lasts, and the success that ends it writes the number of failures
  and the time since the first one. The hypothesis is that the clock does not run backwards.
\<close>

theorem outage_logged:
  assumes "failures ((t0, e) # fs) no_outage = (ls, o2)" "sorted (t0 # map fst fs)"
  shows "\<exists>cause detail rest. ls = Failing cause detail # rest
    \<and> (cause, detail) = classifyShardFetchError e
    \<and> 60000 * int (length rest) \<le> last (t0 # map fst fs) - t0
    \<and> fst (noteShardFetchOk t1 o2) = [Recovered (length fs + 1) (js_round_s (t1 - t0))]"
proof -
  obtain cause detail where c: "classifyShardFetchError e = (cause, detail)" by force
  let ?o = "\<lparr>shardErrStreak = 1, shardErrSince = t0, shardErrLastLog = t0\<rparr>"
  have first: "noteShardFetchError t0 e no_outage = ([Failing cause detail], ?o)"
    by (simp add: noteShardFetchError_def c no_outage_def Let_def)
  obtain rest where r: "failures fs ?o = (rest, o2)" and ls: "ls = Failing cause detail # rest"
    using assms(1) first by (auto split: prod.splits)
  have f: "poll_ok o2 \<and> shardErrStreak o2 = 1 + length fs \<and> shardErrSince o2 = t0
    \<and> SHARD_ERR_LOG_WINDOW_MS * int (length rest) \<le> shardErrLastLog o2 - t0
    \<and> shardErrLastLog o2 \<in> set (t0 # map fst fs)"
    using failures_streak [OF _ _ r] assms(2) by (simp add: poll_ok_def)
  have "shardErrLastLog o2 \<le> last (t0 # map fst fs)"
    using f assms(2) by (blast intro: sorted_le_last)
  with f ls c show ?thesis
    by (auto simp: noteShardFetchOk_def SHARD_ERR_LOG_WINDOW_MS_def)
qed

theorem outage_logged_witness:
  "fst (noteShardFetchOk 70000 (snd (failures [(0, None), (10000, None), (60000, None)] no_outage))) = [Recovered 3 70]"
proof -
  let ?fs = "[(0, None), (10000, None), (60000, None)] :: (int \<times> fetch_error option) list"
  obtain ls o2 where r: "failures ?fs no_outage = (ls, o2)" by (cases "failures ?fs no_outage")
  from outage_logged [OF r, of 70000]
  have "fst (noteShardFetchOk 70000 o2) = [Recovered 3 (js_round_s 70000)]" by auto
  with r show ?thesis by (simp add: js_round_s_def)
qed

section \<open>Waiting for the first map\<close>

text \<open>
  \<open>bootstrapShardMap\<close>: \<open>net i\<close> is the reply to the i-th fetch. The result is the number of failed
  attempts the error message names, or the store.
\<close>

function boot_loop ::
  "(string \<Rightarrow> jsval option) \<Rightarrow> (nat \<Rightarrow> fetch_reply) \<Rightarrow> nat \<Rightarrow> nat \<Rightarrow> store \<Rightarrow> nat + store" where
  "boot_loop json net maxRetries attempts st =
     (if hasMap st then Inr st
      else let st' = snd (snd (fetchOnce json (net attempts) st))
           in if hasMap st' then Inr st'
              else if attempts + 1 \<ge> maxRetries then Inl (attempts + 1)
              else boot_loop json net maxRetries (attempts + 1) st')"
  by pat_completeness auto

termination
  by (relation "measure (\<lambda>(json, net, maxRetries, attempts, st). maxRetries - attempts)") auto

declare boot_loop.simps [simp del]

definition bootstrapShardMap ::
  "(string \<Rightarrow> jsval option) \<Rightarrow> (nat \<Rightarrow> fetch_reply) \<Rightarrow> nat \<Rightarrow> string \<Rightarrow> nat + store" where
  "bootstrapShardMap json net maxRetries h = boot_loop json net maxRetries 0 (new_store h)"

definition boots :: "(string \<Rightarrow> jsval option) \<Rightarrow> string \<Rightarrow> fetch_reply \<Rightarrow> bool" where
  "boots json h r \<longleftrightarrow> hasMap (snd (snd (fetchOnce json r (new_store h))))"

lemma fetchOnce_no_map:
  assumes "\<not> boots json h r"
  shows "snd (snd (fetchOnce json r (new_store h))) = new_store h"
  using assms by (cases rule: fetchOnce_cases [of json r "new_store h"]) (simp_all add: boots_def hasMap_def)

lemma boot_loop_new:
  "boot_loop json net m a (new_store h) =
     (if boots json h (net a) then Inr (snd (snd (fetchOnce json (net a) (new_store h))))
      else if a + 1 \<ge> m then Inl (a + 1) else boot_loop json net m (a + 1) (new_store h))"
proof -
  have "\<not> hasMap (new_store h)" by (simp add: hasMap_def new_store_def)
  then show ?thesis
    using fetchOnce_no_map [of json h "net a"]
    by (subst boot_loop.simps) (auto simp: boots_def Let_def)
qed

lemma boot_loop_result:
  "case boot_loop json net m a (new_store h) of
     Inl n \<Rightarrow> n = max (a + 1) m \<and> (\<forall>i. a \<le> i \<and> i < n \<longrightarrow> \<not> boots json h (net i))
   | Inr st \<Rightarrow> \<exists>i. a \<le> i \<and> i < max (a + 1) m \<and> boots json h (net i) \<and> (\<forall>j. a \<le> j \<and> j < i \<longrightarrow> \<not> boots json h (net j))
       \<and> st = snd (snd (fetchOnce json (net i) (new_store h)))"
proof (induction "m - a" arbitrary: a rule: less_induct)
  case less
  show ?case
  proof (cases "boots json h (net a) \<or> m \<le> a + 1")
    case True
    then show ?thesis
      by (subst boot_loop_new) (auto simp: max_def less_Suc_eq_le dest: le_antisym)
  next
    case False
    then have step: "boot_loop json net m a (new_store h) = boot_loop json net m (a + 1) (new_store h)"
      by (subst boot_loop_new) simp
    have "m - (a + 1) < m - a" using False by linarith
    note IH = less.hyps [OF this]
    show ?thesis
    proof (cases "boot_loop json net m (a + 1) (new_store h)")
      case (Inl n)
      with IH False have "n = m" "\<forall>i. a + 1 \<le> i \<and> i < n \<longrightarrow> \<not> boots json h (net i)" by auto
      with Inl step False show ?thesis by (auto simp: Suc_le_eq) (metis le_neq_implies_less)
    next
      case (Inr st)
      with IH obtain i where i: "a + 1 \<le> i" "i < max (a + 2) m" "boots json h (net i)"
        "\<forall>j. a + 1 \<le> j \<and> j < i \<longrightarrow> \<not> boots json h (net j)" "st = snd (snd (fetchOnce json (net i) (new_store h)))"
        by auto
      then have "\<forall>j. a \<le> j \<and> j < i \<longrightarrow> \<not> boots json h (net j)"
        using False by (metis Suc_eq_plus1 not_less_eq_eq le_antisym)
      with i Inr step False show ?thesis by (auto intro!: exI [of _ i])
    qed
  qed
qed

text \<open>
  A relay never starts serving without a map, and never waits for ever: the boot loop ends
  after at most the allowed number of fetches (one, if none is allowed); it succeeds exactly when
  one of them brings a valid map, with the store that the first such map gives, and otherwise it
  fails naming the number of attempts.
\<close>

theorem boot_needs_map:
  "case bootstrapShardMap json net maxRetries h of
     Inl n \<Rightarrow> n = max 1 maxRetries \<and> (\<forall>i < n. \<not> boots json h (net i))
   | Inr st \<Rightarrow> \<exists>i < max 1 maxRetries. (\<forall>j < i. \<not> boots json h (net j))
       \<and> st = snd (snd (fetchOnce json (net i) (new_store h)))
       \<and> hasMap st \<and> (\<exists>m. st_map st = Some m \<and> validateShardMap m = None \<and> st_owned st = ownedBuckets m h)"
proof -
  have good: "\<exists>m. st_map st = Some m \<and> validateShardMap m = None \<and> st_owned st = ownedBuckets m h"
    if "st = snd (snd (fetchOnce json r (new_store h)))" "hasMap st" for st r
    using that fetchOnce_ok [OF store_ok_new, of json r h] fetchOnce_self [of json r "new_store h"]
    by (auto simp: store_ok_def hasMap_def well_formed_map_def new_store_def split: option.splits)
  show ?thesis
    using boot_loop_result [where json = json and net = net and m = maxRetries and a = 0 and h = h] good
    by (auto simp: bootstrapShardMap_def boots_def split: sum.splits)
qed

theorem boot_needs_map_witness:
  "bootstrapShardMap (\<lambda>_. None) (\<lambda>_. FetchFailed) 60 ''a'' = Inl 60"
proof -
  have no: "\<not> boots (\<lambda>_. None) ''a'' FetchFailed"
    by (simp add: boots_def fetchOnce_def applyFetchError_def hasMap_def new_store_def)
  show ?thesis
  proof (cases "bootstrapShardMap (\<lambda>_. None) (\<lambda>_. FetchFailed) 60 ''a''")
    case (Inl n)
    with boot_needs_map [where json = "\<lambda>_. None" and net = "\<lambda>_. FetchFailed" and maxRetries = 60 and h = "''a''"] show ?thesis by simp
  next
    case (Inr st)
    with boot_needs_map [where json = "\<lambda>_. None" and net = "\<lambda>_. FetchFailed" and maxRetries = 60 and h = "''a''"] no show ?thesis
      by (auto simp: boots_def)
  qed
qed

end
