(* ===== verification/Metrics.thy ===== *)
theory Metrics
  imports Text "HOL-Library.AList"
begin

text \<open>
  The relay's counters, \<^verbatim>\<open>host/metrics.js\<close>: increments, the socket-lifetime histogram, the snapshot
  that is pushed and the Prometheus text that is scraped. The lemmas show that the histogram is
  cumulative and what each rendered line is. How a number with a fraction is written and how two
  reasons are collated are arguments.
\<close>

section \<open>State and counters\<close>

definition LIFETIME_BUCKETS :: "nat list" where
  "LIFETIME_BUCKETS = [1, 5, 15, 60, 300, 1800]"

record metrics =
  counters :: "(string \<times> int) list"
  bucketCounts :: "nat list"
  lifetimeInf :: nat
  lifetimeSum :: rat

definition new_metrics :: metrics where
  "new_metrics = \<lparr>counters = [], bucketCounts = map (\<lambda>_. 0) LIFETIME_BUCKETS, lifetimeInf = 0, lifetimeSum = 0\<rparr>"

definition counter :: "string \<Rightarrow> metrics \<Rightarrow> int" where
  "counter name m = (case map_of (counters m) name of None \<Rightarrow> 0 | Some v \<Rightarrow> v)"

definition inc :: "string \<Rightarrow> int \<Rightarrow> metrics \<Rightarrow> metrics" where
  "inc name k m = m\<lparr>counters := AList.update name (counter name m + k) (counters m)\<rparr>"

text \<open>The separator between the name and the reason of a labelled counter.\<close>

definition NUL :: char where "NUL = CHR 0x00"

definition reason_key :: "string \<Rightarrow> string \<Rightarrow> string" where
  "reason_key name reason = name @ NUL # reason"

definition incReason :: "string \<Rightarrow> string \<Rightarrow> metrics \<Rightarrow> metrics" where
  "incReason name reason m = inc (reason_key name reason) 1 m"

definition observeSocketLifetime :: "rat \<Rightarrow> metrics \<Rightarrow> metrics" where
  "observeSocketLifetime seconds m =
     m\<lparr>lifetimeInf := lifetimeInf m + 1, lifetimeSum := lifetimeSum m + seconds,
       bucketCounts := map (\<lambda>(b, n). if seconds \<le> of_nat b then n + 1 else n) (zip LIFETIME_BUCKETS (bucketCounts m))\<rparr>"

lemma counter_inc [simp]: "counter n (inc name k m) = counter n m + (if n = name then k else 0)"
  by (simp add: counter_def inc_def update_conv')

lemma counter_observe [simp]: "counter n (observeSocketLifetime s m) = counter n m"
  by (simp add: counter_def observeSocketLifetime_def)

section \<open>The pushed snapshot\<close>

definition rejected_sum :: "metrics \<Rightarrow> int" where
  "rejected_sum m = sum_list (map snd (filter (\<lambda>(key, v). prefix (reason_key ''ws_upgrades_rejected_total'' []) key) (counters m)))"

definition gauge :: "(string \<times> int) list \<Rightarrow> string \<Rightarrow> int \<Rightarrow> int" where
  "gauge gs name d = (case map_of gs name of None \<Rightarrow> d | Some v \<Rightarrow> v)"

definition snapshot :: "(string \<times> int) list \<Rightarrow> metrics \<Rightarrow> (string \<times> int) list" where
  "snapshot gs m =
     [(''ws_upgrades_total'', counter ''ws_upgrades_total'' m),
      (''ws_upgrades_rejected_total'', rejected_sum m),
      (''http_requests_total'', counter ''http_requests_total'' m),
      (''http_errors_total'', counter ''http_errors_total'' m),
      (''process_exceptions_total'', counter ''process_exceptions_total'' m),
      (''quota_exceeded_total'', counter ''quota_exceeded_total'' m),
      (''rooms_live'', gauge gs ''rooms_live'' 0),
      (''sockets_live'', gauge gs ''sockets_live'' 0),
      (''shard_reject_total'', counter ''shard_reject_total'' m),
      (''shard_map_reloads_total'', counter ''shard_map_reloads_total'' m),
      (''shard_map_fetch_errors_total'', counter ''shard_map_fetch_errors_total'' m),
      (''shard_map_version'', gauge gs ''shard_map_version'' (-1)),
      (''shard_owned_buckets'', gauge gs ''shard_owned_buckets'' 0),
      (''shard_draining_buckets'', gauge gs ''shard_draining_buckets'' 0)]"

section \<open>The exposition\<close>

definition COUNTER_HELP :: "(string \<times> string) list" where \<open>
  COUNTER_HELP =
    [(''ws_upgrades_total'', ''WebSocket upgrades accepted.''),
     (''ws_upgrades_rejected_total'', ''WebSocket upgrades rejected before handshake, by reason.''),
     (''http_requests_total'', ''HTTP (non-upgrade) requests received.''),
     (''http_errors_total'', ''HTTP requests that threw and returned 500.''),
     (''process_exceptions_total'', ''Process-level exceptions swallowed to keep serving.''),
     (''metrics_push_errors_total'', ''Outbound metrics-push attempts that failed (network or non-2xx).''),
     (''quota_exceeded_total'', ''Sockets closed because their room exceeded its daily byte quota.''),
     (''phone_no_mac_total'', ''Phones turned away because no mac was parked in their room (admit -> "mac offline").''),
     (''ws_keepalive_terminated_total'', ''Sockets terminated by keepalive after a missed ping/pong (dead peer or path).''),
     (''shard_reject_total'', ''Requests rejected because this box does not own the bucket (reject-on-doubt).''),
     (''shard_map_reloads_total'', ''Shard-map versions adopted (distributed mode).''),
     (''shard_map_fetch_errors_total'', ''Shard-map fetch polls that failed after all retries (kept last-known-good).''),
     (''shard_map_fetch_errors_by_cause_total'', ''Shard-map fetch failures by cause (dns/timeout/conn/tls/http_5xx/http_4xx/parse/other), for attributing an outage after the fact.''),
     (''shard_map_fetch_retries_total'', ''Shard-map fetch attempts retried after a transient failure (per-attempt; a climbing rate with a flat errors_total means the path is lossy but retries are absorbing it).'')]\<close>

definition GAUGE_HELP :: "(string \<times> string) list" where
  "GAUGE_HELP =
    [(''rooms_live'', ''Rooms currently resident in memory.''),
     (''sockets_live'', ''WebSocket connections currently open.''),
     (''rooms_both'', ''Resident rooms with both a mac and a phone admitted (spliced).''),
     (''rooms_mac_only'', ''Resident rooms with a mac parked but no phone.''),
     (''rooms_phone_only'', ''Resident rooms with a phone admitted but no mac (should stay 0; invariant tripwire).''),
     (''rooms_neither'', ''Resident rooms with no admitted socket (pre-auth only, or idle established).''),
     (''shard_map_version'', ''Adopted shard-map version, or -1 if none (distributed mode).''),
     (''shard_owned_buckets'', ''Buckets this box currently owns (distributed mode).''),
     (''shard_draining_buckets'', ''Buckets currently draining after a reshard (distributed mode).'')]"

text \<open>The comment lines of a name, once per name; the set is the names already introduced.\<close>

definition help_lines :: "string \<Rightarrow> string \<Rightarrow> string list \<Rightarrow> string list \<times> string list" where
  "help_lines name kind emitted =
     (if name \<in> set emitted then ([], emitted)
      else ((case map_of (COUNTER_HELP @ GAUGE_HELP) name of
               Some h \<Rightarrow> [''# HELP relay_'' @ name @ '' '' @ h] | None \<Rightarrow> []) @ [''# TYPE relay_'' @ name @ '' '' @ kind],
            emitted @ [name]))"

definition plain_line :: "string \<Rightarrow> string \<Rightarrow> string" where
  "plain_line name v = ''relay_'' @ name @ '' '' @ v"

definition label_line :: "string \<Rightarrow> string \<Rightarrow> string \<Rightarrow> string \<Rightarrow> string" where \<open>
  label_line name key lab v = ''relay_'' @ name @ ''{'' @ key @ ''="'' @ lab @ ''"} '' @ v\<close>

text \<open>The counters split into plain ones and, by name, labelled ones, both in the order of the map.\<close>

definition plain_counters :: "metrics \<Rightarrow> (string \<times> int) list" where
  "plain_counters m = filter (\<lambda>(key, v). NUL \<notin> set key) (counters m)"

definition labelled_counters :: "metrics \<Rightarrow> (string \<times> (string \<times> int) list) list" where
  "labelled_counters m =
     fold (\<lambda>(key, v) acc. case cut NUL key of
         None \<Rightarrow> acc
       | Some (name, reason) \<Rightarrow>
           AList.update name ((case map_of acc name of None \<Rightarrow> [] | Some es \<Rightarrow> es) @ [(reason, v)]) acc)
       (counters m) []"

fun plain_lines :: "string \<Rightarrow> (string \<times> int) list \<Rightarrow> string list \<Rightarrow> string list \<times> string list" where
  "plain_lines kind [] emitted = ([], emitted)"
| "plain_lines kind ((name, v) # rest) emitted =
     (case help_lines name kind emitted of (h, e1) \<Rightarrow>
      case plain_lines kind rest e1 of (ls, e2) \<Rightarrow> (h @ plain_line name (show_int v) # ls, e2))"

fun labelled_lines ::
  "((string \<times> int) list \<Rightarrow> (string \<times> int) list) \<Rightarrow> (string \<times> (string \<times> int) list) list \<Rightarrow> string list \<Rightarrow> string list \<times> string list" where
  "labelled_lines collate [] emitted = ([], emitted)"
| "labelled_lines collate ((name, es) # rest) emitted =
     (case help_lines name ''counter'' emitted of (h, e1) \<Rightarrow>
      case labelled_lines collate rest e1 of (ls, e2) \<Rightarrow>
        (h @ map (\<lambda>(reason, v). label_line name ''reason'' reason (show_int v)) (collate es) @ ls, e2))"

definition histogram_lines :: "(rat \<Rightarrow> string) \<Rightarrow> metrics \<Rightarrow> string list" where
  "histogram_lines show_num m =
     [''# HELP relay_socket_lifetime_seconds How long WebSocket connections lived.'',
      ''# TYPE relay_socket_lifetime_seconds histogram'']
     @ map (\<lambda>(b, n). label_line ''socket_lifetime_seconds_bucket'' ''le'' (show_nat b) (show_int (int n)))
         (zip LIFETIME_BUCKETS (bucketCounts m))
     @ [label_line ''socket_lifetime_seconds_bucket'' ''le'' ''+Inf'' (show_int (int (lifetimeInf m))),
        plain_line ''socket_lifetime_seconds_sum'' (show_num (lifetimeSum m)),
        plain_line ''socket_lifetime_seconds_count'' (show_int (int (lifetimeInf m)))]"

definition render_lines ::
  "((string \<times> int) list \<Rightarrow> (string \<times> int) list) \<Rightarrow> (rat \<Rightarrow> string) \<Rightarrow> (string \<times> int) list \<Rightarrow> metrics \<Rightarrow> string list" where
  "render_lines collate show_num gs m =
     (case plain_lines ''counter'' (plain_counters m) [] of (l1, e1) \<Rightarrow>
      case labelled_lines collate (labelled_counters m) e1 of (l2, e2) \<Rightarrow>
      case plain_lines ''gauge'' gs e2 of (l3, e3) \<Rightarrow> l1 @ l2 @ l3 @ histogram_lines show_num m)"

definition NL :: char where "NL = CHR 0x0A"

definition render ::
  "((string \<times> int) list \<Rightarrow> (string \<times> int) list) \<Rightarrow> (rat \<Rightarrow> string) \<Rightarrow> (string \<times> int) list \<Rightarrow> metrics \<Rightarrow> string" where
  "render collate show_num gs m = join [NL] (render_lines collate show_num gs m) @ [NL]"

section \<open>The histogram\<close>

definition observed :: "rat list \<Rightarrow> metrics" where
  "observed ss = fold observeSocketLifetime ss new_metrics"

lemma observe_zip:
  assumes "bucketCounts m = map g LIFETIME_BUCKETS"
  shows "bucketCounts (observeSocketLifetime s m) = map (\<lambda>b. if s \<le> of_nat b then g b + 1 else g b) LIFETIME_BUCKETS"
  using assms by (simp add: observeSocketLifetime_def LIFETIME_BUCKETS_def)

text \<open>
  The lifetime histogram is cumulative and complete: after any sequence of closed sockets, the
  bucket of a bound counts exactly the sockets that lived at most that long, so the buckets never
  decrease, and the last one, the count, counts them all, with their sum next to it.
\<close>

theorem histogram_cumulative:
  "bucketCounts (observed ss) = map (\<lambda>b. length (filter (\<lambda>s. s \<le> of_nat b) ss)) LIFETIME_BUCKETS
    \<and> sorted (bucketCounts (observed ss)) \<and> lifetimeInf (observed ss) = length ss
    \<and> lifetimeSum (observed ss) = sum_list ss"
proof -
  have b: "bucketCounts (observed ss) = map (\<lambda>b. length (filter (\<lambda>s. s \<le> of_nat b) ss)) LIFETIME_BUCKETS"
  proof (induction ss rule: rev_induct)
    case Nil
    show ?case by (simp add: observed_def new_metrics_def)
  next
    case (snoc s ss)
    have "observed (ss @ [s]) = observeSocketLifetime s (observed ss)" by (simp add: observed_def)
    with observe_zip [OF snoc.IH, of s] show ?case by simp
  qed
  moreover have "sorted (bucketCounts (observed ss))"
    unfolding b LIFETIME_BUCKETS_def by (auto intro!: length_filter_mono)
  moreover have "lifetimeInf (observed ss) = length ss \<and> lifetimeSum (observed ss) = sum_list ss"
    by (induction ss rule: rev_induct)
      (simp_all add: observed_def new_metrics_def observeSocketLifetime_def)
  ultimately show ?thesis by simp
qed

end
