(* ===== verification/DashParse.thy ===== *)
theory DashParse
  imports Metrics "HOL-Library.Multiset"
begin

text \<open>
  The dashboard's reading of a Prometheus text, \<^verbatim>\<open>dashboard/parse.js\<close>, for the relay and for the push
  relay. A table is looked up by its own keys. The main result is the round trip with
  \<^verbatim>\<open>host/metrics.js\<close>: the collector reads back what the relay wrote.
\<close>

section \<open>Lines and labels\<close>

definition parse_value :: "string \<Rightarrow> rat option" where
  "parse_value s = js_number (trim s)"

text \<open>Name, labels and value of a line; a value that is not a finite number is \<open>None\<close>.\<close>

definition parseLine :: "string \<Rightarrow> (string \<times> string \<times> rat option) option" where
  "parseLine line =
     (let s = trim line in
      if s = [] \<or> hd s = CHR ''#'' then None
      else case cut CHR ''{'' s of
        None \<Rightarrow> map_option (\<lambda>(name, rest). (name, [], parse_value rest)) (cut CHR '' '' s)
      | Some (name, after) \<Rightarrow>
          map_option (\<lambda>(labels, rest). (name, labels, parse_value rest)) (cut CHR ''}'' after))"

text \<open>The first \<open>key="value"\<close> in the label text.\<close>

fun label :: "string \<Rightarrow> string \<Rightarrow> string option" where \<open>
  label key [] = None\<close>
| \<open>label key (c # cs) =
     (case (if prefix (key @ ''="'') (c # cs) then cut CHR ''"'' (drop (length key + 2) (c # cs)) else None) of
        Some (v, _) \<Rightarrow> Some v
      | None \<Rightarrow> label key cs)\<close>

section \<open>The relay's metrics\<close>

definition PLAIN :: "(string \<times> string) list" where
  "PLAIN =
    [(''relay_ws_upgrades_total'', ''ws_upgrades''),
     (''relay_http_requests_total'', ''http_requests''),
     (''relay_http_errors_total'', ''http_errors''),
     (''relay_process_exceptions_total'', ''exceptions''),
     (''relay_metrics_push_errors_total'', ''push_errors''),
     (''relay_quota_exceeded_total'', ''quota_exceeded''),
     (''relay_rooms_live'', ''rooms_live''),
     (''relay_sockets_live'', ''sockets_live''),
     (''relay_rooms_both'', ''rooms_both''),
     (''relay_rooms_mac_only'', ''rooms_mac_only''),
     (''relay_rooms_phone_only'', ''rooms_phone_only''),
     (''relay_socket_lifetime_seconds_sum'', ''life_sum''),
     (''relay_socket_lifetime_seconds_count'', ''life_count''),
     (''relay_shard_reject_total'', ''shard_reject''),
     (''relay_shard_map_reloads_total'', ''shard_map_reloads''),
     (''relay_shard_map_fetch_errors_total'', ''shard_map_fetch_errors''),
     (''relay_shard_map_version'', ''shard_map_version''),
     (''relay_shard_owned_buckets'', ''shard_owned_buckets''),
     (''relay_shard_draining_buckets'', ''shard_draining_buckets'')]"

definition life_col :: "string \<Rightarrow> string" where
  "life_col le = ''life_le'' @ le"

definition blank_row :: "(string \<times> rat) list" where
  "blank_row =
     map (\<lambda>c. (c, if c = ''shard_map_version'' then -1 else 0))
       [''ws_upgrades'', ''ws_rejected'', ''http_requests'', ''http_errors'', ''exceptions'', ''push_errors'',
        ''quota_exceeded'', ''rooms_live'', ''sockets_live'', ''rooms_both'', ''rooms_mac_only'', ''rooms_phone_only'',
        ''life_sum'', ''life_count'', ''shard_reject'', ''shard_map_reloads'', ''shard_map_fetch_errors'',
        ''shard_map_version'', ''shard_owned_buckets'', ''shard_draining_buckets'']
     @ map (\<lambda>b. (life_col (show_nat b), 0)) LIFETIME_BUCKETS"

definition or_zero :: "rat option \<Rightarrow> rat" where
  "or_zero v = (case v of None \<Rightarrow> 0 | Some x \<Rightarrow> x)"

definition absorb :: "string \<times> string \<times> rat \<Rightarrow> (string \<times> rat) list \<Rightarrow> (string \<times> rat) list" where
  "absorb p out =
     (case p of (name, labels, v) \<Rightarrow>
        case map_of PLAIN name of
          Some col \<Rightarrow> AList.update col v out
        | None \<Rightarrow>
          if name = ''relay_ws_upgrades_rejected_total''
          then AList.update ''ws_rejected'' (or_zero (map_of out ''ws_rejected'') + v) out
          else if name = ''relay_socket_lifetime_seconds_bucket''
          then (case label ''le'' labels of
                  None \<Rightarrow> out
                | Some le \<Rightarrow>
                    if le \<noteq> [] \<and> le \<noteq> ''+Inf'' \<and> map_of out (life_col le) \<noteq> None
                    then AList.update (life_col le) v out else out)
          else out)"


text \<open>The samples of a text: the lines that parse, with a finite value.\<close>

definition finite_sample :: "string \<Rightarrow> (string \<times> string \<times> rat) option" where
  "finite_sample line =
     (case parseLine line of Some (name, labels, Some v) \<Rightarrow> Some (name, labels, v) | _ \<Rightarrow> None)"

definition parseMetrics :: "string \<Rightarrow> (string \<times> rat) list" where
  "parseMetrics txt = fold absorb (List.map_filter finite_sample (split_on NL txt)) blank_row"

section \<open>The push relay's metrics\<close>

definition PUSH_PLAIN :: "(string \<times> string) list" where
  "PUSH_PLAIN =
    [(''pushrelay_http_requests_total'', ''http_requests''),
     (''pushrelay_http_errors_total'', ''http_errors''),
     (''pushrelay_process_exceptions_total'', ''exceptions''),
     (''pushrelay_register_total'', ''register''),
     (''pushrelay_register_written_total'', ''register_written''),
     (''pushrelay_register_skipped_total'', ''register_skipped''),
     (''pushrelay_register_rejected_total'', ''register_rejected''),
     (''pushrelay_push_total'', ''push''),
     (''pushrelay_push_delivered_total'', ''push_delivered''),
     (''pushrelay_push_bad_secret_total'', ''push_bad_secret''),
     (''pushrelay_push_unknown_token_total'', ''push_unknown_token''),
     (''pushrelay_push_apns_error_total'', ''push_apns_error''),
     (''pushrelay_rate_limited_total'', ''rate_limited''),
     (''pushrelay_devices'', ''devices''),
     (''pushrelay_push_failed_total'', ''push_failed''),
     (''pushrelay_apns_connects_total'', ''apns_connects''),
     (''pushrelay_apns_connect_throttled_total'', ''apns_throttled''),
     (''pushrelay_apns_session_errors_total'', ''apns_session_errors''),
     (''pushrelay_apns_discarded_idle_total'', ''apns_discard_idle''),
     (''pushrelay_apns_discarded_timeout_total'', ''apns_discard_timeout''),
     (''pushrelay_apns_request_timeouts_total'', ''apns_timeouts''),
     (''pushrelay_apns_sessions'', ''apns_sessions''),
     (''pushrelay_apns_oldest_session_age_seconds'', ''apns_oldest_session_s''),
     (''pushrelay_last_delivery_timestamp_seconds'', ''last_delivery_ts''),
     (''pushrelay_apns_latency_seconds_sum'', ''lat_sum''),
     (''pushrelay_apns_latency_seconds_count'', ''lat_count'')]"

definition LAT_BUCKETS :: "(string \<times> string) list" where
  "LAT_BUCKETS =
    [(''0.05'', ''lat_le50''), (''0.1'', ''lat_le100''), (''0.25'', ''lat_le250''), (''0.5'', ''lat_le500''),
     (''1'', ''lat_le1000''), (''2.5'', ''lat_le2500''), (''5'', ''lat_le5000''), (''10'', ''lat_le10000'')]"

definition REJECT_COLUMNS :: "(string \<times> string) list" where
  "REJECT_COLUMNS =
    [(''BadDeviceToken'', ''rej_bad_token''), (''Unregistered'', ''rej_unregistered''),
     (''DeviceTokenNotForTopic'', ''rej_wrong_topic''), (''TooManyRequests'', ''rej_too_many''),
     (''ExpiredProviderToken'', ''rej_expired_jwt''), (''InvalidProviderToken'', ''rej_invalid_jwt''),
     (''InternalServerError'', ''rej_apple_500''), (''ServiceUnavailable'', ''rej_unavailable'')]"

definition PUSH_FIELDS :: "string list" where
  "PUSH_FIELDS = map snd PUSH_PLAIN @ map snd LAT_BUCKETS @ map snd REJECT_COLUMNS @ [''rej_other'']"

definition absorb_push :: "string \<times> string \<times> rat \<Rightarrow> (string \<times> rat) list \<Rightarrow> (string \<times> rat) list" where
  "absorb_push p out =
     (case p of (name, labels, v) \<Rightarrow>
        case map_of PUSH_PLAIN name of
          Some col \<Rightarrow> AList.update col v out
        | None \<Rightarrow>
          if name = ''pushrelay_apns_latency_seconds_bucket''
          then (case Option.bind (label ''le'' labels) (map_of LAT_BUCKETS) of
                  None \<Rightarrow> out | Some col \<Rightarrow> AList.update col v out)
          else if name = ''pushrelay_apns_rejected_total''
          then let col = (case Option.bind (label ''reason'' labels) (map_of REJECT_COLUMNS) of
                            None \<Rightarrow> ''rej_other'' | Some c \<Rightarrow> c)
               in AList.update col (or_zero (map_of out col) + v) out
          else out)"

definition parsePushMetrics :: "string \<Rightarrow> (string \<times> rat) list" where
  "parsePushMetrics txt =
     fold absorb_push (List.map_filter finite_sample (split_on NL txt)) (map (\<lambda>f. (f, 0)) PUSH_FIELDS)"

section \<open>Reading rendered lines\<close>

definition name_char :: "char \<Rightarrow> bool" where
  "name_char c \<longleftrightarrow> CHR ''a'' \<le> c \<and> c \<le> CHR ''z'' \<or> CHR ''0'' \<le> c \<and> c \<le> CHR ''9'' \<or> c = CHR ''_''"

definition reason_char :: "char \<Rightarrow> bool" where \<open>
  reason_char c \<longleftrightarrow> c \<notin> {CHR ''"'', CHR ''}'', NL}\<close>

definition value_text :: "string \<Rightarrow> bool" where
  "value_text v \<longleftrightarrow> v \<noteq> [] \<and> (\<forall>c \<in> set v. \<not> js_space c \<and> c \<notin> {CHR ''{'', CHR ''}''})"

lemma name_char_not: "name_char c \<Longrightarrow> \<not> js_space c \<and> c \<notin> {CHR ''{'', CHR ''}'', CHR '' '', NL, NUL}"
  by (auto simp: name_char_def js_space_def less_eq_char_def NL_def NUL_def)

lemma value_text_int [simp]: "value_text (show_int i)"
  using show_int_shape by (simp add: value_text_def)

lemma value_text_trim: "value_text v \<Longrightarrow> trim v = v"
  by (auto simp: value_text_def intro!: trim_spaceless)

lemma relay_name_not:
  assumes "list_all name_char n" "c \<in> set (''relay_'' @ n)"
  shows "\<not> js_space c \<and> c \<notin> {CHR ''{'', CHR ''}'', CHR '' '', NL, NUL}"
  using assms name_char_not [of c] by (auto simp: list_all_iff js_space_def NL_def NUL_def)

lemma trim_line: "\<not> js_space c \<Longrightarrow> v \<noteq> [] \<Longrightarrow> \<not> js_space (last v) \<Longrightarrow> trim (c # cs @ v) = c # cs @ v"
  by (intro trim_id) simp

lemma value_text_last: "value_text v \<Longrightarrow> v \<noteq> [] \<and> \<not> js_space (last v)"
  by (simp add: value_text_def)

lemma sample_plain:
  assumes "list_all name_char n" "value_text v" "js_number v = Some x"
  shows "finite_sample (plain_line n v) = Some (''relay_'' @ n, [], x)"
proof -
  let ?n = "''relay_'' @ n"
  have line: "plain_line n v = ?n @ CHR '' '' # v" by (simp add: plain_line_def)
  have t: "trim (plain_line n v) = plain_line n v"
    using trim_line [of "CHR ''r''" v "''elay_'' @ n @ '' ''"] value_text_last [OF assms(2)]
    by (simp add: plain_line_def js_space_def)
  have "CHR ''{'' \<notin> set (plain_line n v)"
    using relay_name_not [OF assms(1)] assms(2) unfolding line value_text_def by fastforce
  then have "cut CHR ''{'' (plain_line n v) = None" by (simp add: cut_None)
  moreover have "cut CHR '' '' (plain_line n v) = Some (?n, v)"
    unfolding line using relay_name_not [OF assms(1)] by (intro cut_word) blast
  ultimately show ?thesis
    using t assms(3) value_text_trim [OF assms(2)]
    by (simp add: finite_sample_def parseLine_def parse_value_def plain_line_def)
qed

text \<open>The label text of a rendered line.\<close>

definition label_text :: "string \<Rightarrow> string \<Rightarrow> string" where
  "label_text key lab = key @ CHR ''='' # CHR 0x22 # lab @ [CHR 0x22]"

lemma sample_label:
  assumes "list_all name_char n" "list_all name_char key" "list_all reason_char lab" "value_text v" "js_number v = Some x"
  shows "finite_sample (label_line n key lab v) = Some (''relay_'' @ n, label_text key lab, x)"
proof -
  let ?n = "''relay_'' @ n" and ?l = "key @ CHR ''='' # CHR 0x22 # lab @ [CHR 0x22]"
  have line: "label_line n key lab v = ?n @ CHR ''{'' # (?l @ CHR ''}'' # CHR '' '' # v)"
    by (simp add: label_line_def)
  have t: "trim (label_line n key lab v) = label_line n key lab v"
    using trim_line [of "CHR ''r''" v "''elay_'' @ n @ CHR ''{'' # ?l @ CHR ''}'' # CHR '' '' # []"] value_text_last [OF assms(4)]
    by (simp add: line js_space_def)
  have "cut CHR ''{'' (label_line n key lab v) = Some (?n, ?l @ CHR ''}'' # CHR '' '' # v)"
    unfolding line using relay_name_not [OF assms(1)] by (intro cut_word) blast
  moreover have "CHR ''}'' \<notin> set ?l"
    using assms(2,3) by (auto simp: list_all_iff reason_char_def dest: name_char_not)
  then have "cut CHR ''}'' (?l @ CHR ''}'' # CHR '' '' # v) = Some (?l, CHR '' '' # v)"
    by (rule cut_word)
  moreover have "trim (CHR '' '' # v) = v"
    using value_text_trim [OF assms(4)] by (simp add: trim_def js_space_def)
  ultimately show ?thesis
    using t assms(5) value_text_trim [OF assms(4)]
    by (simp add: finite_sample_def parseLine_def parse_value_def line label_text_def)
qed

lemma trim_hash: "\<not> js_space c \<Longrightarrow> \<exists>t. trim (c # cs) = c # t"
  by (simp add: trim_def dropWhile_append3)

lemma sample_comment: "finite_sample (CHR ''#'' # cs) = None"
proof -
  obtain t where "trim (CHR ''#'' # cs) = CHR ''#'' # t"
    using trim_hash [of "CHR ''#''" cs] by (auto simp: js_space_def)
  then show ?thesis by (simp add: finite_sample_def parseLine_def)
qed

lemma sample_empty: "finite_sample [] = None"
  by (simp add: finite_sample_def parseLine_def trim_def)

lemma help_no_newline: "\<forall>(n, h) \<in> set (COUNTER_HELP @ GAUGE_HELP). NL \<notin> set h"
  by code_simp

lemma help_lines_facts:
  assumes "help_lines name kind emitted = (ls, e)" "list_all name_char name" "NL \<notin> set kind"
  shows "List.map_filter finite_sample ls = [] \<and> (\<forall>l \<in> set ls. NL \<notin> set l)"
proof -
  have nn: "NL \<notin> set name" using assms(2) name_char_not by (auto simp: list_all_iff)
  have "ls = [] \<or> (\<exists>h. (name, h) \<in> set (COUNTER_HELP @ GAUGE_HELP)
        \<and> ls = [CHR ''#'' # '' HELP relay_'' @ name @ '' '' @ h, CHR ''#'' # '' TYPE relay_'' @ name @ '' '' @ kind])
      \<or> ls = [CHR ''#'' # '' TYPE relay_'' @ name @ '' '' @ kind]"
    using assms(1) by (auto simp: help_lines_def dest: map_of_SomeD split: if_splits option.splits)
  then show ?thesis
    using nn assms(3) help_no_newline
    by (elim disjE exE conjE) (auto simp: List.map_filter_def sample_comment NL_def)
qed

lemma map_filter_append: "List.map_filter f (xs @ ys) = List.map_filter f xs @ List.map_filter f ys"
  by (simp add: List.map_filter_def)

lemma map_filter_Cons: "List.map_filter f (x # xs) = (case f x of None \<Rightarrow> [] | Some y \<Rightarrow> [y]) @ List.map_filter f xs"
  by (simp add: List.map_filter_def split: option.split)

definition plain_sample :: "string \<times> int \<Rightarrow> string \<times> string \<times> rat" where
  "plain_sample p = (''relay_'' @ fst p, [], of_int (snd p))"

lemma plain_line_no_newline:
  assumes "list_all name_char n" "value_text v"
  shows "NL \<notin> set (plain_line n v)"
proof -
  have "js_space NL" by (simp add: NL_def js_space_def)
  with assms(2) have "NL \<notin> set v" by (auto simp: value_text_def)
  with relay_name_not [OF assms(1), of NL] show ?thesis by (auto simp: plain_line_def NL_def)
qed

lemma plain_lines_facts:
  assumes "plain_lines kind ps emitted = (ls, e)" "\<forall>p \<in> set ps. list_all name_char (fst p)" "NL \<notin> set kind"
  shows "List.map_filter finite_sample ls = map plain_sample ps \<and> (\<forall>l \<in> set ls. NL \<notin> set l)"
  using assms
proof (induction kind ps emitted arbitrary: ls e rule: plain_lines.induct)
  case (2 kind name v rest emitted)
  obtain h e1 where h: "help_lines name kind emitted = (h, e1)" by force
  obtain ls' e2 where r: "plain_lines kind rest e1 = (ls', e2)" by force
  have ls: "ls = h @ plain_line name (show_int v) # ls'" using "2.prems"(1) h r by simp
  have n: "list_all name_char name" using "2.prems"(2) by simp
  note IH = "2.IH" [OF h [symmetric] r]
  from IH "2.prems"(2,3) help_lines_facts [OF h n "2.prems"(3)] show ?case
    unfolding ls by (auto simp: map_filter_append map_filter_Cons plain_sample_def
        sample_plain [OF n value_text_int js_number_show_int] plain_line_no_newline [OF n value_text_int])
qed (simp add: List.map_filter_def)

definition label_sample :: "string \<Rightarrow> string \<Rightarrow> string \<times> int \<Rightarrow> string \<times> string \<times> rat" where
  "label_sample n key p = (''relay_'' @ n, label_text key (fst p), of_int (snd p))"

lemma label_line_no_newline:
  assumes "list_all name_char n" "list_all name_char key" "list_all reason_char lab" "value_text v"
  shows "NL \<notin> set (label_line n key lab v)"
proof -
  have "js_space NL" by (simp add: NL_def js_space_def)
  with assms(4) have "NL \<notin> set v" by (auto simp: value_text_def)
  moreover have "NL \<notin> set lab" using assms(3) by (auto simp: list_all_iff reason_char_def)
  moreover have "NL \<notin> set key" using assms(2) name_char_not by (auto simp: list_all_iff)
  ultimately show ?thesis
    using relay_name_not [OF assms(1), of NL] by (auto simp: label_line_def NL_def)
qed

lemma reason_key_char: "list_all name_char ''reason''" "list_all name_char ''le''"
  by code_simp+

lemma label_map_facts:
  assumes "list_all name_char n" "\<forall>p \<in> set ps. list_all reason_char (fst p)"
  shows "List.map_filter finite_sample (map (\<lambda>(reason, v). label_line n ''reason'' reason (show_int v)) ps)
      = map (label_sample n ''reason'') ps
    \<and> (\<forall>l \<in> set (map (\<lambda>(reason, v). label_line n ''reason'' reason (show_int v)) ps). NL \<notin> set l)"
  using assms(2)
proof (induction ps)
  case (Cons p ps)
  obtain r v where p: "p = (r, v)" by force
  have r: "list_all reason_char r" using Cons.prems p by simp
  show ?case
    using Cons.IH Cons.prems
      sample_label [OF assms(1) reason_key_char(1) r value_text_int js_number_show_int, of v]
      label_line_no_newline [OF assms(1) reason_key_char(1) r value_text_int, of v]
    by (simp add: map_filter_Cons label_sample_def p)
qed (simp add: List.map_filter_def)

lemma labelled_lines_facts:
  assumes "labelled_lines collate ps emitted = (ls, e)"
    and "\<forall>(n, es) \<in> set ps. list_all name_char n \<and> (\<forall>p \<in> set (collate es). list_all reason_char (fst p))"
  shows "List.map_filter finite_sample ls = concat (map (\<lambda>(n, es). map (label_sample n ''reason'') (collate es)) ps)
    \<and> (\<forall>l \<in> set ls. NL \<notin> set l)"
  using assms
proof (induction collate ps emitted arbitrary: ls e rule: labelled_lines.induct)
  case (2 collate name es rest emitted)
  obtain h e1 where h: "help_lines name ''counter'' emitted = (h, e1)" by force
  obtain ls' e2 where r: "labelled_lines collate rest e1 = (ls', e2)" by force
  have n: "list_all name_char name" "\<forall>p \<in> set (collate es). list_all reason_char (fst p)"
    using "2.prems"(2) by auto
  have k: "NL \<notin> set ''counter''" by (simp add: NL_def)
  note IH = "2.IH" [OF h [symmetric] r]
  from IH "2.prems" help_lines_facts [OF h n(1) k] label_map_facts [OF n] h r show ?case
    by (auto simp: map_filter_append)
qed (simp add: List.map_filter_def)

section \<open>The histogram lines\<close>

lemma bucket_texts: "map show_nat LIFETIME_BUCKETS = [''1'', ''5'', ''15'', ''60'', ''300'', ''1800'']"
  by code_simp

definition hist_samples :: "metrics \<Rightarrow> (string \<times> string \<times> rat) list" where
  "hist_samples m =
     map (\<lambda>(b, n). (''relay_socket_lifetime_seconds_bucket'', label_text ''le'' (show_nat b), of_nat n))
       (zip LIFETIME_BUCKETS (bucketCounts m))
     @ [(''relay_socket_lifetime_seconds_bucket'', label_text ''le'' ''+Inf'', of_nat (lifetimeInf m)),
        (''relay_socket_lifetime_seconds_sum'', [], lifetimeSum m),
        (''relay_socket_lifetime_seconds_count'', [], of_nat (lifetimeInf m))]"

lemma show_nat_reason: "list_all reason_char (show_nat b)"
  using show_nat_facts(1) [of b]
  by (auto simp: list_all_iff reason_char_def is_digit_def less_eq_char_def NL_def dest!: bspec)

lemma hist_name: "list_all name_char ''socket_lifetime_seconds_bucket''"
  "list_all name_char ''socket_lifetime_seconds_sum''" "list_all name_char ''socket_lifetime_seconds_count''"
  by code_simp+

lemma bucket_lines_facts:
  "List.map_filter finite_sample
      (map (\<lambda>(b, n). label_line ''socket_lifetime_seconds_bucket'' ''le'' (show_nat b) (show_int (int n))) bs)
    = map (\<lambda>(b, n). (''relay_socket_lifetime_seconds_bucket'', label_text ''le'' (show_nat b), of_nat n)) bs
   \<and> (\<forall>l \<in> set (map (\<lambda>(b, n). label_line ''socket_lifetime_seconds_bucket'' ''le'' (show_nat b) (show_int (int n))) bs). NL \<notin> set l)"
proof (induction bs)
  case (Cons p bs)
  obtain b n where p: "p = (b, n)" by force
  have "js_number (show_int (int n)) = Some (of_nat n)" by simp
  note f = sample_label [OF hist_name(1) reason_key_char(2) show_nat_reason value_text_int this, of b]
  show ?case
    using Cons.IH f label_line_no_newline [OF hist_name(1) reason_key_char(2) show_nat_reason value_text_int, of b "int n"]
    by (auto simp: map_filter_Cons p)
qed (simp add: List.map_filter_def)

text \<open>What is asked of the writing of numbers with a fraction: it reads back, and has no blanks.\<close>

definition writes :: "(rat \<Rightarrow> string) \<Rightarrow> rat \<Rightarrow> bool" where
  "writes show_num q \<longleftrightarrow> value_text (show_num q) \<and> js_number (show_num q) = Some q"

lemma histogram_facts:
  assumes "writes show_num (lifetimeSum m)"
  shows "List.map_filter finite_sample (histogram_lines show_num m) = hist_samples m
    \<and> (\<forall>l \<in> set (histogram_lines show_num m). NL \<notin> set l)"
proof -
  let ?n = "lifetimeInf m"
  have inf: "list_all reason_char ''+Inf''" by code_simp
  have num: "js_number (show_int (int ?n)) = Some (of_nat ?n)" by simp
  have w: "value_text (show_num (lifetimeSum m))" "js_number (show_num (lifetimeSum m)) = Some (lifetimeSum m)"
    using assms by (simp_all add: writes_def)
  have heads: "finite_sample ''# HELP relay_socket_lifetime_seconds How long WebSocket connections lived.'' = None"
    "finite_sample ''# TYPE relay_socket_lifetime_seconds histogram'' = None"
    by (rule sample_comment)+
  have nl: "NL \<notin> set ''# HELP relay_socket_lifetime_seconds How long WebSocket connections lived.''"
    "NL \<notin> set ''# TYPE relay_socket_lifetime_seconds histogram''"
    by code_simp+
  show ?thesis
    unfolding histogram_lines_def hist_samples_def
    using bucket_lines_facts [of "zip LIFETIME_BUCKETS (bucketCounts m)"] nl heads
      sample_label [OF hist_name(1) reason_key_char(2) inf value_text_int num]
      sample_plain [OF hist_name(2) w] sample_plain [OF hist_name(3) value_text_int num]
      label_line_no_newline [OF hist_name(1) reason_key_char(2) inf value_text_int, of "int ?n"]
      plain_line_no_newline [OF hist_name(2) w(1)] plain_line_no_newline [OF hist_name(3) value_text_int, of "int ?n"]
    by (simp only: map_filter_append map_filter_Cons option.case list.simps append.simps set_append ball_Un append_Nil simp_thms
        List.list.set insert_iff bex_simps ball_simps List.map_filter_simps) auto
qed

section \<open>The labelled counters\<close>

definition entry_of :: "string \<Rightarrow> string \<times> int \<Rightarrow> (string \<times> int) option" where
  "entry_of n p = (case cut NUL (fst p) of None \<Rightarrow> None | Some (n', r) \<Rightarrow> if n' = n then Some (r, snd p) else None)"

definition or_nil :: "'a list option \<Rightarrow> 'a list" where
  "or_nil x = (case x of None \<Rightarrow> [] | Some l \<Rightarrow> l)"

definition label_step :: "string \<times> int \<Rightarrow> (string \<times> (string \<times> int) list) list \<Rightarrow> (string \<times> (string \<times> int) list) list" where
  "label_step p acc = (case cut NUL (fst p) of None \<Rightarrow> acc
     | Some (n, r) \<Rightarrow> AList.update n (or_nil (map_of acc n) @ [(r, snd p)]) acc)"

lemma labelled_counters_fold: "labelled_counters m = fold label_step (counters m) []"
proof -
  have "(\<lambda>(key, v) acc. case cut NUL key of None \<Rightarrow> acc
      | Some (name, reason) \<Rightarrow> AList.update name ((case map_of acc name of None \<Rightarrow> [] | Some es \<Rightarrow> es) @ [(reason, v)]) acc)
      = label_step"
    by (auto simp: label_step_def or_nil_def fun_eq_iff split: option.splits)
  then show ?thesis by (simp add: labelled_counters_def)
qed

lemma key_update: "n \<in> fst ` set (AList.update k v al) \<longleftrightarrow> n = k \<or> n \<in> fst ` set al"
  using dom_update [of k v al] by auto

lemma label_fold:
  assumes "distinct (map fst acc)"
  shows "distinct (map fst (fold label_step cs acc))
    \<and> or_nil (map_of (fold label_step cs acc) n) = or_nil (map_of acc n) @ List.map_filter (entry_of n) cs
    \<and> (n \<in> fst ` set (fold label_step cs acc) \<longrightarrow> n \<in> fst ` set acc \<or> List.map_filter (entry_of n) cs \<noteq> [])"
  using assms
proof (induction cs arbitrary: acc)
  case (Cons p cs)
  have d: "distinct (map fst (label_step p acc))"
    using Cons.prems by (auto simp: label_step_def distinct_update split: option.splits)
  have m: "or_nil (map_of (label_step p acc) n) = or_nil (map_of acc n) @ List.map_filter (entry_of n) [p]"
    by (auto simp: label_step_def entry_of_def map_filter_Cons List.map_filter_simps update_conv' or_nil_def
        split: option.splits)
  have k: "n \<in> fst ` set (label_step p acc) \<Longrightarrow> n \<in> fst ` set acc \<or> List.map_filter (entry_of n) [p] \<noteq> []"
  proof (cases "cut NUL (fst p)")
    case (Some q)
    then show "n \<in> fst ` set (label_step p acc) \<Longrightarrow> ?thesis"
      by (cases q) (simp add: label_step_def entry_of_def map_filter_Cons key_update, blast)
  qed (simp add: label_step_def)
  have "List.map_filter (entry_of n) (p # cs) = List.map_filter (entry_of n) [p] @ List.map_filter (entry_of n) cs"
    by (simp add: map_filter_Cons List.map_filter_simps split: option.split)
  with Cons.IH [OF d] m k show ?case by auto
qed (simp add: List.map_filter_simps)

lemma labelled_entries:
  "distinct (map fst (labelled_counters m))"
  "or_nil (map_of (labelled_counters m) n) = List.map_filter (entry_of n) (counters m)"
  "n \<in> fst ` set (labelled_counters m) \<Longrightarrow> List.map_filter (entry_of n) (counters m) \<noteq> []"
  using label_fold [of "[]" "counters m" n] by (auto simp: labelled_counters_fold or_nil_def)

lemma labelled_member:
  assumes "(n, es) \<in> set (labelled_counters m)"
  shows "es = List.map_filter (entry_of n) (counters m)"
  using labelled_entries(1) [of m] labelled_entries(2) [of m n] assms by (simp add: or_nil_def)

lemma cut_Some: "cut d s = Some (a, b) \<Longrightarrow> s = a @ d # b"
  by (induction s arbitrary: a) (auto split: if_splits)

lemma prefix_reason_key:
  assumes "NUL \<notin> set n"
  shows "prefix (reason_key n []) key \<longleftrightarrow> (\<exists>r. cut NUL key = Some (n, r))"
proof
  assume "prefix (reason_key n []) key"
  then obtain r where "key = n @ NUL # r" by (auto simp: prefix_def reason_key_def)
  with assms show "\<exists>r. cut NUL key = Some (n, r)" by (simp add: cut_word)
next
  assume "\<exists>r. cut NUL key = Some (n, r)"
  then show "prefix (reason_key n []) key" by (auto simp: prefix_def reason_key_def dest: cut_Some)
qed

lemma rejected_entries:
  "rejected_sum m = sum_list (map snd (List.map_filter (entry_of ''ws_upgrades_rejected_total'') (counters m)))"
proof -
  have nul: "NUL \<notin> set ''ws_upgrades_rejected_total''" by code_simp
  have "sum_list (map snd (filter (\<lambda>(key, v). prefix (reason_key ''ws_upgrades_rejected_total'' []) key) cs))
      = sum_list (map snd (List.map_filter (entry_of ''ws_upgrades_rejected_total'') cs))" for cs :: "(string \<times> int) list"
    by (induction cs)
      (auto simp: prefix_reason_key [OF nul] map_filter_Cons List.map_filter_simps entry_of_def split: option.splits)
  then show ?thesis by (simp add: rejected_sum_def)
qed

section \<open>What a sample does to a row\<close>

lemma plain_columns: "distinct (map snd PLAIN)" "''ws_rejected'' \<notin> set (map snd PLAIN)"
  "list_all (\<lambda>c. \<not> prefix ''life_le'' c) (map snd PLAIN)"
  by code_simp+

lemma plain_injective: "map_of PLAIN a = Some c \<Longrightarrow> map_of PLAIN b = Some c \<Longrightarrow> a = b"
  using plain_columns(1) [unfolded distinct_map] inj_onD [of snd "set PLAIN" "(a, c)" "(b, c)"]
  by (auto dest!: map_of_SomeD)

definition spares :: "string \<Rightarrow> string \<times> string \<times> rat \<Rightarrow> bool" where
  "spares c p \<longleftrightarrow> map_of PLAIN (fst p) \<noteq> Some c
     \<and> (c = ''ws_rejected'' \<longrightarrow> fst p \<noteq> ''relay_ws_upgrades_rejected_total'')
     \<and> (fst p = ''relay_socket_lifetime_seconds_bucket'' \<longrightarrow>
          (case label ''le'' (fst (snd p)) of None \<Rightarrow> True | Some le \<Rightarrow> life_col le \<noteq> c))"

lemma absorb_spares: "spares c p \<Longrightarrow> map_of (absorb p out) c = map_of out c"
proof -
  assume s: "spares c p"
  obtain n l v where p: "p = (n, l, v)" using prod_cases3 by blast
  show ?thesis
  proof (cases "map_of PLAIN n")
    case None
    with s show ?thesis
      by (cases "label ''le'' l") (auto simp: spares_def absorb_def p update_conv')
  next
    case (Some d)
    with s show ?thesis by (auto simp: spares_def absorb_def p update_conv')
  qed
qed

lemma fold_spares: "\<forall>p \<in> set ps. spares c p \<Longrightarrow> map_of (fold absorb ps out) c = map_of out c"
  by (induction ps arbitrary: out) (simp_all add: absorb_spares)

lemma absorb_plain: "map_of PLAIN n = Some c \<Longrightarrow> map_of (absorb (n, l, v) out) c = Some v"
  by (simp add: absorb_def update_conv')

lemma label_label_text:
  assumes "CHR 0x22 \<notin> set lab" "key \<noteq> []"
  shows "label key (label_text key lab) = Some lab"
proof -
  obtain k ks where key: "key = k # ks" using assms(2) by (cases key) auto
  have "drop (length key + 2) (label_text key lab) = lab @ [CHR 0x22]"
    by (simp add: label_text_def)
  moreover have "prefix (key @ [CHR ''='', CHR 0x22]) (label_text key lab)"
    by (simp add: label_text_def)
  moreover have "cut CHR 0x22 (lab @ [CHR 0x22]) = Some (lab, [])"
    using cut_word [OF assms(1), of "[]"] by simp
  moreover have "label_text key lab = k # ks @ CHR ''='' # CHR 0x22 # lab @ [CHR 0x22]"
    by (simp add: label_text_def key)
  ultimately show ?thesis by (simp add: key)
qed

section \<open>The round trip\<close>

lemma plain_spares:
  assumes "map_of PLAIN n = Some c" "fst q \<noteq> n"
  shows "spares c q"
proof -
  have c: "c \<in> set (map snd PLAIN)" using assms(1) by (force dest: map_of_SomeD)
  then have "c \<noteq> ''ws_rejected''" "\<not> prefix ''life_le'' c"
    using plain_columns(2) plain_columns(3) [unfolded list_all_iff] by blast+
  moreover have "map_of PLAIN (fst q) \<noteq> Some c" using assms plain_injective by blast
  ultimately show ?thesis by (auto simp: spares_def life_col_def split: option.split)
qed

lemma fold_plain:
  assumes "map_of PLAIN n = Some c"
  shows "\<forall>q \<in> set qs. fst q = n \<longrightarrow> snd (snd q) = v \<Longrightarrow> (\<exists>q \<in> set qs. fst q = n) \<or> map_of out c = Some v \<Longrightarrow>
    map_of (fold absorb qs out) c = Some v"
proof (induction qs arbitrary: out)
  case (Cons q qs)
  have "map_of (absorb q out) c = (if fst q = n then Some v else map_of out c)"
    using plain_spares [OF assms, of q] absorb_spares [of c q out] absorb_plain [OF assms, of "fst (snd q)" "snd (snd q)" out] Cons.prems(1)
    by (cases "fst q = n") (auto simp: prod_eq_iff)
  with Cons.IH [of "absorb q out"] Cons.prems show ?case by auto
qed simp

lemma rejected_name: "map_of PLAIN ''relay_ws_upgrades_rejected_total'' = None"
  "map_of PLAIN ''relay_socket_lifetime_seconds_bucket'' = None"
  by code_simp+

definition rejections :: "(string \<times> string \<times> rat) list \<Rightarrow> rat" where
  "rejections qs = sum_list (map (\<lambda>q. snd (snd q)) (filter (\<lambda>q. fst q = ''relay_ws_upgrades_rejected_total'') qs))"

lemma rejections_append [simp]: "rejections (xs @ ys) = rejections xs + rejections ys"
  by (simp add: rejections_def)

lemma fold_rejected:
  "map_of out ''ws_rejected'' = Some x \<Longrightarrow> map_of (fold absorb qs out) ''ws_rejected'' = Some (x + rejections qs)"
proof (induction qs arbitrary: out x)
  case (Cons q qs)
  have no: "map_of PLAIN n \<noteq> Some ''ws_rejected''" for n
    using plain_columns(2) by (force dest: map_of_SomeD)
  have "map_of (absorb q out) ''ws_rejected''
      = Some (x + (if fst q = ''relay_ws_upgrades_rejected_total'' then snd (snd q) else 0))"
  proof (cases "fst q = ''relay_ws_upgrades_rejected_total''")
    case True
    then show ?thesis using rejected_name(1) Cons.prems
      by (simp add: absorb_def case_prod_beta or_zero_def update_conv')
  next
    case False
    then have "spares ''ws_rejected'' q" using no by (simp add: spares_def life_col_def split: option.split)
    from absorb_spares [OF this] show ?thesis using Cons.prems False by simp
  qed
  from Cons.IH [OF this] show ?case by (simp add: rejections_def add.assoc)
qed (simp add: rejections_def)

lemma fold_bucket:
  assumes "le \<noteq> []" "le \<noteq> ''+Inf''"
  defines "hit \<equiv> \<lambda>q :: string \<times> string \<times> rat. fst q = ''relay_socket_lifetime_seconds_bucket'' \<and> label ''le'' (fst (snd q)) = Some le"
  shows "\<forall>q \<in> set qs. hit q \<longrightarrow> snd (snd q) = v \<Longrightarrow> map_of out (life_col le) \<noteq> None \<Longrightarrow>
    (\<exists>q \<in> set qs. hit q) \<or> map_of out (life_col le) = Some v \<Longrightarrow> map_of (fold absorb qs out) (life_col le) = Some v"
proof (induction qs arbitrary: out)
  case (Cons q qs)
  have no: "map_of PLAIN n \<noteq> Some (life_col le)" for n
  proof
    assume "map_of PLAIN n = Some (life_col le)"
    then have "life_col le \<in> set (map snd PLAIN)" by (force dest: map_of_SomeD)
    then show False using plain_columns(3) by (auto simp: list_all_iff life_col_def)
  qed
  have "map_of (absorb q out) (life_col le) = (if hit q then Some v else map_of out (life_col le))"
  proof (cases "hit q")
    case True
    then show ?thesis using rejected_name(2) Cons.prems assms(1,2)
      by (simp add: absorb_def case_prod_beta hit_def update_conv')
  next
    case False
    then have "spares (life_col le) q" using no by (auto simp: spares_def life_col_def hit_def split: option.split)
    from absorb_spares [OF this] show ?thesis using False by simp
  qed
  note step = this
  show ?case
  proof (cases "hit q")
    case True
    with step Cons.IH [of "absorb q out"] Cons.prems(1) show ?thesis by simp
  next
    case False
    with step Cons.IH [of "absorb q out"] Cons.prems show ?thesis by simp
  qed
qed simp

text \<open>
  What a relay's counters and gauges satisfy: names of the metric alphabet, reasons that need no
  escaping, each gauge once and under no counter's name, no clash with the names the histogram and the
  rejections are rendered under, one count per bucket.
\<close>

definition exposition_ok :: "(string \<times> int) list \<Rightarrow> metrics \<Rightarrow> bool" where
  "exposition_ok gs m \<longleftrightarrow>
     distinct (map fst (plain_counters m @ gs)) \<and> length (bucketCounts m) = length LIFETIME_BUCKETS
     \<and> list_all (\<lambda>(n, v). list_all name_char n
          \<and> n \<notin> {''ws_upgrades_rejected_total'', ''socket_lifetime_seconds_sum'', ''socket_lifetime_seconds_count'',
                  ''socket_lifetime_seconds_bucket''}) (plain_counters m @ gs)
     \<and> list_all (\<lambda>(n, es). list_all name_char n \<and> map_of PLAIN (''relay_'' @ n) = None
          \<and> n \<noteq> ''socket_lifetime_seconds_bucket'' \<and> list_all (\<lambda>(r, v). list_all reason_char r) es) (labelled_counters m)"

lemma exposition_plain:
  assumes "exposition_ok gs m" "p \<in> set (plain_counters m @ gs)"
  shows "list_all name_char (fst p)"
    "fst p \<notin> {''ws_upgrades_rejected_total'', ''socket_lifetime_seconds_sum'', ''socket_lifetime_seconds_count'',
       ''socket_lifetime_seconds_bucket''}"
proof -
  have "list_all (\<lambda>(n, v). list_all name_char n
          \<and> n \<notin> {''ws_upgrades_rejected_total'', ''socket_lifetime_seconds_sum'', ''socket_lifetime_seconds_count'',
                  ''socket_lifetime_seconds_bucket''}) (plain_counters m @ gs)"
    using assms(1) unfolding exposition_ok_def by blast
  from this [unfolded list_all_iff, THEN bspec, OF assms(2)]
  show "list_all name_char (fst p)"
    "fst p \<notin> {''ws_upgrades_rejected_total'', ''socket_lifetime_seconds_sum'', ''socket_lifetime_seconds_count'',
       ''socket_lifetime_seconds_bucket''}"
    by (simp_all add: list_all_iff case_prod_beta)
qed

lemma exposition_labelled:
  assumes "exposition_ok gs m" "(n, es) \<in> set (labelled_counters m)"
  shows "list_all name_char n" "map_of PLAIN (''relay_'' @ n) = None" "n \<noteq> ''socket_lifetime_seconds_bucket''"
    "p \<in> set es \<Longrightarrow> list_all reason_char (fst p)"
proof -
  have "list_all (\<lambda>(n, es). list_all name_char n \<and> map_of PLAIN (''relay_'' @ n) = None
          \<and> n \<noteq> ''socket_lifetime_seconds_bucket'' \<and> list_all (\<lambda>(r, v). list_all reason_char r) es) (labelled_counters m)"
    using assms(1) unfolding exposition_ok_def by blast
  from this [unfolded list_all_iff, THEN bspec, OF assms(2)]
  show "list_all name_char n" "map_of PLAIN (''relay_'' @ n) = None" "n \<noteq> ''socket_lifetime_seconds_bucket''"
    "p \<in> set es \<Longrightarrow> list_all reason_char (fst p)"
    by (auto simp: list_all_iff)
qed

definition labelled_samples ::
  "((string \<times> int) list \<Rightarrow> (string \<times> int) list) \<Rightarrow> metrics \<Rightarrow> (string \<times> string \<times> rat) list" where
  "labelled_samples collate m =
     concat (map (\<lambda>(n, es). map (label_sample n ''reason'') (collate es)) (labelled_counters m))"

lemma render_parts:
  assumes ok: "exposition_ok gs m" and w: "writes show_num (lifetimeSum m)" and c: "\<And>es. mset (collate es) = mset es"
  shows "split_on NL (render collate show_num gs m) = render_lines collate show_num gs m @ [[]]"
    "List.map_filter finite_sample (render_lines collate show_num gs m)
       = map plain_sample (plain_counters m) @ labelled_samples collate m @ map plain_sample gs @ hist_samples m"
proof -
  obtain l1 e1 where 1: "plain_lines ''counter'' (plain_counters m) [] = (l1, e1)" by force
  obtain l2 e2 where 2: "labelled_lines collate (labelled_counters m) e1 = (l2, e2)" by force
  obtain l3 e3 where 3: "plain_lines ''gauge'' gs e2 = (l3, e3)" by force
  have kinds: "NL \<notin> set ''counter''" "NL \<notin> set ''gauge''" by code_simp+
  have "set (collate es) = set es" for es using c [of es] by (rule mset_eq_setD)
  then have lab: "\<forall>(n, es) \<in> set (labelled_counters m). list_all name_char n \<and> (\<forall>p \<in> set (collate es). list_all reason_char (fst p))"
    using exposition_labelled [OF ok] by blast
  have names: "\<forall>p \<in> set (plain_counters m). list_all name_char (fst p)" "\<forall>p \<in> set gs. list_all name_char (fst p)"
    using exposition_plain(1) [OF ok] by auto
  let ?ls = "l1 @ l2 @ l3 @ histogram_lines show_num m"
  have ls: "render_lines collate show_num gs m = ?ls" by (simp add: render_lines_def 1 2 3)
  note f = plain_lines_facts [OF 1 names(1) kinds(1)] labelled_lines_facts [OF 2 lab]
    plain_lines_facts [OF 3 names(2) kinds(2)] histogram_facts [OF w]
  have "split_on NL (render collate show_num gs m) = split_on NL (join [NL] ?ls) @ split_on NL []"
    unfolding render_def ls by (rule split_on_append)
  also have "split_on NL (join [NL] ?ls) = ?ls"
    using f by (intro split_join) (auto simp: histogram_lines_def)
  finally show "split_on NL (render collate show_num gs m) = render_lines collate show_num gs m @ [[]]"
    by (simp add: ls)
  show "List.map_filter finite_sample (render_lines collate show_num gs m)
       = map plain_sample (plain_counters m) @ labelled_samples collate m @ map plain_sample gs @ hist_samples m"
    unfolding ls using f by (simp add: map_filter_append labelled_samples_def)
qed

lemma render_samples:
  assumes "exposition_ok gs m" "writes show_num (lifetimeSum m)" "\<And>es. mset (collate es) = mset es"
  shows "List.map_filter finite_sample (split_on NL (render collate show_num gs m))
    = map plain_sample (plain_counters m) @ labelled_samples collate m @ map plain_sample gs @ hist_samples m"
  using render_parts [OF assms]
  by (simp add: map_filter_append map_filter_Cons sample_empty List.map_filter_simps)

lemma rejections_plain:
  assumes "''ws_upgrades_rejected_total'' \<notin> fst ` set ps"
  shows "rejections (map plain_sample ps) = 0"
  using assms by (induction ps) (auto simp: rejections_def plain_sample_def)

lemma rejections_hist [simp]: "rejections (hist_samples m) = 0"
  by (simp add: rejections_def hist_samples_def filter_map comp_def case_prod_beta)

lemma rejections_labelled:
  assumes "\<And>es. mset (collate es) = mset es"
  shows "rejections (labelled_samples collate m) = of_int (rejected_sum m)"
proof -
  let ?r = "''ws_upgrades_rejected_total''"
  have sum: "sum_list (map (\<lambda>p. of_int (snd p)) (collate es)) = (of_int (sum_list (map snd es)) :: rat)"
    for es :: "(string \<times> int) list"
  proof -
    have "sum_list (map (\<lambda>p. of_int (snd p) :: rat) (collate es)) = sum_list (map (\<lambda>p. of_int (snd p)) es)"
      using arg_cong [OF assms [of es], of "\<lambda>M. sum_mset (image_mset (\<lambda>p. of_int (snd p) :: rat) M)"]
      by (simp flip: sum_mset_sum_list)
    also have "\<dots> = of_int (sum_list (map snd es))" by (induction es) auto
    finally show ?thesis .
  qed
  have one: "rejections (map (label_sample n ''reason'') (collate es)) = (if n = ?r then of_int (sum_list (map snd es)) else 0)"
    for n es using sum [of es] by (simp add: rejections_def label_sample_def filter_map comp_def)
  have "distinct (map fst ps) \<Longrightarrow>
      rejections (concat (map (\<lambda>(n, es). map (label_sample n ''reason'') (collate es)) ps))
        = of_int (sum_list (map snd (or_nil (map_of ps ?r))))" for ps
  proof (induction ps)
    case (Cons p ps)
    obtain n es where p: "p = (n, es)" by force
    have none: "n = ?r \<Longrightarrow> map_of ps ?r = None" using Cons.prems p by (simp add: map_of_eq_None_iff)
    from Cons.IH Cons.prems none show ?case
      by (cases "n = ?r") (simp_all add: p one or_nil_def)
  qed (simp add: rejections_def or_nil_def)
  from this [OF labelled_entries(1)] show ?thesis
    by (simp add: labelled_samples_def labelled_entries(2) rejected_entries)
qed

lemma plain_sample_name [simp]: "fst (plain_sample p) = ''relay_'' @ fst p" "snd (snd (plain_sample p)) = of_int (snd p)"
  by (simp_all add: plain_sample_def)

lemma labelled_sample_name:
  assumes "exposition_ok gs m" "q \<in> set (labelled_samples collate m)"
  shows "map_of PLAIN (fst q) = None \<and> fst q \<noteq> ''relay_socket_lifetime_seconds_bucket''"
proof -
  obtain n es p where "(n, es) \<in> set (labelled_counters m)" "q = label_sample n ''reason'' p"
    using assms(2) by (auto simp: labelled_samples_def)
  with exposition_labelled(2,3) [OF assms(1)] show ?thesis by (auto simp: label_sample_def)
qed

lemma hist_sample_name:
  "q \<in> set (hist_samples m) \<Longrightarrow> fst q \<in> {''relay_socket_lifetime_seconds_bucket'', ''relay_socket_lifetime_seconds_sum'',
     ''relay_socket_lifetime_seconds_count''}"
  by (auto simp: hist_samples_def)

lemma plain_values:
  assumes ok: "exposition_ok gs m" and p: "(n, v) \<in> set (plain_counters m @ gs)" and col: "map_of PLAIN (''relay_'' @ n) = Some c"
    and q: "q \<in> set (map plain_sample (plain_counters m) @ labelled_samples collate m @ map plain_sample gs @ hist_samples m)"
    and "fst q = ''relay_'' @ n"
  shows "snd (snd q) = of_int v"
proof -
  have d: "distinct (map fst (plain_counters m @ gs))"
    using ok unfolding exposition_ok_def by blast
  have bad: "n \<notin> {''socket_lifetime_seconds_bucket'', ''socket_lifetime_seconds_sum'', ''socket_lifetime_seconds_count''}"
    using exposition_plain(2) [OF ok p] by simp
  have "q \<notin> set (labelled_samples collate m)" 
    using labelled_sample_name [OF ok, of q collate] unfolding assms(5) col by blast
  moreover have "q \<notin> set (hist_samples m)" using hist_sample_name [of q m, unfolded assms(5)] bad by auto
  ultimately obtain p' where p': "p' \<in> set (plain_counters m @ gs)" "q = plain_sample p'" using q by auto
  then have "fst p' = n" using assms(5) by simp
  then have "p' = (n, v)" using eq_key_imp_eq_value [OF d, of n v "snd p'"] p p'(1) by (cases p') auto
  with p'(2) show ?thesis by simp
qed

lemma hist_values:
  assumes "length (bucketCounts m) = length LIFETIME_BUCKETS" "(b, k) \<in> set (zip LIFETIME_BUCKETS (bucketCounts m))"
  shows "\<exists>q \<in> set (hist_samples m). fst q = ''relay_socket_lifetime_seconds_bucket'' \<and> label ''le'' (fst (snd q)) = Some (show_nat b)"
    "q \<in> set (hist_samples m) \<Longrightarrow> label ''le'' (fst (snd q)) = Some (show_nat b) \<Longrightarrow>
      fst q = ''relay_socket_lifetime_seconds_bucket'' \<Longrightarrow> snd (snd q) = of_nat k"
proof -
  have lab: "label ''le'' (label_text ''le'' (show_nat x)) = Some (show_nat x)" for x
    using show_nat_reason [of x] by (intro label_label_text) (auto simp: list_all_iff reason_char_def)
  show "\<exists>q \<in> set (hist_samples m). fst q = ''relay_socket_lifetime_seconds_bucket'' \<and> label ''le'' (fst (snd q)) = Some (show_nat b)"
    using assms(2) lab unfolding hist_samples_def by force
  have inf: "label ''le'' (label_text ''le'' ''+Inf'') = Some ''+Inf''" by code_simp
  have bs: "distinct (map show_nat LIFETIME_BUCKETS)" "''+Inf'' \<notin> set (map show_nat LIFETIME_BUCKETS)"
    unfolding bucket_texts by simp_all
  have b: "b \<in> set LIFETIME_BUCKETS" using assms(2) by (rule set_zip_leftD)
  assume q: "q \<in> set (hist_samples m)" "label ''le'' (fst (snd q)) = Some (show_nat b)"
    "fst q = ''relay_socket_lifetime_seconds_bucket''"
  have "show_nat b \<noteq> ''+Inf''" using bs(2) b by (metis image_eqI image_set)
  then obtain x y where xy: "(x, y) \<in> set (zip LIFETIME_BUCKETS (bucketCounts m))" "show_nat x = show_nat b"
    "snd (snd q) = of_nat y"
    using q lab inf by (auto simp: hist_samples_def)
  have "x = b"
    using bs(1) [unfolded distinct_map] set_zip_leftD [OF xy(1)] b xy(2) by (blast dest: inj_onD)
  moreover have "distinct (map fst (zip LIFETIME_BUCKETS (bucketCounts m)))"
    using assms(1) bs(1) by (simp add: distinct_map)
  ultimately have "y = k" using eq_key_imp_eq_value xy(1) assms(2) by metis
  with xy(3) show "snd (snd q) = of_nat k" by simp
qed

lemma blank_life: "\<forall>b \<in> set LIFETIME_BUCKETS. map_of blank_row (life_col (show_nat b)) = Some 0 \<and> show_nat b \<noteq> [] \<and> show_nat b \<noteq> ''+Inf''"
  using bucket_texts by (simp add: LIFETIME_BUCKETS_def blank_row_def life_col_def)

lemma blank_rejected: "map_of blank_row ''ws_rejected'' = Some 0"
  by (simp add: blank_row_def)

lemma life_columns: "map_of PLAIN ''relay_socket_lifetime_seconds_sum'' = Some ''life_sum''"
  "map_of PLAIN ''relay_socket_lifetime_seconds_count'' = Some ''life_count''"
  by code_simp+

lemma hist_total:
  "q \<in> set (hist_samples m) \<Longrightarrow> fst q = ''relay_socket_lifetime_seconds_sum'' \<Longrightarrow> snd (snd q) = lifetimeSum m"
  "q \<in> set (hist_samples m) \<Longrightarrow> fst q = ''relay_socket_lifetime_seconds_count'' \<Longrightarrow> snd (snd q) = of_nat (lifetimeInf m)"
  by (auto simp: hist_samples_def)

lemma sample_origin:
  assumes ok: "exposition_ok gs m"
    and q: "q \<in> set (map plain_sample (plain_counters m) @ labelled_samples collate m @ map plain_sample gs @ hist_samples m)"
    and n: "fst q \<in> {''relay_socket_lifetime_seconds_bucket'', ''relay_socket_lifetime_seconds_sum'', ''relay_socket_lifetime_seconds_count''}"
  shows "q \<in> set (hist_samples m)"
proof -
  have "q \<notin> set (labelled_samples collate m)"
    using labelled_sample_name [OF ok, of q collate] n life_columns by auto
  moreover have "q \<notin> plain_sample ` set (plain_counters m @ gs)"
  proof
    assume "q \<in> plain_sample ` set (plain_counters m @ gs)"
    then obtain p where p: "p \<in> set (plain_counters m @ gs)" "q = plain_sample p" by blast
    from exposition_plain(2) [OF ok p(1)] n p(2) show False by simp
  qed
  ultimately show ?thesis using q by auto
qed

text \<open>All the samples of an exposition, in order.\<close>

definition exposed ::
  "((string \<times> int) list \<Rightarrow> (string \<times> int) list) \<Rightarrow> (string \<times> int) list \<Rightarrow> metrics \<Rightarrow> (string \<times> string \<times> rat) list" where
  "exposed collate gs m =
     map plain_sample (plain_counters m) @ labelled_samples collate m @ map plain_sample gs @ hist_samples m"

lemma fold_exposed_plain:
  assumes ok: "exposition_ok gs m" and p: "(n, v) \<in> set (plain_counters m @ gs)" and col: "map_of PLAIN (''relay_'' @ n) = Some c"
  shows "map_of (fold absorb (exposed collate gs m) out) c = Some (of_int v)"
proof (rule fold_plain [OF col], intro ballI impI)
  show "snd (snd q) = of_int v" if "q \<in> set (exposed collate gs m)" "fst q = ''relay_'' @ n" for q
    by (rule plain_values [OF ok p col that [unfolded exposed_def]])
  have "plain_sample (n, v) \<in> set (exposed collate gs m)" using p by (auto simp: exposed_def)
  then show "(\<exists>q \<in> set (exposed collate gs m). fst q = ''relay_'' @ n) \<or> map_of out c = Some (of_int v)"
    by (intro disjI1 bexI [of _ "plain_sample (n, v)"]) (simp_all add: plain_sample_def)
qed

lemma rejections_exposed:
  assumes ok: "exposition_ok gs m" and c: "\<And>es. mset (collate es) = mset es"
  shows "rejections (exposed collate gs m) = of_int (rejected_sum m)"
proof -
  have none: "''ws_upgrades_rejected_total'' \<notin> fst ` set (plain_counters m @ gs)"
  proof
    assume "''ws_upgrades_rejected_total'' \<in> fst ` set (plain_counters m @ gs)"
    then obtain p where p: "p \<in> set (plain_counters m @ gs)" "fst p = ''ws_upgrades_rejected_total''" by (elim imageE) simp
    from exposition_plain(2) [OF ok p(1)] p(2) show False by simp
  qed
  then show ?thesis
    by (simp add: exposed_def rejections_plain rejections_labelled [OF c] image_Un)
qed

lemma fold_exposed_bucket:
  assumes ok: "exposition_ok gs m" and p: "(b, k) \<in> set (zip LIFETIME_BUCKETS (bucketCounts m))"
  shows "map_of (fold absorb (exposed collate gs m) blank_row) (life_col (show_nat b)) = Some (of_nat k)"
proof (rule fold_bucket)
  have len: "length (bucketCounts m) = length LIFETIME_BUCKETS" using ok unfolding exposition_ok_def by blast
  have b: "b \<in> set LIFETIME_BUCKETS" using p by (rule set_zip_leftD)
  show "show_nat b \<noteq> []" "show_nat b \<noteq> ''+Inf''" "map_of blank_row (life_col (show_nat b)) \<noteq> None"
    using blank_life b by auto
  show "\<forall>q \<in> set (exposed collate gs m).
      fst q = ''relay_socket_lifetime_seconds_bucket'' \<and> label ''le'' (fst (snd q)) = Some (show_nat b) \<longrightarrow>
      snd (snd q) = of_nat k"
    using hist_values(2) [OF len p] sample_origin [OF ok] unfolding exposed_def by blast
  show "(\<exists>q \<in> set (exposed collate gs m).
      fst q = ''relay_socket_lifetime_seconds_bucket'' \<and> label ''le'' (fst (snd q)) = Some (show_nat b))
      \<or> map_of blank_row (life_col (show_nat b)) = Some (of_nat k)"
    using hist_values(1) [OF len p] by (auto simp: exposed_def)
qed

lemma fold_exposed_life:
  assumes ok: "exposition_ok gs m"
  shows "map_of (fold absorb (exposed collate gs m) out) ''life_sum'' = Some (lifetimeSum m)"
    "map_of (fold absorb (exposed collate gs m) out) ''life_count'' = Some (of_nat (lifetimeInf m))"
proof -
  have s: "\<forall>q \<in> set (exposed collate gs m). fst q = ''relay_socket_lifetime_seconds_sum'' \<longrightarrow> snd (snd q) = lifetimeSum m"
    and c: "\<forall>q \<in> set (exposed collate gs m). fst q = ''relay_socket_lifetime_seconds_count'' \<longrightarrow> snd (snd q) = of_nat (lifetimeInf m)"
    using hist_total sample_origin [OF ok] unfolding exposed_def by blast+
  show "map_of (fold absorb (exposed collate gs m) out) ''life_sum'' = Some (lifetimeSum m)"
    by (rule fold_plain [OF life_columns(1) s]) (simp add: exposed_def hist_samples_def)
  show "map_of (fold absorb (exposed collate gs m) out) ''life_count'' = Some (of_nat (lifetimeInf m))"
    by (rule fold_plain [OF life_columns(2) c]) (simp add: exposed_def hist_samples_def)
qed

lemma parse_render_aux:
  assumes ok: "exposition_ok gs m" and w: "writes show_num (lifetimeSum m)" and c: "\<And>es. mset (collate es) = mset es"
  defines "row \<equiv> parseMetrics (render collate show_num gs m)"
  shows "(n, v) \<in> set (plain_counters m @ gs) \<Longrightarrow> map_of PLAIN (''relay_'' @ n) = Some col \<Longrightarrow> map_of row col = Some (of_int v)"
    "map_of row ''ws_rejected'' = Some (of_int (rejected_sum m))"
    "(b, k) \<in> set (zip LIFETIME_BUCKETS (bucketCounts m)) \<Longrightarrow> map_of row (life_col (show_nat b)) = Some (of_nat k)"
    "map_of row ''life_sum'' = Some (lifetimeSum m)" "map_of row ''life_count'' = Some (of_nat (lifetimeInf m))"
proof -
  have row: "row = fold absorb (exposed collate gs m) blank_row"
    unfolding row_def parseMetrics_def exposed_def by (simp only: render_samples [OF ok w c])
  show "map_of row ''ws_rejected'' = Some (of_int (rejected_sum m))"
    unfolding row fold_rejected [OF blank_rejected] rejections_exposed [OF ok c] by simp
qed (simp_all only: row_def parseMetrics_def render_samples [OF ok w c] exposed_def [symmetric]
    fold_exposed_plain [OF ok] fold_exposed_bucket [OF ok] fold_exposed_life [OF ok])

text \<open>
  The collector reads back what the relay exposes: for counters and gauges that can be written
  without escaping, parsing the rendered text gives every plain counter and gauge in its column, the
  sum over all reasons of the rejected upgrades, and the whole lifetime histogram with its sum and
  count, however the reasons are ordered.
\<close>

theorem parse_render:
  assumes "exposition_ok gs m" "writes show_num (lifetimeSum m)" "\<And>es. mset (collate es) = mset es"
  shows "(\<forall>n v col. (n, v) \<in> set (plain_counters m @ gs) \<longrightarrow> map_of PLAIN (''relay_'' @ n) = Some col \<longrightarrow>
            map_of (parseMetrics (render collate show_num gs m)) col = Some (of_int v))
    \<and> map_of (parseMetrics (render collate show_num gs m)) ''ws_rejected'' = Some (of_int (rejected_sum m))
    \<and> (\<forall>(b, k) \<in> set (zip LIFETIME_BUCKETS (bucketCounts m)).
         map_of (parseMetrics (render collate show_num gs m)) (life_col (show_nat b)) = Some (of_nat k))
    \<and> map_of (parseMetrics (render collate show_num gs m)) ''life_sum'' = Some (lifetimeSum m)
    \<and> map_of (parseMetrics (render collate show_num gs m)) ''life_count'' = Some (of_nat (lifetimeInf m))"
  using parse_render_aux [OF assms] by blast

definition sample_metrics :: metrics where
  "sample_metrics = observeSocketLifetime 7 (incReason ''ws_upgrades_rejected_total'' ''cap''
     (incReason ''ws_upgrades_rejected_total'' ''origin'' (inc ''ws_upgrades_total'' 3 new_metrics)))"

lemma sample_metrics_eq:
  "sample_metrics = \<lparr>counters = [(''ws_upgrades_total'', 3), (reason_key ''ws_upgrades_rejected_total'' ''origin'', 1),
     (reason_key ''ws_upgrades_rejected_total'' ''cap'', 1)], bucketCounts = [0, 0, 1, 1, 1, 1], lifetimeInf = 1, lifetimeSum = 7\<rparr>"
  by (simp add: sample_metrics_def incReason_def inc_def counter_def reason_key_def NUL_def new_metrics_def
      observeSocketLifetime_def LIFETIME_BUCKETS_def)

lemma sample_counters:
  "plain_counters sample_metrics = [(''ws_upgrades_total'', 3)]"
  "labelled_counters sample_metrics = [(''ws_upgrades_rejected_total'', [(''origin'', 1), (''cap'', 1)])]"
  by (simp_all add: sample_metrics_eq plain_counters_def labelled_counters_def reason_key_def NUL_def)

lemma sample_metrics_ok:
  "exposition_ok [(''rooms_live'', 2)] sample_metrics" "writes (show_int \<circ> floor) (lifetimeSum sample_metrics)"
  "rejected_sum sample_metrics = 2"
proof -
  have len: "length (bucketCounts sample_metrics) = length LIFETIME_BUCKETS"
    by (simp add: sample_metrics_eq LIFETIME_BUCKETS_def)
  show "exposition_ok [(''rooms_live'', 2)] sample_metrics"
    unfolding exposition_ok_def sample_counters by (intro conjI len; code_simp)
  have "js_number (show_int 7) = Some (of_int 7)" by (rule js_number_show_int)
  then show "writes (show_int \<circ> floor) (lifetimeSum sample_metrics)"
    by (simp add: writes_def sample_metrics_eq)
  show "rejected_sum sample_metrics = 2"
    by (simp add: rejected_sum_def sample_metrics_eq reason_key_def NUL_def)
qed

lemma parse_render_witness:
  "map_of (parseMetrics (render id (show_int \<circ> floor) [(''rooms_live'', 2)] sample_metrics)) ''ws_upgrades'' = Some 3
   \<and> map_of (parseMetrics (render id (show_int \<circ> floor) [(''rooms_live'', 2)] sample_metrics)) ''ws_rejected'' = Some 2
   \<and> map_of (parseMetrics (render id (show_int \<circ> floor) [(''rooms_live'', 2)] sample_metrics)) ''life_sum'' = Some 7
   \<and> map_of (parseMetrics (render id (show_int \<circ> floor) [(''rooms_live'', 2)] sample_metrics)) ''life_le15'' = Some 1"
proof -
  note f = parse_render [OF sample_metrics_ok(1,2), where collate = id, simplified id_apply, OF refl]
  have col: "map_of PLAIN (''relay_'' @ ''ws_upgrades_total'') = Some ''ws_upgrades''" by code_simp
  have c15: "life_col (show_nat 15) = ''life_le15''" by code_simp
  show ?thesis
    using f [THEN conjunct1, rule_format, OF _ col, of 3] f sample_metrics_ok(3)
      f [THEN conjunct2, THEN conjunct2, THEN conjunct1, THEN bspec, of "(15, 1)"] c15
    by (simp add: sample_counters) (simp add: sample_metrics_eq LIFETIME_BUCKETS_def)
qed

end
