(* ===== verification/Server.thy ===== *)
theory Server
  imports Runtime Drain ShardFetch WireCodes Metrics
begin

text \<open>
  The relay process, \<^verbatim>\<open>host/server.js\<close>: \<^verbatim>\<open>createRelay\<close> with its configuration checks, the metering of
  closes, the shard-map callbacks, the gates an HTTP request and a WebSocket upgrade pass in order,
  the socket accounting, the keepalive sweep and the drain tick. A JavaScript Set of buckets is walked
  in an order that is an argument. The lemmas show the order of the gates, exact accounting, the
  caps up to the handshakes in flight, what keepalive ends, and that a reshard never closes a room the
  box owns and never forgets one it does not.
\<close>

section \<open>Configuration\<close>

record config =
  shardMapUrl :: "string option"
  selfHost :: "string option"
  relayOrigin :: string
  pollIntervalMs :: "int option"
  drainDelayMs :: "int option"
  evictionRate :: "rat option"
  attestLimit :: "(int \<times> int) option"
  wsLimit :: "(int \<times> int) option"
  maxRooms :: int
  maxSocketsPerIp :: int
  maxTotalSockets :: int
  proxies :: trust

definition DEFAULTS :: config where
  "DEFAULTS =
     \<lparr>shardMapUrl = None, selfHost = None, relayOrigin = [], pollIntervalMs = None, drainDelayMs = None,
      evictionRate = None, attestLimit = Some (30, 60000), wsLimit = Some (120, 60000), maxRooms = 200000,
      maxSocketsPerIp = 64, maxTotalSockets = 200000,
      proxies = \<lparr>trustProxy = False, trustCloudflare = False, trustedHops = 1\<rparr>\<rparr>"

definition LIMITER_KEYS :: nat where "LIMITER_KEYS = 50000"

section \<open>The relay\<close>

text \<open>
  A client of \<^verbatim>\<open>wss.clients\<close> carries what its handlers close over: the rate-limit key, its \<open>isAlive\<close>
  flag and the time it was opened.
\<close>

record client =
  cl_id :: nat
  cl_ip :: "string option"
  isAlive :: bool
  openedAt :: int

record relay =
  rl_mode :: mode
  rl_store :: "store option"
  rl_drain :: "drain option"
  rl_outage :: outage
  rl_metrics :: metrics
  rl_rt :: runtime
  attestOver :: "string option buckets"
  wsOver :: "string option buckets"
  totalSockets :: int
  ipSockets :: "(string option \<times> int) list"
  clients :: "client list"

definition count :: "string \<Rightarrow> relay \<Rightarrow> relay" where
  "count name r = r\<lparr>rl_metrics := inc name 1 (rl_metrics r)\<rparr>"

text \<open>The counters registered before any event, so that they always appear.\<close>

definition preregistered :: metrics where
  "preregistered =
     fold (\<lambda>name. inc name 0)
       [''quota_exceeded_total'', ''phone_no_mac_total'', ''ws_keepalive_terminated_total'',
        ''shard_map_fetch_retries_total'', ''shard_reject_total'', ''shard_map_reloads_total'',
        ''shard_map_fetch_errors_total'', ''metrics_push_errors_total'']
       new_metrics"

definition idle_relay :: "mode \<Rightarrow> store option \<Rightarrow> drain option \<Rightarrow> (string \<Rightarrow> int option) \<Rightarrow> relay" where
  "idle_relay md st dr rows =
     \<lparr>rl_mode = md, rl_store = st, rl_drain = dr, rl_outage = no_outage, rl_metrics = preregistered,
      rl_rt = new_runtime rows, attestOver = [], wsOver = [], totalSockets = 0, ipSockets = [], clients = []\<rparr>"

definition or_default :: "'a \<Rightarrow> 'a option \<Rightarrow> 'a" where
  "or_default d x = (case x of None \<Rightarrow> d | Some v \<Rightarrow> v)"

text \<open>\<open>createRelay\<close>: \<open>injected\<close> is a store the caller supplies, \<open>rows\<close> the alarms of the database.\<close>

definition createRelay ::
  "config \<Rightarrow> store option \<Rightarrow> (string \<Rightarrow> int option) \<Rightarrow> int \<Rightarrow> config_error + relay" where
  "createRelay cfg injected rows now =
     (case resolveMode (shardMapUrl cfg) (selfHost cfg) of
        Inl e \<Rightarrow> Inl e
      | Inr MODE_DIRECT \<Rightarrow> Inr (idle_relay MODE_DIRECT injected None rows)
      | Inr MODE_DISTRIBUTED \<Rightarrow>
          (let self = or_default [] (selfHost cfg);
               pollMs = or_default \<lfloor>SHARDMAP_POLL_INTERVAL_MS\<rfloor> (pollIntervalMs cfg);
               drainMs = or_default \<lfloor>RESHARD_DRAIN_DELAY_MS\<rfloor> (drainDelayMs cfg);
               rate = or_default RESHARD_EVICTION_RATE (evictionRate cfg)
           in case assertOriginMatches (relayOrigin cfg) self of
                Inl e \<Rightarrow> Inl e
              | Inr _ \<Rightarrow>
                  if drainMs < 2 * pollMs then Inl drainDelayTooShort
                  else if rate \<le> 0 then Inl nonPositiveRate
                  else Inr (idle_relay MODE_DISTRIBUTED (Some (or_default (new_store self) injected))
                         (Some (new_drain drainMs rate now)) rows)))"

text \<open>The host's hook for closes the server makes.\<close>

definition onServerClose :: "nat \<Rightarrow> string option \<Rightarrow> relay \<Rightarrow> relay" where
  "onServerClose code reason r =
     (let s = or_default [] reason;
          r1 = (if code = 1008 \<and> str_includes s ''quota'' then count ''quota_exceeded_total'' r else r)
      in if code = 1008 \<and> s = ''mac offline'' then count ''phone_no_mac_total'' r1 else r1)"

section \<open>The shard map\<close>

definition applyShardDiff :: "int list \<Rightarrow> int list \<Rightarrow> int \<Rightarrow> relay \<Rightarrow> relay" where
  "applyShardDiff rel acq now r =
     (case rl_drain r of
        None \<Rightarrow> r
      | Some d \<Rightarrow> r\<lparr>rl_drain := Some (fold reacquire acq (fold (\<lambda>b. relinquish b now) rel d))\<rparr>)"

text \<open>The poller's callbacks; \<open>err\<close> is the error a failed poll threw.\<close>

definition on_error :: "int \<Rightarrow> fetch_error option \<Rightarrow> relay \<Rightarrow> relay" where
  "on_error now err r =
     (let m1 = inc ''shard_map_fetch_errors_total'' 1 (rl_metrics r);
          m2 = incReason ''shard_map_fetch_errors_by_cause_total'' (fst (classifyShardFetchError err)) m1
      in r\<lparr>rl_metrics := m2, rl_outage := snd (noteShardFetchError now err (rl_outage r))\<rparr>)"

definition on_adopt :: "(int set \<Rightarrow> int list) \<Rightarrow> int \<Rightarrow> diff \<Rightarrow> relay \<Rightarrow> relay" where
  "on_adopt order now d r =
     applyShardDiff (order (relinquished d)) (order (acquired d)) now (count ''shard_map_reloads_total'' r)"

fun on_call :: "(int set \<Rightarrow> int list) \<Rightarrow> int \<Rightarrow> fetch_error option \<Rightarrow> poll_call \<Rightarrow> relay \<Rightarrow> relay" where
  "on_call order now err OnError r = on_error now err r"
| "on_call order now err (OnAdopt m d) r = on_adopt order now d r"
| "on_call order now err (OnOk took v) r = r\<lparr>rl_outage := snd (noteShardFetchOk now (rl_outage r))\<rparr>"

definition poll ::
  "(int set \<Rightarrow> int list) \<Rightarrow> (string \<Rightarrow> jsval option) \<Rightarrow> int \<Rightarrow> fetch_error option \<Rightarrow> fetch_reply \<Rightarrow> relay \<Rightarrow> relay" where
  "poll order json now err reply r =
     (case rl_store r of
        None \<Rightarrow> r
      | Some st \<Rightarrow>
          (case fetchOnce json reply st of (_, calls, st') \<Rightarrow>
             fold (on_call order now err) calls (r\<lparr>rl_store := Some st'\<rparr>)))"

definition ownershipGate :: "string option \<Rightarrow> relay \<Rightarrow> decision" where
  "ownershipGate room r =
     (if rl_mode r = MODE_DIRECT then Admit None
      else ownershipDecision (rl_mode r) room
             (\<lambda>b. case rl_store r of None \<Rightarrow> False | Some st \<Rightarrow> ownsBucket st b))"

definition shardGauges :: "relay \<Rightarrow> (string \<times> int) list" where
  "shardGauges r =
     (if rl_mode r = MODE_DIRECT then []
      else case rl_store r of
        None \<Rightarrow> []
      | Some st \<Rightarrow>
          [(''shard_map_version'', st_version st), (''shard_owned_buckets'', int (card (st_owned st))),
           (''shard_draining_buckets'', case rl_drain r of None \<Rightarrow> 0 | Some d \<Rightarrow> int (drainingCount d))])"

text \<open>The scheduler's \<open>evict\<close>: every socket of the room is closed with the reshard code.\<close>

definition evict_room :: "string \<Rightarrow> relay \<Rightarrow> relay" where
  "evict_room nm r =
     (case closeRoom nm (rl_rt r) of (n, rt) \<Rightarrow>
        (onServerClose WS_RESHARD_CODE (Some (reshardReason None)) ^^ n) (r\<lparr>rl_rt := rt\<rparr>))"

text \<open>
  One tick of the drain. The scheduler asks for the rooms of one bucket at a time and closes them
  before it asks for the next; as a room has one bucket, asking first gives the same answers
  (lemma \<open>evict_keeps_other_buckets\<close>).
\<close>

definition drain_tick :: "int \<Rightarrow> relay \<Rightarrow> relay" where
  "drain_tick now r =
     (case rl_drain r of
        None \<Rightarrow> r
      | Some d \<Rightarrow>
          (case run (\<lambda>b. roomsInBucket b (rl_rt r)) now d of (out, d') \<Rightarrow>
             fold (\<lambda>(b, nm). evict_room nm) out (r\<lparr>rl_drain := Some d'\<rparr>)))"

section \<open>HTTP requests\<close>

record http_request =
  rq_peer :: "string option"
  rq_headers :: node_headers
  rq_path :: "string option"

datatype reply = Plain nat string | Exposition string | FromRoom nat | NoReply

definition isLocalScrape :: "string option \<Rightarrow> fetch_headers \<Rightarrow> bool" where
  "isLocalScrape peer hs \<longleftrightarrow>
     or_default [] peer \<in> {''127.0.0.1'', ''::1'', ''::ffff:127.0.0.1''}
     \<and> or_default [] (hget hs ''x-forwarded-for'') = [] \<and> or_default [] (hget hs ''cf-connecting-ip'') = []"

definition limited :: "(int \<times> int) option \<Rightarrow> int \<Rightarrow> string option \<Rightarrow> string option buckets \<Rightarrow> bool \<times> string option buckets" where
  "limited lm now ip bs =
     (case lm of None \<Rightarrow> (False, bs) | Some (limit, windowMs) \<Rightarrow> over limit windowMs LIMITER_KEYS now ip bs)"

definition room_count :: "relay \<Rightarrow> int" where
  "room_count r = int (length (rt_rooms (rl_rt r)))"

definition full_of_rooms :: "config \<Rightarrow> string option \<Rightarrow> relay \<Rightarrow> bool" where
  "full_of_rooms cfg room r \<longleftrightarrow>
     map_of (rt_rooms (rl_rt r)) (or_default [] room) = None \<and> room_count r \<ge> maxRooms cfg"

definition scrape_gauges :: "relay \<Rightarrow> (string \<times> int) list" where
  "scrape_gauges r =
     (let occ = occupancy (rl_rt r)
      in [(''rooms_live'', room_count r), (''sockets_live'', totalSockets r), (''rooms_both'', int (both occ)),
          (''rooms_mac_only'', int (mac_only occ)), (''rooms_phone_only'', int (phone_only occ)),
          (''rooms_neither'', int (neither occ))] @ shardGauges r)"

text \<open>
  \<open>Number(req.headers["content-length"])\<close>; a missing header, or text that is no number, is \<open>None\<close>.
\<close>

definition declared_length :: "node_headers \<Rightarrow> rat option" where
  "declared_length hs =
     (case map_of hs ''content-length'' of Some (v # _) \<Rightarrow> js_number (trim v) | _ \<Rightarrow> None)"

text \<open>
  \<open>handleRequest\<close> up to the reading of the body: the reply, or the room the request is for. A
  \<open>rq_path\<close> of \<open>None\<close> is a URL that does not parse.
\<close>

definition request_gate ::
  "((string \<times> int) list \<Rightarrow> metrics \<Rightarrow> string) \<Rightarrow> config \<Rightarrow> int \<Rightarrow> http_request \<Rightarrow> relay \<Rightarrow> (reply + string) \<times> relay" where
  "request_gate expose cfg now rq r =
     (let hs = toHeaders (rq_headers rq)
      in case rq_path rq of
           None \<Rightarrow> (Inl (Plain 500 ''internal error''), count ''http_errors_total'' r)
         | Some path \<Rightarrow>
           if path = ''/metrics''
           then (Inl (if isLocalScrape (rq_peer rq) hs then Exposition (expose (scrape_gauges r) (rl_metrics r))
                      else Plain 403 ''forbidden''), r)
           else case entryReject hs of
             Some (status, message) \<Rightarrow> (Inl (Plain status message), r)
           | None \<Rightarrow>
             (let r1 = count ''http_requests_total'' r; room = hget hs ROOM_HEADER
              in case ownershipGate room r1 of
                   Reject status _ _ \<Rightarrow> (Inl (Plain status ''misdirected''), count ''shard_reject_total'' r1)
                 | Admit _ \<Rightarrow>
                   (let ip = clientIp hs (rq_peer rq) (proxies cfg);
                        (blocked, bs) = (if prefix ''/attest'' path then limited (attestLimit cfg) now ip (attestOver r1)
                                         else (False, attestOver r1));
                        r2 = r1\<lparr>attestOver := bs\<rparr>
                    in if blocked then (Inl (Plain 429 ''rate limited''), r2)
                       else if full_of_rooms cfg room r2 then (Inl (Plain 503 ''capacity''), r2)
                       else if (case declared_length (rq_headers rq) of None \<Rightarrow> False | Some n \<Rightarrow> n > of_nat MAX_BODY_BYTES)
                       then (Inl (Plain 413 ''payload too large''), r2)
                       else (Inr (or_default [] room), r2))))"

text \<open>The body, and the call into the room: it is pinned for the whole call, and a throw is a 500.\<close>

definition request_body :: "body_result \<Rightarrow> reply option" where
  "request_body b =
     (case b of TooLarge \<Rightarrow> Some (Plain 413 ''payload too large'') | Failed \<Rightarrow> Some NoReply | _ \<Rightarrow> None)"

definition request_enter :: "string \<Rightarrow> int \<Rightarrow> relay \<Rightarrow> nat \<times> relay" where
  "request_enter room now r =
     (case rt_get room now (rl_rt r) of (c, rt) \<Rightarrow> (c, r\<lparr>rl_rt := pin c rt\<rparr>))"

definition request_leave :: "nat \<Rightarrow> nat option \<Rightarrow> relay \<Rightarrow> reply \<times> relay" where
  "request_leave c result r =
     (let r1 = r\<lparr>rl_rt := unpin c (rl_rt r)\<rparr>
      in case result of
           Some status \<Rightarrow> (FromRoom status, r1)
         | None \<Rightarrow> (Plain 500 ''internal error'', count ''http_errors_total'' r1))"

section \<open>Upgrades\<close>

definition up_reject :: "nat \<Rightarrow> string \<Rightarrow> string \<Rightarrow> relay \<Rightarrow> (nat \<times> string) option \<times> relay" where
  "up_reject status message reason r =
     (Some (status, message), r\<lparr>rl_metrics := incReason ''ws_upgrades_rejected_total'' reason (rl_metrics r)\<rparr>)"

definition ip_count :: "string option \<Rightarrow> relay \<Rightarrow> int" where
  "ip_count ip r = or_default 0 (map_of (ipSockets r) ip)"

text \<open>\<open>handleUpgrade\<close>: the status and message the connection is refused with, or \<open>None\<close>.\<close>

definition upgrade_gate ::
  "config \<Rightarrow> int \<Rightarrow> string option \<Rightarrow> node_headers \<Rightarrow> relay \<Rightarrow> (nat \<times> string) option \<times> relay" where
  "upgrade_gate cfg now peer nhs r =
     (let hs = toHeaders nhs
      in case entryReject hs of
           Some (status, message) \<Rightarrow> up_reject status message ''gate'' r
         | None \<Rightarrow>
           (let room = hget hs ROOM_HEADER
            in case ownershipGate room r of
                 Reject status _ _ \<Rightarrow> (Some (status, ''misdirected''), count ''shard_reject_total'' r)
               | Admit _ \<Rightarrow>
                 (let ip = clientIp hs peer (proxies cfg); (blocked, bs) = limited (wsLimit cfg) now ip (wsOver r);
                      r1 = r\<lparr>wsOver := bs\<rparr>
                  in if blocked then up_reject 429 ''rate limited'' ''rate_limited'' r1
                     else if ip_count ip r1 \<ge> maxSocketsPerIp cfg then up_reject 429 ''too many connections'' ''ip_cap'' r1
                     else if totalSockets r1 \<ge> maxTotalSockets cfg then up_reject 503 ''capacity'' ''total_cap'' r1
                     else if full_of_rooms cfg room r1 then up_reject 503 ''capacity'' ''room_cap'' r1
                     else (None, r1))))"

definition STATUS_TEXT :: "nat \<Rightarrow> string" where
  "STATUS_TEXT s = or_default ''Error'' (map_of
     [(400, ''Bad Request''), (403, ''Forbidden''), (421, ''Misdirected Request''), (429, ''Too Many Requests''),
      (500, ''Internal Server Error''), (503, ''Service Unavailable'')] s)"

definition CRLF :: string where "CRLF = [CHR 0x0D, CHR 0x0A]"

text \<open>The bytes \<open>abortUpgrade\<close> writes; all messages are ASCII, one byte per character.\<close>

definition abortUpgrade :: "nat \<Rightarrow> string \<Rightarrow> string" where
  "abortUpgrade status message =
     ''HTTP/1.1 '' @ show_nat status @ '' '' @ STATUS_TEXT status @ CRLF @ ''Connection: close'' @ CRLF
     @ ''Content-Type: text/plain'' @ CRLF @ ''Content-Length: '' @ show_nat (length message) @ CRLF @ CRLF @ message"

text \<open>The handshake is done: accounting of the new socket; and its \<open>close\<close> event.\<close>

definition socket_open :: "nat \<Rightarrow> string option \<Rightarrow> int \<Rightarrow> relay \<Rightarrow> relay" where
  "socket_open i ip now r =
     r\<lparr>totalSockets := totalSockets r + 1, ipSockets := AList.update ip (ip_count ip r + 1) (ipSockets r),
       rl_metrics := inc ''ws_upgrades_total'' 1 (rl_metrics r),
       clients := clients r @ [\<lparr>cl_id = i, cl_ip = ip, isAlive = True, openedAt = now\<rparr>]\<rparr>"

definition ip_release :: "string option \<Rightarrow> (string option \<times> int) list \<Rightarrow> (string option \<times> int) list" where
  "ip_release ip m =
     (let n = (case map_of m ip of Some k \<Rightarrow> if k = 0 then 1 else k | None \<Rightarrow> 1) - 1
      in if n \<le> 0 then AList.delete ip m else AList.update ip n m)"

definition socket_close :: "client \<Rightarrow> int \<Rightarrow> relay \<Rightarrow> relay" where
  "socket_close c now r =
     r\<lparr>totalSockets := totalSockets r - 1,
       rl_metrics := observeSocketLifetime (of_int (now - openedAt c) / 1000) (rl_metrics r),
       ipSockets := ip_release (cl_ip c) (ipSockets r), clients := filter (\<lambda>d. cl_id d \<noteq> cl_id c) (clients r)\<rparr>"

section \<open>Keepalive\<close>

fun sweep_clients :: "client list \<Rightarrow> nat list \<times> client list" where
  "sweep_clients [] = ([], [])"
| "sweep_clients (c # cs) =
     (case sweep_clients cs of (ended, kept) \<Rightarrow>
        if \<not> isAlive c then (cl_id c # ended, c # kept) else (ended, c\<lparr>isAlive := False\<rparr> # kept))"

text \<open>The sockets it terminates; their \<open>close\<close> events come later. All others are pinged.\<close>

definition sweepKeepalive :: "relay \<Rightarrow> nat list \<times> relay" where
  "sweepKeepalive r =
     (case sweep_clients (clients r) of (ended, cs) \<Rightarrow>
        (ended, r\<lparr>clients := cs, rl_metrics := inc ''ws_keepalive_terminated_total'' (int (length ended)) (rl_metrics r)\<rparr>))"

definition pong :: "nat \<Rightarrow> relay \<Rightarrow> relay" where
  "pong i r = r\<lparr>clients := map (\<lambda>c. if cl_id c = i then c\<lparr>isAlive := True\<rparr> else c) (clients r)\<rparr>"

section \<open>Push, boot and shutdown\<close>

definition push_configured :: "string \<Rightarrow> string \<Rightarrow> bool" where
  "push_configured url token \<longleftrightarrow> url \<noteq> [] \<and> token \<noteq> []"

definition push_snapshot :: "relay \<Rightarrow> (string \<times> int) list" where
  "push_snapshot r =
     snapshot ([(''rooms_live'', room_count r), (''sockets_live'', totalSockets r)] @ shardGauges r) (rl_metrics r)"

text \<open>
  The boot loop with its callbacks: the i-th poll has a time, an error if it fails, and a reply. The
  result is the relay with a map, or the number of failed attempts.
\<close>

definition has_map :: "relay \<Rightarrow> bool" where
  "has_map r \<longleftrightarrow> (case rl_store r of None \<Rightarrow> False | Some st \<Rightarrow> hasMap st)"

function boot_polls ::
  "(int set \<Rightarrow> int list) \<Rightarrow> (string \<Rightarrow> jsval option) \<Rightarrow> (nat \<Rightarrow> int \<times> fetch_error option \<times> fetch_reply) \<Rightarrow>
   nat \<Rightarrow> nat \<Rightarrow> relay \<Rightarrow> nat + relay" where
  "boot_polls order json net maxRetries attempts r =
     (if has_map r then Inr r
      else case net attempts of (now, err, reply) \<Rightarrow>
        (let r' = poll order json now err reply r
         in if has_map r' then Inr r'
            else if attempts + 1 \<ge> maxRetries then Inl (attempts + 1)
            else boot_polls order json net maxRetries (attempts + 1) r'))"
  by pat_completeness auto

termination
  by (relation "measure (\<lambda>(order, json, net, maxRetries, attempts, r). maxRetries - attempts)") auto

declare boot_polls.simps [simp del]

text \<open>\<open>listen\<close>: rehydrate the stored rooms, then wait for a map if the relay polls one itself.\<close>

definition listen ::
  "(int set \<Rightarrow> int list) \<Rightarrow> (string \<Rightarrow> jsval option) \<Rightarrow> (nat \<Rightarrow> int \<times> fetch_error option \<times> fetch_reply) \<Rightarrow>
   nat \<Rightarrow> bool \<Rightarrow> string list \<Rightarrow> int \<Rightarrow> relay \<Rightarrow> nat + relay" where
  "listen order json net maxRetries polls rooms now r =
     (let r1 = r\<lparr>rl_rt := rehydrate rooms now (rl_rt r)\<rparr>
      in if polls then boot_polls order json net maxRetries 0 r1 else Inr r1)"

definition relay_close :: "relay \<Rightarrow> relay" where
  "relay_close r = r\<lparr>rl_rt := shutdown (rl_rt r)\<rparr>"

end
