(* ===== verification/ServerSafety.thy ===== *)
theory ServerSafety
  imports Server
begin

text \<open>
  What the relay process guarantees at its front door: which connections are refused and with which
  status, exact accounting of open sockets, the caps up to the handshakes in flight, and which
  sockets the keepalive sweep ends.
\<close>

section \<open>Refusals\<close>

lemma onServerClose_reshard [simp]: "onServerClose WS_RESHARD_CODE reason r = r"
  by (simp add: onServerClose_def WS_RESHARD_CODE_def Let_def)

lemma gate_reject: "ownershipGate room r = Reject s w b \<Longrightarrow> s = 421"
  by (auto simp: ownershipGate_def ownershipDecision_def REJECT_STATUS_def split: if_splits option.splits)

lemma gate_count [simp]: "ownershipGate room (count n r) = ownershipGate room r"
  by (simp add: ownershipGate_def count_def)

lemma entryReject_status: "entryReject hs = Some (s, m) \<Longrightarrow> s \<noteq> 421"
  by (auto simp: entryReject_def split: if_splits option.splits)

text \<open>What a refused or admitted upgrade leaves alone.\<close>

lemma upgrade_gate_frame:
  "upgrade_gate cfg now peer nhs r = (out, r') \<Longrightarrow>
    rl_rt r' = rl_rt r \<and> totalSockets r' = totalSockets r \<and> ipSockets r' = ipSockets r \<and> clients r' = clients r
    \<and> rl_store r' = rl_store r \<and> rl_drain r' = rl_drain r \<and> rl_mode r' = rl_mode r \<and> attestOver r' = attestOver r"
  by (auto simp: upgrade_gate_def up_reject_def count_def Let_def split: option.splits decision.splits prod.splits if_splits)


definition demo_relay :: relay where
  "demo_relay = idle_relay MODE_DISTRIBUTED (Some (new_store ''a'')) (Some (new_drain 20000 10 0)) (\<lambda>_. None)"

definition demo_headers :: node_headers where
  "demo_headers = [(''x-relay-room'', [replicate 64 CHR ''0''])]"


section \<open>The front door as a machine\<close>

text \<open>
  A relay with the handshakes that have been accepted and are not done, by rate-limit key, and the
  number of sockets opened so far, which names the next one.
\<close>

record front =
  fr_relay :: relay
  handshakes :: "string option list"
  opened :: nat

datatype front_event =
    Upgrade int "string option" node_headers
  | HandshakeDone nat int
  | HandshakeLost nat
  | SocketClosed nat int
  | Sweep
  | Pong nat

definition drop_nth :: "nat \<Rightarrow> 'a list \<Rightarrow> 'a list" where
  "drop_nth i xs = take i xs @ drop (Suc i) xs"

fun front_step :: "config \<Rightarrow> front_event \<Rightarrow> front \<Rightarrow> front" where
  "front_step cfg (Upgrade now peer nhs) f =
     (case upgrade_gate cfg now peer nhs (fr_relay f) of
        (None, r) \<Rightarrow> f\<lparr>fr_relay := r, handshakes := handshakes f @ [clientIp (toHeaders nhs) peer (proxies cfg)]\<rparr>
      | (Some _, r) \<Rightarrow> f\<lparr>fr_relay := r\<rparr>)"
| "front_step cfg (HandshakeDone j now) f =
     (if j < length (handshakes f)
      then f\<lparr>fr_relay := socket_open (opened f) (handshakes f ! j) now (fr_relay f),
             handshakes := drop_nth j (handshakes f), opened := opened f + 1\<rparr>
      else f)"
| "front_step cfg (HandshakeLost j) f = f\<lparr>handshakes := drop_nth j (handshakes f)\<rparr>"
| "front_step cfg (SocketClosed i now) f =
     (case filter (\<lambda>c. cl_id c = i) (clients (fr_relay f)) of
        [] \<Rightarrow> f
      | c # _ \<Rightarrow> f\<lparr>fr_relay := socket_close c now (fr_relay f)\<rparr>)"
| "front_step cfg Sweep f = f\<lparr>fr_relay := snd (sweepKeepalive (fr_relay f))\<rparr>"
| "front_step cfg (Pong i) f = f\<lparr>fr_relay := pong i (fr_relay f)\<rparr>"

definition new_front :: "relay \<Rightarrow> front" where
  "new_front r = \<lparr>fr_relay = r, handshakes = [], opened = 0\<rparr>"

text \<open>Reachable from a relay without sockets, with never more than \<open>W\<close> handshakes in flight.\<close>

inductive front_reach :: "config \<Rightarrow> nat \<Rightarrow> front \<Rightarrow> bool" for cfg W where
  start: "front_reach cfg W (new_front (idle_relay md st dr rows))"
| event: "front_reach cfg W f \<Longrightarrow> length (handshakes (front_step cfg e f)) \<le> W \<Longrightarrow> front_reach cfg W (front_step cfg e f)"

definition of_ip :: "string option \<Rightarrow> client list \<Rightarrow> nat" where
  "of_ip ip cs = length (filter (\<lambda>c. cl_ip c = ip) cs)"

definition accounts :: "relay \<Rightarrow> bool" where
  "accounts r \<longleftrightarrow>
     totalSockets r = int (length (clients r)) \<and> distinct (map cl_id (clients r)) \<and> distinct (map fst (ipSockets r))
     \<and> map_of (ipSockets r) = (\<lambda>ip. if of_ip ip (clients r) = 0 then None else Some (int (of_ip ip (clients r))))
     \<and> counter ''ws_upgrades_total'' (rl_metrics r) = int (lifetimeInf (rl_metrics r) + length (clients r))"

lemma accounts_ip: "accounts r \<Longrightarrow> ip_count ip r = int (of_ip ip (clients r))"
  by (simp add: accounts_def ip_count_def or_default_def)

lemma lifetime_inc [simp]: "lifetimeInf (inc n k m) = lifetimeInf m"
  "lifetimeInf (incReason n w m) = lifetimeInf m" "lifetimeInf (observeSocketLifetime s m) = lifetimeInf m + 1"
  by (simp_all add: inc_def incReason_def observeSocketLifetime_def)

lemma reason_key_plain: "NUL \<notin> set n \<Longrightarrow> n \<noteq> reason_key a b"
  by (auto simp: reason_key_def)

lemma counter_incReason: "NUL \<notin> set n \<Longrightarrow> counter n (incReason a b m) = counter n m"
  using reason_key_plain [of n a b] by (simp add: incReason_def)

lemma upgrades_incReason [simp]:
  "counter ''ws_upgrades_total'' (incReason a b m) = counter ''ws_upgrades_total'' m"
  by (rule counter_incReason) (simp add: NUL_def)

lemma accounts_metrics:
  assumes "accounts r" "totalSockets r' = totalSockets r" "ipSockets r' = ipSockets r"
    and "map cl_id (clients r') = map cl_id (clients r)" "map cl_ip (clients r') = map cl_ip (clients r)"
    and "counter ''ws_upgrades_total'' (rl_metrics r') = counter ''ws_upgrades_total'' (rl_metrics r)"
    and "lifetimeInf (rl_metrics r') = lifetimeInf (rl_metrics r)"
  shows "accounts r'"
proof -
  have ips: "of_ip ip cs = length (filter (\<lambda>x. x = ip) (map cl_ip cs))" for ip cs
    by (simp add: of_ip_def filter_map comp_def)
  have "of_ip ip (clients r') = of_ip ip (clients r)" for ip unfolding ips assms(5) ..
  moreover have "length (clients r') = length (clients r)" using assms(4) by (metis length_map)
  ultimately show ?thesis using assms by (simp add: accounts_def cong: if_cong)
qed

lemma accounts_open:
  assumes "accounts r" "i \<notin> cl_id ` set (clients r)"
  shows "accounts (socket_open i ip now r)"
proof -
  have "of_ip x (clients (socket_open i ip now r)) = of_ip x (clients r) + (if x = ip then 1 else 0)" for x
    by (simp add: socket_open_def of_ip_def)
  then show ?thesis
    using assms accounts_ip [OF assms(1), of ip]
    by (auto simp: accounts_def socket_open_def distinct_update update_conv' fun_eq_iff)
qed

lemma accounts_close:
  assumes "accounts r" "c \<in> set (clients r)"
  shows "accounts (socket_close c now r)"
proof -
  obtain as bs where cs: "clients r = as @ c # bs" using assms(2) by (meson split_list)
  then have "cl_id c \<notin> cl_id ` set (as @ bs)" using assms(1) by (auto simp: accounts_def)
  then have kept: "filter (\<lambda>d. cl_id d \<noteq> cl_id c) (clients r) = as @ bs"
  proof -
    assume new: "cl_id c \<notin> cl_id ` set (as @ bs)"
    have "filter (\<lambda>d. cl_id d \<noteq> cl_id c) xs = xs" if "set xs \<subseteq> set (as @ bs)" for xs
      using new that by (intro filter_True ballI) (metis imageI subsetD)
    from this [of as] this [of bs] show ?thesis unfolding cs by simp
  qed
  have n: "of_ip x (clients r) = of_ip x (as @ bs) + (if x = cl_ip c then 1 else 0)" for x
    by (simp add: of_ip_def cs)
  have m: "map_of (ipSockets r) (cl_ip c) = Some (int (of_ip (cl_ip c) (as @ bs)) + 1)"
    using assms(1) n [of "cl_ip c"] by (simp add: accounts_def)
  have "map_of (ip_release (cl_ip c) (ipSockets r)) =
      (\<lambda>ip. if of_ip ip (as @ bs) = 0 then None else Some (int (of_ip ip (as @ bs))))"
    using assms(1) m n by (auto simp: ip_release_def accounts_def fun_eq_iff delete_conv' update_conv' Let_def)
  moreover have "distinct (map fst (ip_release (cl_ip c) (ipSockets r)))"
    using assms(1) by (simp add: ip_release_def accounts_def distinct_update distinct_delete Let_def)
  moreover have "distinct (map cl_id (as @ bs))" "length (clients r) = Suc (length (as @ bs))"
    using assms(1) by (auto simp: accounts_def cs)
  ultimately show ?thesis
    using assms(1) by (simp add: accounts_def socket_close_def kept cong: if_cong)
qed

lemma sweep_clients_facts:
  "fst (sweep_clients cs) = map cl_id (filter (\<lambda>c. \<not> isAlive c) cs)
   \<and> snd (sweep_clients cs) = map (\<lambda>c. c\<lparr>isAlive := False\<rparr>) cs"
  by (induction cs) (auto split: prod.splits)

lemma keepalive_frame:
  "totalSockets (snd (sweepKeepalive r)) = totalSockets r" "ipSockets (snd (sweepKeepalive r)) = ipSockets r"
  "map cl_id (clients (snd (sweepKeepalive r))) = map cl_id (clients r)"
  "map cl_ip (clients (snd (sweepKeepalive r))) = map cl_ip (clients r)"
  "n \<noteq> ''ws_keepalive_terminated_total'' \<Longrightarrow> counter n (rl_metrics (snd (sweepKeepalive r))) = counter n (rl_metrics r)"
  "lifetimeInf (rl_metrics (snd (sweepKeepalive r))) = lifetimeInf (rl_metrics r)"
  using sweep_clients_facts [of "clients r"] by (auto simp: sweepKeepalive_def split: prod.splits)

lemma upgrade_gate_metrics:
  assumes "upgrade_gate cfg now peer nhs r = (out, r')"
  shows "counter ''ws_upgrades_total'' (rl_metrics r') = counter ''ws_upgrades_total'' (rl_metrics r)"
    "lifetimeInf (rl_metrics r') = lifetimeInf (rl_metrics r)"
  using assms
  by (auto simp: upgrade_gate_def up_reject_def count_def Let_def
      split: option.splits decision.splits prod.splits if_splits)

lemma preregistered_facts:
  "counter ''ws_upgrades_total'' preregistered = 0" "lifetimeInf preregistered = 0"
  by (simp_all add: preregistered_def) (simp_all add: counter_def new_metrics_def)

definition fresh :: "front \<Rightarrow> bool" where
  "fresh f \<longleftrightarrow> (\<forall>c \<in> set (clients (fr_relay f)). cl_id c < opened f)"

lemma front_step_ok:
  assumes "accounts (fr_relay f)" "fresh f"
  shows "accounts (fr_relay (front_step cfg e f)) \<and> fresh (front_step cfg e f)"
proof (cases e)
  case (Upgrade now peer nhs)
  obtain out r where g: "upgrade_gate cfg now peer nhs (fr_relay f) = (out, r)" by force
  have "accounts r" using upgrade_gate_frame [OF g] upgrade_gate_metrics [OF g]
    by (intro accounts_metrics [OF assms(1)]) auto
  with Upgrade g upgrade_gate_frame [OF g] assms(2) show ?thesis by (cases out) (auto simp: fresh_def)
next
  case (HandshakeDone j now)
  have "opened f \<notin> cl_id ` set (clients (fr_relay f))" using assms(2) by (auto simp: fresh_def)
  from accounts_open [OF assms(1) this] HandshakeDone assms show ?thesis
    by (auto simp: fresh_def socket_open_def less_Suc_eq)
next
  case (SocketClosed i now)
  show ?thesis
  proof (cases "filter (\<lambda>c. cl_id c = i) (clients (fr_relay f))")
    case (Cons c cs)
    then have "c \<in> set (filter (\<lambda>c. cl_id c = i) (clients (fr_relay f)))" by simp
    then have "c \<in> set (clients (fr_relay f))" by simp
    from accounts_close [OF assms(1) this] Cons SocketClosed assms show ?thesis
      by (auto simp: fresh_def socket_close_def)
  qed (use SocketClosed assms in simp)
next
  case Sweep
  have "accounts (snd (sweepKeepalive (fr_relay f)))"
    by (rule accounts_metrics [OF assms(1)]) (simp_all add: keepalive_frame)
  moreover have "cl_id ` set (clients (snd (sweepKeepalive (fr_relay f)))) = cl_id ` set (clients (fr_relay f))"
    using keepalive_frame(3) [of "fr_relay f"] by (metis image_set)
  ultimately show ?thesis using Sweep assms(2) by (force simp: fresh_def image_def set_eq_iff)
next
  case (Pong i)
  have "accounts (pong i (fr_relay f))"
    by (rule accounts_metrics [OF assms(1)]) (simp_all add: pong_def comp_def if_distrib cong: map_cong)
  with Pong assms show ?thesis by (auto simp: fresh_def pong_def)
qed (use assms in \<open>simp add: fresh_def\<close>)

lemma front_reach_ok: "front_reach cfg W f \<Longrightarrow> accounts (fr_relay f) \<and> fresh f"
proof (induction rule: front_reach.induct)
  case (start md st dr rows)
  show ?case
    by (simp add: new_front_def fresh_def accounts_def idle_relay_def of_ip_def preregistered_facts)
next
  case (event f e)
  then show ?case using front_step_ok by blast
qed

text \<open>
  C33. Sockets are accounted exactly, in every state the front door can reach: the total is the number
  of open sockets, the count of an address is the number of open sockets with that key and an address
  without sockets has no entry, so the table does not grow with closed connections, and the upgrades
  counted are those that closed, which the lifetime histogram counts, and those that are open.
\<close>

theorem socket_accounting_exact:
  assumes "front_reach cfg W f"
  shows "totalSockets (fr_relay f) = int (length (clients (fr_relay f)))
    \<and> (\<forall>ip. ip_count ip (fr_relay f) = int (of_ip ip (clients (fr_relay f))))
    \<and> dom (map_of (ipSockets (fr_relay f))) = cl_ip ` set (clients (fr_relay f))
    \<and> counter ''ws_upgrades_total'' (rl_metrics (fr_relay f))
        = int (lifetimeInf (rl_metrics (fr_relay f)) + length (clients (fr_relay f)))"
proof -
  have a: "accounts (fr_relay f)" using front_reach_ok [OF assms] by blast
  have "of_ip ip cs = 0 \<longleftrightarrow> ip \<notin> cl_ip ` set cs" for ip cs
    by (auto simp: of_ip_def filter_empty_conv)
  with a accounts_ip [OF a] show ?thesis by (auto simp: accounts_def dom_def)
qed

lemma closed_clients:
  "clients (fr_relay (front_step cfg (SocketClosed i now) f)) = filter (\<lambda>c. cl_id c \<noteq> i) (clients (fr_relay f))"
proof (cases "filter (\<lambda>c. cl_id c = i) (clients (fr_relay f))")
  case Nil
  then show ?thesis by (simp add: filter_empty_conv)
next
  case (Cons c cs)
  then have "c \<in> set (filter (\<lambda>c. cl_id c = i) (clients (fr_relay f)))" by simp
  then have "cl_id c = i" by simp
  then show ?thesis using Cons by (simp add: socket_close_def)
qed

lemma filter_twice: "length (filter P (filter Q xs)) \<le> length (filter P xs)"
  by (induction xs) auto

lemma drop_nth_filter: "length (filter P (drop_nth i xs)) \<le> length (filter P xs)"
proof (induction xs arbitrary: i)
  case (Cons x xs)
  from Cons.IH [of "i - 1"] show ?case by (cases i) (auto simp: drop_nth_def)
qed (simp add: drop_nth_def)

text \<open>Open sockets and waiting handshakes, in all and of one address, against the caps.\<close>

definition within_caps :: "config \<Rightarrow> nat \<Rightarrow> string option \<Rightarrow> front \<Rightarrow> bool" where
  "within_caps cfg W ip f \<longleftrightarrow>
     totalSockets (fr_relay f) + int (length (handshakes f)) \<le> maxTotalSockets cfg - 1 + int (max 1 W)
     \<and> ip_count ip (fr_relay f) + int (length (filter (\<lambda>x. x = ip) (handshakes f))) \<le> maxSocketsPerIp cfg - 1 + int (max 1 W)"

lemma within_caps_upgrade:
  assumes "within_caps cfg W ip f" "length (handshakes (front_step cfg (Upgrade now peer nhs) f)) \<le> W"
  shows "within_caps cfg W ip (front_step cfg (Upgrade now peer nhs) f)"
proof -
  obtain out r where g: "upgrade_gate cfg now peer nhs (fr_relay f) = (out, r)" by force
  note frame = upgrade_gate_frame [OF g]
  show ?thesis
  proof (cases out)
    case None
    let ?ip = "clientIp (toHeaders nhs) peer (proxies cfg)"
    from g None have low: "ip_count ?ip (fr_relay f) < maxSocketsPerIp cfg" "totalSockets (fr_relay f) < maxTotalSockets cfg"
      by (auto simp: upgrade_gate_def up_reject_def ip_count_def Let_def
          split: option.splits decision.splits prod.splits if_splits)
    have W: "length (handshakes f) + 1 \<le> W" using assms(2) g None by simp
    have "int (length (filter (\<lambda>x. x = ip) (handshakes f))) \<le> int W - 1"
      using W length_filter_le [of "\<lambda>x. x = ip" "handshakes f"] by linarith
    with W low frame assms(1) g None show ?thesis
      by (cases "?ip = ip") (simp_all add: ip_count_def within_caps_def)
  next
    case (Some sm)
    with g frame assms(1) show ?thesis by (simp add: ip_count_def within_caps_def)
  qed
qed

lemma within_caps_handshake:
  assumes "within_caps cfg W ip f"
  shows "within_caps cfg W ip (front_step cfg (HandshakeDone j now) f)"
proof (cases "j < length (handshakes f)")
  case True
  then have h: "handshakes f = take j (handshakes f) @ handshakes f ! j # drop (Suc j) (handshakes f)"
    by (rule id_take_nth_drop)
  have len: "length (handshakes f) = Suc (length (drop_nth j (handshakes f)))"
    by (subst h) (simp add: drop_nth_def)
  have cnt: "length (filter (\<lambda>x. x = ip) (handshakes f)) =
      length (filter (\<lambda>x. x = ip) (drop_nth j (handshakes f))) + (if handshakes f ! j = ip then 1 else 0)"
    by (subst h) (simp add: drop_nth_def)
  from assms len cnt True show ?thesis
    by (auto simp: within_caps_def socket_open_def ip_count_def or_default_def update_conv')
qed (use assms in simp)

lemma within_caps_closed:
  assumes "within_caps cfg W ip f" "accounts (fr_relay f)" "accounts (fr_relay (front_step cfg (SocketClosed i now) f))"
  shows "within_caps cfg W ip (front_step cfg (SocketClosed i now) f)"
proof -
  let ?f = "front_step cfg (SocketClosed i now) f"
  have tot: "totalSockets r = int (length (clients r))" "ip_count ip r = int (of_ip ip (clients r))" if "accounts r" for r
    using that accounts_ip [OF that] by (simp_all add: accounts_def)
  have "length (clients (fr_relay ?f)) \<le> length (clients (fr_relay f))"
    "of_ip ip (clients (fr_relay ?f)) \<le> of_ip ip (clients (fr_relay f))"
    and same: "handshakes ?f = handshakes f"
    unfolding closed_clients of_ip_def by (simp_all add: filter_twice del: filter_filter split: list.split)
  with assms(1) tot [OF assms(2)] tot [OF assms(3)] show ?thesis
    unfolding within_caps_def same by (intro conjI; linarith)
qed

text \<open>
  The caps hold up to the handshakes in flight: if never more than \<open>W\<close> accepted upgrades wait for
  their handshake at once, the open sockets and the waiting ones together stay below the total cap
  plus \<open>W\<close>, and those of one address below its cap plus \<open>W\<close>. With one handshake at a time neither cap
  is ever exceeded.
\<close>

theorem caps_up_to_handshakes:
  assumes "front_reach cfg W f" "0 < maxTotalSockets cfg" "0 < maxSocketsPerIp cfg"
  shows "totalSockets (fr_relay f) + int (length (handshakes f)) \<le> maxTotalSockets cfg - 1 + int (max 1 W)
    \<and> ip_count ip (fr_relay f) + int (length (filter (\<lambda>x. x = ip) (handshakes f))) \<le> maxSocketsPerIp cfg - 1 + int (max 1 W)"
  unfolding within_caps_def [symmetric]
  using assms(1)
proof (induction rule: front_reach.induct)
  case (start md st dr rows)
  then show ?case using assms(2,3) by (simp add: within_caps_def new_front_def idle_relay_def ip_count_def or_default_def)
next
  case (event f e)
  note acc = conjunct1 [OF front_reach_ok [OF event.hyps(1)]] conjunct1 [OF front_reach_ok [OF front_reach.event [OF event.hyps]]]
  show ?case
  proof (cases e)
    case (Upgrade now peer nhs)
    show ?thesis unfolding Upgrade by (rule within_caps_upgrade [OF event.IH event.hyps(2) [unfolded Upgrade]])
  next
    case (HandshakeDone j now)
    show ?thesis unfolding HandshakeDone by (rule within_caps_handshake [OF event.IH])
  next
    case (HandshakeLost j)
    have "length (drop_nth j (handshakes f)) \<le> length (handshakes f)" by (simp add: drop_nth_def)
    then show ?thesis
      using event.IH HandshakeLost drop_nth_filter [of "\<lambda>x. x = ip" j "handshakes f"] by (simp add: within_caps_def)
  next
    case (SocketClosed i now)
    from acc show ?thesis unfolding SocketClosed by (intro within_caps_closed [OF event.IH]) simp_all
  next
    case Sweep
    with event.IH show ?thesis by (simp add: keepalive_frame ip_count_def within_caps_def)
  next
    case (Pong i)
    with event.IH show ?thesis by (simp add: pong_def ip_count_def within_caps_def)
  qed
qed

definition demo_front :: front where
  "demo_front = front_step DEFAULTS (HandshakeDone 0 7)
     (front_step DEFAULTS (Upgrade 5 (Some ''9.9.9.9'') demo_headers) (new_front (idle_relay MODE_DIRECT None None (\<lambda>_. None))))"

lemma demo_front_eq:
  "handshakes (front_step DEFAULTS (Upgrade 5 (Some ''9.9.9.9'') demo_headers) (new_front (idle_relay MODE_DIRECT None None (\<lambda>_. None))))
     = [Some ''9.9.9.9'']"
  "totalSockets (fr_relay demo_front) = 1" "handshakes demo_front = []"
proof -
  let ?r = "idle_relay MODE_DIRECT None None (\<lambda>_. None)" and ?hs = "toHeaders demo_headers"
  have e: "entryReject ?hs = None" by code_simp
  have ip: "clientIp ?hs (Some ''9.9.9.9'') (proxies DEFAULTS) = Some ''9.9.9.9''" by code_simp
  have l: "limited (wsLimit DEFAULTS) 5 (Some ''9.9.9.9'') (wsOver ?r) = (False, [(Some ''9.9.9.9'', 5, 1)])"
    by (simp add: limited_def DEFAULTS_def over_def key_window_def idle_relay_def LIMITER_KEYS_def)
  have g: "upgrade_gate DEFAULTS 5 (Some ''9.9.9.9'') demo_headers ?r = (None, ?r\<lparr>wsOver := [(Some ''9.9.9.9'', 5, 1)]\<rparr>)"
    using l by (simp add: upgrade_gate_def e ip ownershipGate_def Let_def ip_count_def full_of_rooms_def room_count_def)
      (simp add: idle_relay_def DEFAULTS_def or_default_def new_runtime_def)
  show "handshakes (front_step DEFAULTS (Upgrade 5 (Some ''9.9.9.9'') demo_headers) (new_front ?r)) = [Some ''9.9.9.9'']"
    by (simp add: g ip new_front_def)
  show "totalSockets (fr_relay demo_front) = 1" "handshakes demo_front = []"
    by (simp_all add: demo_front_def g ip new_front_def socket_open_def drop_nth_def) (simp add: idle_relay_def)
qed

lemma demo_front_reach: "front_reach DEFAULTS 1 demo_front"
  unfolding demo_front_def
  by (intro front_reach.event front_reach.start) (simp_all add: demo_front_eq del: front_step.simps flip: demo_front_def)

theorem socket_accounting_exact_witness: "length (clients (fr_relay demo_front)) = 1"
  using socket_accounting_exact [OF demo_front_reach] demo_front_eq(2) by simp

theorem caps_up_to_handshakes_witness: "ip_count (Some ''9.9.9.9'') (fr_relay demo_front) \<le> 64"
  using caps_up_to_handshakes [OF demo_front_reach, of "Some ''9.9.9.9''"] demo_front_eq(3)
  by (simp add: DEFAULTS_def)

section \<open>Keepalive\<close>

lemma pongs_clients:
  "clients (fold pong ps r) = map (\<lambda>c. if cl_id c \<in> set ps then c\<lparr>isAlive := True\<rparr> else c) (clients r)"
proof (induction ps arbitrary: r)
  case (Cons i ps)
  have "clients (fold pong (i # ps) r) = map (\<lambda>c. if cl_id c \<in> set ps then c\<lparr>isAlive := True\<rparr> else c) (clients (pong i r))"
    using Cons.IH [of "pong i r"] by simp
  also have "\<dots> = map (\<lambda>c. if cl_id c \<in> set (i # ps) then c\<lparr>isAlive := True\<rparr> else c) (clients r)"
    by (auto simp: pong_def)
  finally show ?case .
qed simp

text \<open>
  Keepalive ends exactly the dead sockets: of the sockets of one sweep, the next sweep terminates
  those from which no pong has arrived in between, and no other; each of them is counted once.
\<close>

theorem keepalive_ends_the_silent:
  "fst (sweepKeepalive (fold pong ps (snd (sweepKeepalive r)))) = filter (\<lambda>i. i \<notin> set ps) (map cl_id (clients r))
   \<and> counter ''ws_keepalive_terminated_total'' (rl_metrics (snd (sweepKeepalive r)))
       = counter ''ws_keepalive_terminated_total'' (rl_metrics r) + int (length (fst (sweepKeepalive r)))
   \<and> map cl_id (clients (snd (sweepKeepalive r))) = map cl_id (clients r)"
proof -
  let ?r = "fold pong ps (snd (sweepKeepalive r))"
  have "clients (snd (sweepKeepalive r)) = map (\<lambda>c. c\<lparr>isAlive := False\<rparr>) (clients r)"
    using sweep_clients_facts [of "clients r"] by (auto simp: sweepKeepalive_def split: prod.split)
  then have c: "clients ?r = map (\<lambda>c. c\<lparr>isAlive := cl_id c \<in> set ps\<rparr>) (clients r)"
    by (auto simp: pongs_clients)
  have "fst (sweepKeepalive ?r) = map cl_id (filter (\<lambda>c. \<not> isAlive c) (clients ?r))"
    using sweep_clients_facts [of "clients ?r"] by (auto simp: sweepKeepalive_def split: prod.split)
  also have "\<dots> = filter (\<lambda>i. i \<notin> set ps) (map cl_id (clients r))"
    unfolding c by (simp add: filter_map comp_def)
  finally show ?thesis
    using keepalive_frame(3) [of r] by (simp add: sweepKeepalive_def split: prod.split)
qed

end
