(* ===== verification/Fleet.thy ===== *)
theory Fleet
  imports ServerSafety
begin

text \<open>
  A relay across reshards: the shard-map poller, the ownership gate, the room registry and the drain
  scheduler of one box together (\<^verbatim>\<open>host/server.js\<close>, \<^verbatim>\<open>host/runtime.js\<close>, \<^verbatim>\<open>src/sharding/\<close>). The results are
  about every run of the four: a room this box owns is never closed by a drain, and a room it no longer
  owns is never left behind.
\<close>

section \<open>The sockets of a room\<close>

definition room_socks :: "string \<Rightarrow> runtime \<Rightarrow> sid list" where
  "room_socks nm rt =
     (case map_of (rt_rooms rt) nm of None \<Rightarrow> [] | Some c \<Rightarrow> map fst (rc_socks (rt_ctxs rt ! c)))"

definition fewer :: "runtime \<Rightarrow> runtime \<Rightarrow> bool" where
  "fewer rt' rt \<longleftrightarrow> (\<forall>nm. set (room_socks nm rt') \<subseteq> set (room_socks nm rt))"

named_theorems fewer_intros

lemma fewer_refl [fewer_intros]: "fewer rt rt"
  by (simp add: fewer_def)

lemma fewer_trans: "fewer c b \<Longrightarrow> fewer b a \<Longrightarrow> fewer c a"
  unfolding fewer_def by blast

lemma fewer_same: "rt_rooms rt' = rt_rooms rt \<Longrightarrow> rt_ctxs rt' = rt_ctxs rt \<Longrightarrow> fewer rt' rt"
  by (simp add: fewer_def room_socks_def)

definition no_new_socks :: "(rctx \<Rightarrow> rctx) \<Rightarrow> bool" where
  "no_new_socks f \<longleftrightarrow> (\<forall>x. fst ` set (rc_socks (f x)) \<subseteq> fst ` set (rc_socks x))"

lemma fewer_ctx:
  assumes "rt_rooms rt' = rt_rooms rt" "rt_ctxs rt' = (rt_ctxs rt)[c := x]"
    and "fst ` set (rc_socks x) \<subseteq> fst ` set (rc_socks (rt_ctxs rt ! c))"
  shows "fewer rt' rt"
proof -
  have "fst ` set (rc_socks ((rt_ctxs rt)[c := x] ! d)) \<subseteq> fst ` set (rc_socks (rt_ctxs rt ! d))" for d
    using assms(3) by (cases "d = c"; cases "c < length (rt_ctxs rt)") (simp_all add: list_update_beyond)
  then have "set (map fst (rc_socks (rt_ctxs rt' ! d))) \<subseteq> set (map fst (rc_socks (rt_ctxs rt ! d)))" for d
    by (simp add: assms(2))
  note sub = this
  show ?thesis
    unfolding fewer_def
  proof
    show "set (room_socks nm rt') \<subseteq> set (room_socks nm rt)" for nm
      using sub assms(1) by (cases "map_of (rt_rooms rt) nm") (simp_all add: room_socks_def)
  qed
qed

lemma fewer_upd [fewer_intros]: "no_new_socks f \<Longrightarrow> fewer (upd c f rt) rt"
  by (rule fewer_ctx [where c = c and x = "f (rt_ctxs rt ! c)"]) (simp_all add: upd_def no_new_socks_def)

lemma fewer_arm [fewer_intros]: "no_new_socks (\<lambda>x. snd (f x)) \<Longrightarrow> fewer (arm c f rt) rt"
  by (rule fewer_ctx [where c = c and x = "snd (f (rt_ctxs rt ! c))"])
    (simp_all add: arm_def no_new_socks_def split: prod.split)

lemma no_new_socks_ops [simp]:
  "no_new_socks ctx_dispose" "no_new_socks (drop_socks ss)" "no_new_socks (attach s p)"
  "no_new_socks (\<lambda>x. x\<lparr>rc_pending := k x\<rparr>)" "no_new_socks (\<lambda>x. snd (armTimer shut now x))"
  "no_new_socks (\<lambda>x. snd (ctx_reschedule shut now due x))"
  by (auto simp: no_new_socks_def ctx_dispose_def drop_socks_def attach_def armTimer_def ctx_reschedule_def fire_def Let_def
      split: if_splits) force+

lemma fewer_maybeEvict [fewer_intros]: "fewer (maybeEvict c rt) rt"
proof -
  have "fewer (evict c rt) rt"
  proof (cases "map_of (rt_rooms rt) (rc_name (rt_ctxs rt ! c)) = Some c")
    case True
    let ?u = "upd c ctx_dispose rt"
    have "fewer (?u\<lparr>rt_rooms := AList.delete (rc_name (rt_ctxs rt ! c)) (rt_rooms rt)\<rparr>) ?u"
      by (auto simp: fewer_def room_socks_def upd_def delete_conv')
    from fewer_trans [OF this fewer_upd] True show ?thesis by (simp add: evict_def Let_def)
  qed (simp add: evict_def fewer_refl)
  then show ?thesis by (simp add: maybeEvict_def fewer_refl)
qed

lemma fewer_get:
  assumes "reg_ok rt"
  shows "fewer (snd (rt_get nm now rt)) rt"
proof (cases "map_of (rt_rooms rt) nm")
  case None
  let ?new = "rt\<lparr>rt_ctxs := rt_ctxs rt @ [new_ctx nm], rt_rooms := rt_rooms rt @ [(nm, length (rt_ctxs rt))]\<rparr>"
  have "c < length (rt_ctxs rt)" if "map_of (rt_rooms rt) m = Some c" for m c
    using assms map_of_SomeD [OF that] by (auto simp: reg_ok_def)
  then have "fewer ?new rt"
    by (auto simp: fewer_def room_socks_def nth_append new_ctx_def map_add_def split: option.splits if_splits)
  moreover have "fewer (ctx_init (length (rt_ctxs rt)) now ?new) ?new"
    by (auto simp: ctx_init_def intro!: fewer_intros split: option.split)
  ultimately show ?thesis using None fewer_trans by (simp add: rt_get_def Let_def)
qed (simp add: rt_get_def fewer_refl)

lemma fewer_store_alarm [fewer_intros]: "fewer (store_alarm c now due rt) rt"
  unfolding store_alarm_def by (rule fewer_trans [OF fewer_arm fewer_same]) simp_all

lemma fewer_fire_end [fewer_intros]: "fewer (fire_end c now res rt) rt"
proof -
  let ?rt = "rt\<lparr>rt_firing := remove1 c (rt_firing rt)\<rparr>"
  have 0: "fewer ?rt rt" by (rule fewer_same) simp_all
  have "fewer (upd c (drop_socks ss) ?rt) rt" for ss by (rule fewer_trans [OF fewer_upd 0]) simp
  note 1 = this fewer_trans [OF fewer_store_alarm this] fewer_trans [OF fewer_arm 0]
  show ?thesis
    unfolding fire_end_def Let_def
    by (intro fewer_trans [OF fewer_maybeEvict]) (auto intro!: 1 split: alarm_result.split option.split)
qed

text \<open>Only the acceptance of a socket adds one.\<close>

lemma fewer_step:
  assumes "reg_ok rt" "\<And>c s. ev \<noteq> OpenSock c s"
  shows "fewer (rt_step ev rt) rt"
proof (cases ev)
  case (Acquire nm now)
  have "fewer (pin (fst (rt_get nm now rt)) (snd (rt_get nm now rt))) rt"
    unfolding pin_def by (rule fewer_trans [OF fewer_upd fewer_get [OF assms(1)]]) simp
  then show ?thesis using Acquire by (simp add: case_prod_beta)
next
  case (Release c)
  have "fewer (unpin c rt) rt"
    unfolding unpin_def by (rule fewer_trans [OF fewer_maybeEvict fewer_upd]) simp
  then show ?thesis using Release by (simp add: fewer_refl)
next
  case (SockGone c s)
  have "fewer (maybeEvict c (upd c (drop_socks [s]) rt)) rt"
    by (rule fewer_trans [OF fewer_maybeEvict fewer_upd]) simp
  then show ?thesis using SockGone by (simp add: fewer_refl)
next
  case (TimerFires c now res)
  have 1: "fewer (arm c (armTimer (rt_closed rt) now) rt) rt" by (rule fewer_arm) simp
  show ?thesis
    using TimerFires 1 fewer_trans [OF fewer_fire_end 1] by (simp add: fewer_refl Let_def)
next
  case (Rehydrate nm now)
  have "fewer (maybeEvict (fst (rt_get nm now rt)) (snd (rt_get nm now rt))) rt"
    by (rule fewer_trans [OF fewer_maybeEvict fewer_get [OF assms(1)]])
  then show ?thesis using Rehydrate by (simp add: rehydrate_one_def case_prod_beta)
next
  case Shutdown
  then show ?thesis by (simp add: fewer_def room_socks_def shutdown_def)
qed (use assms(2) in \<open>simp_all add: fewer_intros\<close>)

lemma room_socks_open:
  assumes "reg_ok rt"
  shows "set (room_socks nm' (rt_step (OpenSock c s) rt)) \<subseteq>
    (if rc_name (rt_ctxs rt ! c) = nm' then insert s (set (room_socks nm' rt)) else set (room_socks nm' rt))"
proof -
  have "c < length (rt_ctxs rt)" "rc_name (rt_ctxs rt ! c) = m" if "map_of (rt_rooms rt) m = Some c" for m
    using assms map_of_SomeD [OF that] by (auto simp: reg_ok_def)
  then show ?thesis
    by (cases "map_of (rt_rooms rt) nm'"; cases "the (map_of (rt_rooms rt) nm') = c"; cases "held rt c")
      (force simp: room_socks_def upd_def)+
qed

section \<open>Closing rooms\<close>

lemma room_socks_close:
  assumes "reg_ok rt"
  shows "room_socks m (snd (closeRoom nm rt)) = (if m = nm then [] else room_socks m rt)"
proof -
  obtain n rt' where c: "closeRoom nm rt = (n, rt')" by force
  from closeRoom_empties [OF assms c] show ?thesis
    by (auto simp: room_socks_def c split: option.split)
qed

lemma closeRoom_inv:
  assumes "rt_inv rt"
  shows "rt_inv (snd (closeRoom nm rt))"
proof (cases "map_of (rt_rooms rt) nm")
  case (Some c)
  then have "c < length (rt_ctxs rt)"
    using assms map_of_SomeD [OF Some] by (auto simp: rt_inv_def reg_ok_def)
  then have "rt_inv (upd c (drop_socks (map fst (rc_socks (rt_ctxs rt ! c)))) rt)"
    by (rule keep_idle_inv [OF assms]) (simp add: drop_socks_def ctx_idle_def)
  then show ?thesis using Some by (simp add: closeRoom_def Let_def)
qed (simp add: closeRoom_def assms)

section \<open>The drain list\<close>

definition drain_map :: "drain \<Rightarrow> int \<Rightarrow> episode option" where
  "drain_map d = map_of (dr_draining d)"

lemma drain_map_relinquish:
  "drain_map (fold (\<lambda>b. relinquish b now) rel d) b =
     (if b \<in> set rel then Some \<lparr>deadline = now + dr_delay d, evicted = []\<rparr> else drain_map d b)"
proof (induction rel arbitrary: d)
  case (Cons x rel)
  from Cons.IH [of "relinquish x now d"] show ?case
    by (simp add: relinquish_def drain_map_def update_conv')
qed simp

lemma drain_map_reacquire:
  "drain_map (fold reacquire acq d) b = (if b \<in> set acq then None else drain_map d b)"
proof (induction acq arbitrary: d)
  case (Cons x acq)
  from Cons.IH [of "reacquire x d"] show ?case
    by (simp add: reacquire_def drain_map_def delete_conv')
qed simp

lemma distinct_relinquish:
  "distinct (map fst (dr_draining d)) \<Longrightarrow> distinct (map fst (dr_draining (fold (\<lambda>b. relinquish b now) rel d)))"
  by (induction rel arbitrary: d) (simp_all add: relinquish_def distinct_update)

lemma distinct_reacquire:
  "distinct (map fst (dr_draining d)) \<Longrightarrow> distinct (map fst (dr_draining (fold reacquire acq d)))"
  by (induction acq arbitrary: d) (simp_all add: reacquire_def distinct_delete)

text \<open>
  One pass: an episode that is gone had all its live rooms evicted, then or before, and one that stays
  has remembered at most what was evicted.
\<close>

lemma drain_buckets_episodes:
  assumes "drain_buckets live now dr tok = (dr', t, out)" "distinct (map fst dr)"
  shows "(map_of dr' b = None \<longrightarrow> map_of dr b = Some ep \<longrightarrow> (\<forall>i \<in> set (live b). i \<in> set (evicted ep) \<or> (b, i) \<in> set out))
    \<and> (map_of dr' b = Some ep' \<longrightarrow> (\<exists>ep0. map_of dr b = Some ep0 \<and> set (evicted ep') \<subseteq> set (evicted ep0) \<union> {i. (b, i) \<in> set out}))"
  using assms
proof (induction live now dr tok arbitrary: dr' t out rule: drain_buckets.induct)
  case (2 live now c ep1 rest tok)
  show ?case
  proof (cases "deadline ep1 > now")
    case True
    obtain dr2 t2 out2 where r: "drain_buckets live now rest tok = (dr2, t2, out2)" using prod_cases3 by blast
    from "2.IH"(1) [OF True r] "2.prems" r True show ?thesis by auto
  next
    case False
    obtain starved t1 ev out1 where r: "drain_rooms (live c) tok (evicted ep1) = (starved, t1, ev, out1)"
      using prod_cases4 by blast
    note rooms = drain_rooms_tokens [OF r]
    show ?thesis
    proof (cases starved)
      case True
      with "2.prems" False r rooms show ?thesis by auto
    next
      case nst: False
      obtain dr2 t2 out2 where b: "drain_buckets live now rest t1 = (dr2, t2, out2)" using prod_cases3 by blast
      have out: "dr' = dr2" "out = map (Pair c) out1 @ out2" using "2.prems"(1) False r nst b by auto
      have "map_of dr2 c = None"
        using drain_buckets_kept [OF b, of c] "2.prems"(2) map_of_SomeD [of dr2 c] by (cases "map_of dr2 c") force+
      moreover have "set (live c) \<subseteq> set (evicted ep1) \<union> set out1" using rooms nst by auto
      moreover have "distinct (map fst rest)" using "2.prems"(2) by simp
      note "2.IH"(2) [OF False r [symmetric] refl refl nst b this]
      ultimately show ?thesis unfolding out by (cases "b = c") auto
    qed
  qed
qed simp

section \<open>A box of the fleet\<close>

text \<open>
  The events of a distributed relay: a poll of the map, a tick of the drain, a WebSocket that passes
  the gate and is accepted into its room, and anything else the registry does. The gate and the
  acceptance are one event, as no drain delay is short enough to fall between them.
\<close>

datatype fleet_event =
    Poll "string \<Rightarrow> jsval option" int "fetch_error option" fetch_reply
  | DrainTick int
  | Join string sid int
  | Registry rt_event

definition join :: "string \<Rightarrow> sid \<Rightarrow> int \<Rightarrow> runtime \<Rightarrow> runtime" where
  "join nm s now rt = rt_step (OpenSock (fst (rt_get nm now rt)) s) (rt_step (Acquire nm now) rt)"

fun fleet_step :: "(int set \<Rightarrow> int list) \<Rightarrow> fleet_event \<Rightarrow> relay \<Rightarrow> relay" where
  "fleet_step order (Poll json now err reply) r = poll order json now err reply r"
| "fleet_step order (DrainTick now) r = drain_tick now r"
| "fleet_step order (Join nm s now) r =
     (if admits (ownershipGate (Some nm) r) then r\<lparr>rl_rt := join nm s now (rl_rt r)\<rparr> else r)"
| "fleet_step order (Registry ev) r = r\<lparr>rl_rt := rt_step ev (rl_rt r)\<rparr>"

fun fleet_ok :: "fleet_event \<Rightarrow> relay \<Rightarrow> bool" where
  "fleet_ok (Registry ev) r \<longleftrightarrow> timely (rl_rt r) ev \<and> (case ev of OpenSock c s \<Rightarrow> False | _ \<Rightarrow> True)"
| "fleet_ok _ r \<longleftrightarrow> True"

inductive fleet_reach :: "(int set \<Rightarrow> int list) \<Rightarrow> relay \<Rightarrow> bool" for order where
  boot: "createRelay cfg None rows now = Inr r \<Longrightarrow> rl_mode r = MODE_DISTRIBUTED \<Longrightarrow> fleet_reach order r"
| event: "fleet_reach order r \<Longrightarrow> fleet_ok e r \<Longrightarrow> fleet_reach order (fleet_step order e r)"

text \<open>A Set of buckets is walked completely.\<close>

definition walks :: "(int set \<Rightarrow> int list) \<Rightarrow> bool" where
  "walks order \<longleftrightarrow> (\<forall>A. finite A \<longrightarrow> set (order A) = A)"

lemma walks_sorted: "walks sorted_list_of_set"
  by (simp add: walks_def)

definition owned :: "relay \<Rightarrow> int set" where
  "owned r = (case rl_store r of None \<Rightarrow> {} | Some st \<Rightarrow> st_owned st)"

definition draining :: "relay \<Rightarrow> int \<Rightarrow> episode option" where
  "draining r b = (case rl_drain r of None \<Rightarrow> None | Some d \<Rightarrow> drain_map d b)"

definition live :: "string \<Rightarrow> relay \<Rightarrow> bool" where
  "live nm r \<longleftrightarrow> room_socks nm (rl_rt r) \<noteq> []"

text \<open>The buckets a relay owns or still has to drain; the rooms it has evicted stay empty.\<close>

definition placed :: "relay \<Rightarrow> string \<Rightarrow> bool" where
  "placed r nm \<longleftrightarrow> (\<exists>b. bucketForRoomName (Some nm) = Some b \<and>
     (b \<in> owned r \<or> (\<exists>ep. draining r b = Some ep \<and> nm \<notin> set (evicted ep))))"

definition fleet_inv :: "relay \<Rightarrow> bool" where
  "fleet_inv r \<longleftrightarrow>
     rl_mode r = MODE_DISTRIBUTED \<and> (\<exists>st. rl_store r = Some st \<and> finite (st_owned st))
     \<and> (\<exists>d. rl_drain r = Some d \<and> distinct (map fst (dr_draining d)))
     \<and> rt_inv (rl_rt r) \<and> (\<forall>b \<in> owned r. draining r b = None) \<and> (\<forall>nm. live nm r \<longrightarrow> placed r nm)"

text \<open>Polls that adopt nothing, and the metering, leave all of this alone.\<close>

definition same_fleet :: "relay \<Rightarrow> relay \<Rightarrow> bool" where
  "same_fleet r' r \<longleftrightarrow> rl_mode r' = rl_mode r \<and> rl_store r' = rl_store r \<and> rl_drain r' = rl_drain r \<and> rl_rt r' = rl_rt r"

lemma same_fleet_inv: "same_fleet r' r \<Longrightarrow> fleet_inv r \<Longrightarrow> fleet_inv r'"
  by (simp add: same_fleet_def fleet_inv_def owned_def draining_def live_def placed_def)

lemma quiet_calls:
  assumes "\<forall>m d. OnAdopt m d \<notin> set calls"
  shows "same_fleet (fold (on_call order now err) calls r) r"
  using assms
proof (induction calls arbitrary: r)
  case (Cons c calls)
  have "same_fleet (on_call order now err c r) r"
    using Cons.prems by (cases c) (auto simp: same_fleet_def on_error_def Let_def)
  moreover have "same_fleet (fold (on_call order now err) calls (on_call order now err c r)) (on_call order now err c r)"
    using Cons.prems by (intro Cons.IH) simp
  ultimately show ?case by (simp add: same_fleet_def)
qed (simp add: same_fleet_def)

lemma finite_owned: "finite (ownedBuckets m h)"
proof -
  have "ownedBuckets m h \<subseteq> (\<Union>r \<in> set (ranges m). {low r..high r})"
    by (auto simp: ownedBuckets_iff covers_def)
  then show ?thesis by (rule finite_subset) simp
qed

lemma fleet_inv_adopt:
  assumes w: "walks order" and inv: "fleet_inv r" and d: "rl_drain r = Some d"
    and fin: "finite own"
    and r': "rl_mode r' = rl_mode r" "rl_store r' = Some st" "st_owned st = own" "rl_rt r' = rl_rt r"
      "rl_drain r' = Some (fold reacquire (order (own - owned r)) (fold (\<lambda>b. relinquish b now) (order (owned r - own)) d))"
  shows "fleet_inv r'"
proof -
  have fo: "finite (owned r)" using inv by (auto simp: fleet_inv_def owned_def)
  have acq: "set (order (own - owned r)) = own - owned r" and rel: "set (order (owned r - own)) = owned r - own"
    using w fo fin by (auto simp: walks_def)
  have dr: "draining r' b = (if b \<in> own - owned r then None
      else if b \<in> owned r - own then Some \<lparr>deadline = now + dr_delay d, evicted = []\<rparr> else draining r b)" for b
    unfolding draining_def r'(5) d by (simp add: drain_map_reacquire drain_map_relinquish acq rel)
  have ow: "owned r' = own" using r'(2,3) by (simp add: owned_def)
  have placed: "placed r' nm" if "placed r nm" for nm
    using that unfolding placed_def ow dr by force
  moreover have "\<forall>b \<in> owned r'. draining r' b = None"
    using inv unfolding ow dr by (auto simp: fleet_inv_def)
  moreover have "distinct (map fst (dr_draining d))" using inv d by (simp add: fleet_inv_def)
  ultimately show ?thesis
    using inv fin r' by (auto simp: fleet_inv_def live_def intro!: distinct_reacquire distinct_relinquish)
qed

lemma fleet_inv_poll:
  assumes w: "walks order" and inv: "fleet_inv r"
  shows "fleet_inv (poll order json now err reply r)"
proof -
  obtain st d where st: "rl_store r = Some st" and d: "rl_drain r = Some d" using inv by (auto simp: fleet_inv_def)
  obtain res calls st' where f: "fetchOnce json reply st = (res, calls, st')" using prod_cases3 by blast
  have p: "poll order json now err reply r = fold (on_call order now err) calls (r\<lparr>rl_store := Some st'\<rparr>)"
    by (simp add: poll_def st f)
  show ?thesis
  proof (cases rule: fetchOnce_cases [of json reply st])
    case kept
    then have q: "st' = st" "\<forall>m d. OnAdopt m d \<notin> set calls" by (simp_all add: f)
    have "same_fleet (poll order json now err reply r) (r\<lparr>rl_store := Some st'\<rparr>)"
      unfolding p by (rule quiet_calls [OF q(2)])
    moreover have "same_fleet (r\<lparr>rl_store := Some st'\<rparr>) r" using st q(1) by (simp add: same_fleet_def)
    ultimately show ?thesis using inv same_fleet_inv by blast
  next
    case (took m df)
    let ?own = "ownedBuckets m (st_selfHost st)"
    have ow: "owned r = st_owned st" by (simp add: owned_def st)
    show ?thesis
    proof (rule fleet_inv_adopt [OF w inv d finite_owned [of m "st_selfHost st"]])
      show "rl_store (poll order json now err reply r) = Some st'" "st_owned st' = ?own"
        "rl_mode (poll order json now err reply r) = rl_mode r" "rl_rt (poll order json now err reply r) = rl_rt r"
        "rl_drain (poll order json now err reply r)
          = Some (fold reacquire (order (?own - owned r)) (fold (\<lambda>b. relinquish b now) (order (owned r - ?own)) d))"
        using took d unfolding p ow by (simp_all add: f on_adopt_def applyShardDiff_def count_def)
    qed
  qed
qed

lemma fleet_inv_fewer:
  assumes "fleet_inv r" "rt_inv rt" "fewer rt (rl_rt r)"
  shows "fleet_inv (r\<lparr>rl_rt := rt\<rparr>)"
proof -
  have "live nm (r\<lparr>rl_rt := rt\<rparr>) \<Longrightarrow> live nm r" for nm
    using assms(3) [unfolded fewer_def, rule_format, of nm] by (auto simp: live_def)
  then show ?thesis using assms(1,2) by (auto simp: fleet_inv_def owned_def draining_def placed_def)
qed

lemma rt_inv_reg: "rt_inv rt \<Longrightarrow> reg_ok rt"
  by (simp add: rt_inv_def)

lemma acquire_name:
  assumes "reg_ok rt"
  shows "rc_name (rt_ctxs (rt_step (Acquire nm now) rt) ! fst (rt_get nm now rt)) = nm"
proof (cases "map_of (rt_rooms rt) nm")
  case (Some c)
  with assms map_of_SomeD [OF Some] show ?thesis by (auto simp: reg_ok_def rt_get_def pin_def upd_def)
next
  case None
  then show ?thesis
    by (auto simp: rt_get_def pin_def upd_def ctx_init_def arm_def new_ctx_def ctx_reschedule_def armTimer_def fire_def
        nth_append Let_def split: option.split prod.split)
qed

lemma joined:
  assumes "rt_inv rt"
  shows "rt_inv (join nm s now rt)"
    "nm' \<noteq> nm \<Longrightarrow> set (room_socks nm' (join nm s now rt)) \<subseteq> set (room_socks nm' rt)"
proof -
  let ?c = "fst (rt_get nm now rt)" and ?rt = "rt_step (Acquire nm now) rt"
  have 1: "rt_inv ?rt" by (rule rt_step_inv [OF assms]) simp
  show "rt_inv (join nm s now rt)" unfolding join_def by (rule rt_step_inv [OF 1]) simp
  have name: "rc_name (rt_ctxs ?rt ! ?c) = nm"
    using acquire_name [OF rt_inv_reg [OF assms]] by simp
  have "fewer ?rt rt" by (rule fewer_step [OF rt_inv_reg [OF assms]]) simp
  then show "set (room_socks nm' (join nm s now rt)) \<subseteq> set (room_socks nm' rt)" if "nm' \<noteq> nm"
    using room_socks_open [OF rt_inv_reg [OF 1], of nm' ?c s] name that
    unfolding join_def fewer_def by (auto split: if_splits)
qed

lemma fleet_inv_join:
  assumes inv: "fleet_inv r" and adm: "admits (ownershipGate (Some nm) r)"
  shows "fleet_inv (r\<lparr>rl_rt := join nm s now (rl_rt r)\<rparr>)"
proof -
  let ?r = "r\<lparr>rl_rt := join nm s now (rl_rt r)\<rparr>"
  have rt: "rt_inv (rl_rt r)" using inv by (simp add: fleet_inv_def)
  obtain b where b: "bucketForRoomName (Some nm) = Some b" "b \<in> owned r"
    using adm inv by (auto simp: ownershipGate_def fleet_inv_def owned_def ownershipDecision_def ownsBucket_def
        split: if_splits option.splits)
  have same: "placed ?r m = placed r m" for m by (simp add: placed_def owned_def draining_def)
  have "placed ?r m" if l: "live m ?r" for m
  proof (cases "m = nm")
    case True
    then show ?thesis using b unfolding same by (auto simp: placed_def)
  next
    case False
    from joined(2) [OF rt False, of s now] l have "live m r" by (auto simp: live_def)
    then show ?thesis using inv unfolding same by (simp add: fleet_inv_def)
  qed
  then show ?thesis
    using inv joined(1) [OF rt] by (simp add: fleet_inv_def owned_def draining_def)
qed

text \<open>The rooms a tick evicts, and what it leaves.\<close>

definition closing :: "(int \<times> string) list \<Rightarrow> runtime \<Rightarrow> runtime" where
  "closing out rt = fold (\<lambda>(b, nm) rt. snd (closeRoom nm rt)) out rt"

lemma evict_room_eq: "evict_room nm r = r\<lparr>rl_rt := snd (closeRoom nm (rl_rt r))\<rparr>"
proof -
  have "(onServerClose WS_RESHARD_CODE reason ^^ n) r = r" for reason n r
    by (induction n) simp_all
  then show ?thesis by (simp add: evict_room_def case_prod_beta)
qed

lemma evict_rooms_eq:
  "fold (\<lambda>(b, nm). evict_room nm) out r = r\<lparr>rl_rt := closing out (rl_rt r)\<rparr>"
  by (induction out arbitrary: r) (auto simp: closing_def evict_room_eq)

lemma closing_facts:
  "rt_inv rt \<Longrightarrow> rt_inv (closing out rt) \<and> room_socks m (closing out rt) = (if m \<in> snd ` set out then [] else room_socks m rt)"
proof (induction out arbitrary: rt)
  case (Cons p out)
  obtain b nm where p: "p = (b, nm)" by force
  have "rt_inv (snd (closeRoom nm rt))" by (rule closeRoom_inv [OF Cons.prems])
  from Cons.IH [OF this] room_socks_close [OF rt_inv_reg [OF Cons.prems], of m nm] show ?case
    by (auto simp: closing_def p)
qed (simp add: closing_def)

lemma evict_keeps_other_buckets:
  assumes "rt_inv rt" "bucketForRoomName (Some nm) \<noteq> Some b"
  shows "set (roomsInBucket b (snd (closeRoom nm rt))) = set (roomsInBucket b rt)"
proof -
  have live: "m \<in> set (roomsInBucket b x) \<longleftrightarrow> bucketForRoomName (Some m) = Some b \<and> room_socks m x \<noteq> []" if "rt_inv x" for m x
    using roomsInBucket_iff [OF rt_inv_reg [OF that], of m b] by (auto simp: room_socks_def split: option.split)
  show ?thesis
    using assms(2) by (auto simp: live [OF assms(1)] live [OF closeRoom_inv [OF assms(1)]]
        room_socks_close [OF rt_inv_reg [OF assms(1)]] split: if_splits)
qed

lemma rooms_in_bucket:
  "rt_inv (rl_rt r) \<Longrightarrow> m \<in> set (roomsInBucket b (rl_rt r)) \<longleftrightarrow> bucketForRoomName (Some m) = Some b \<and> live m r"
  using roomsInBucket_iff [OF rt_inv_reg, of "rl_rt r" m b] by (auto simp: room_socks_def live_def split: option.split)

lemma drain_tick_eq:
  assumes "rl_drain r = Some d" "drain_buckets (\<lambda>b. roomsInBucket b (rl_rt r)) now (dr_draining d) (accrued now d) = (dr, tok, out)"
  shows "drain_tick now r =
    r\<lparr>rl_drain := Some (d\<lparr>dr_draining := dr, dr_tokens := tok, dr_lastRun := now\<rparr>), rl_rt := closing out (rl_rt r)\<rparr>"
  using assms by (simp add: drain_tick_def run_def evict_rooms_eq)

lemma fleet_inv_tick:
  assumes inv: "fleet_inv r"
  shows "fleet_inv (drain_tick now r) \<and> (\<forall>nm b. bucketForRoomName (Some nm) = Some b \<longrightarrow> b \<in> owned r \<longrightarrow>
    room_socks nm (rl_rt (drain_tick now r)) = room_socks nm (rl_rt r))"
proof -
  obtain d where d: "rl_drain r = Some d" "distinct (map fst (dr_draining d))" using inv by (auto simp: fleet_inv_def)
  have rt: "rt_inv (rl_rt r)" using inv by (simp add: fleet_inv_def)
  let ?live = "\<lambda>b. roomsInBucket b (rl_rt r)"
  obtain dr tok out where t: "drain_buckets ?live now (dr_draining d) (accrued now d) = (dr, tok, out)"
    using prod_cases3 by blast
  note tick = drain_tick_eq [OF d(1) t]
  note episodes = drain_buckets_episodes [OF t d(2)]
  have ev: "b \<notin> owned r \<and> bucketForRoomName (Some m) = Some b" if "(b, m) \<in> set out" for b m
  proof -
    from drain_buckets_evicts [OF t that] obtain ep where "(b, ep) \<in> set (dr_draining d)" "m \<in> set (?live b)" by blast
    moreover from this have "draining r b = Some ep" using d by (simp add: draining_def drain_map_def)
    ultimately show ?thesis using inv rooms_in_bucket [OF rt] by (auto simp: fleet_inv_def)
  qed
  have dm: "draining (drain_tick now r) b = map_of dr b" "draining r b = map_of (dr_draining d) b" for b
    by (simp_all add: tick draining_def drain_map_def d(1))
  have ow: "owned (drain_tick now r) = owned r" by (simp add: tick owned_def)
  have gone: "map_of dr b = None" if "map_of (dr_draining d) b = None" for b
    using episodes [of b] that by (cases "map_of dr b") auto
  have "placed (drain_tick now r) m" if l: "live m (drain_tick now r)" for m
  proof -
    from l closing_facts [OF rt, of out m] have m: "live m r" "m \<notin> snd ` set out"
      by (auto simp: live_def tick split: if_splits)
    then obtain b where b: "bucketForRoomName (Some m) = Some b"
      "b \<in> owned r \<or> (\<exists>ep. map_of (dr_draining d) b = Some ep \<and> m \<notin> set (evicted ep))"
      using inv by (auto simp: fleet_inv_def placed_def dm)
    have mb: "m \<in> set (?live b)" using b m rooms_in_bucket [OF rt] by simp
    have no: "(b, m) \<notin> set out" using m(2) by force
    show ?thesis
    proof (cases "map_of dr b")
      case None
      with b episodes [of b] mb no show ?thesis by (auto simp: placed_def dm ow)
    next
      case (Some ep')
      with episodes [of b _ ep'] have "set (evicted ep') \<subseteq> set (evicted ep) \<union> {i. (b, i) \<in> set out}"
        if "map_of (dr_draining d) b = Some ep" for ep using that by auto
      with Some b no show ?thesis by (auto simp: placed_def dm ow)
    qed
  qed
  moreover have "distinct (map fst dr)" by (rule drain_buckets_distinct [OF t d(2)])
  ultimately have "fleet_inv (drain_tick now r)"
    using inv closing_facts [OF rt] gone
    by (auto simp: fleet_inv_def dm ow) (simp_all add: tick)
  moreover have "room_socks nm (rl_rt (drain_tick now r)) = room_socks nm (rl_rt r)"
    if "bucketForRoomName (Some nm) = Some b" "b \<in> owned r" for nm b
    using closing_facts [OF rt, of out nm] ev that by (force simp: tick)
  ultimately show ?thesis by blast
qed

lemma fleet_inv_step:
  assumes "walks order" "fleet_inv r" "fleet_ok e r"
  shows "fleet_inv (fleet_step order e r)"
proof (cases e)
  case (Poll json now err reply)
  then show ?thesis using fleet_inv_poll [OF assms(1,2)] by simp
next
  case (DrainTick now)
  then show ?thesis using fleet_inv_tick [OF assms(2)] by simp
next
  case (Join nm s now)
  then show ?thesis using fleet_inv_join [OF assms(2)] assms(2) by simp
next
  case (Registry ev)
  have rt: "rt_inv (rl_rt r)" using assms(2) by (simp add: fleet_inv_def)
  have "fleet_inv (r\<lparr>rl_rt := rt_step ev (rl_rt r)\<rparr>)"
    using assms(3) Registry
    by (intro fleet_inv_fewer [OF assms(2)] rt_step_inv [OF rt] fewer_step [OF rt_inv_reg [OF rt]]) auto
  then show ?thesis using Registry by simp
qed

lemma fleet_inv_boot:
  assumes "createRelay cfg None rows now = Inr r" "rl_mode r = MODE_DISTRIBUTED"
  shows "fleet_inv r"
  using assms
  by (auto simp: createRelay_def idle_relay_def fleet_inv_def new_store_def new_drain_def or_default_def owned_def
      draining_def drain_map_def live_def room_socks_def new_runtime_def rt_inv_def reg_ok_def Let_def
      split: sum.splits mode.splits option.splits if_splits)

lemma fleet_reach_inv: "walks order \<Longrightarrow> fleet_reach order r \<Longrightarrow> fleet_inv r"
  by (rotate_tac, induction rule: fleet_reach.induct) (simp_all add: fleet_inv_boot fleet_inv_step)

text \<open>A box that boots, adopts a map and accepts a socket in a room of its own.\<close>

definition demo_room_name :: string where
  "demo_room_name = replicate 63 CHR ''0'' @ ''1''"

definition demo_adopted :: relay where
  "demo_adopted = fleet_step sorted_list_of_set (Poll (\<lambda>_. Some demo_json) 0 None (FetchText ''m'')) demo_relay"

definition demo_box :: relay where
  "demo_box = fleet_step sorted_list_of_set (Join demo_room_name 7 5) demo_adopted"

lemma demo_adopted_facts:
  "rl_rt demo_adopted = new_runtime (\<lambda>_. None)" "rl_mode demo_adopted = MODE_DISTRIBUTED"
  "rl_store demo_adopted = Some \<lparr>st_selfHost = ''a'', st_map = Some demo_map, st_owned = ownedBuckets demo_map ''a''\<rparr>"
  "\<exists>d. rl_drain demo_adopted = Some d \<and> dr_draining d = [] \<and> accrued 5 d = 1 / 20"
proof -
  have json: "parseShardMap (Some demo_json) = Inr demo_map" by code_simp
  have keep: "dr_draining (fold reacquire xs d) = []" if "dr_draining d = []" for xs d
    using that by (induction xs arbitrary: d) (simp_all add: reacquire_def)
  have same: "accrued t (fold reacquire xs d) = accrued t d" for xs t d
    by (induction xs arbitrary: d) (simp_all add: reacquire_def accrued_def)
  show "rl_rt demo_adopted = new_runtime (\<lambda>_. None)" "rl_mode demo_adopted = MODE_DISTRIBUTED"
    "rl_store demo_adopted = Some \<lparr>st_selfHost = ''a'', st_map = Some demo_map, st_owned = ownedBuckets demo_map ''a''\<rparr>"
    "\<exists>d. rl_drain demo_adopted = Some d \<and> dr_draining d = [] \<and> accrued 5 d = 1 / 20"
    unfolding demo_adopted_def
    by (simp_all add: poll_def demo_relay_def idle_relay_def new_store_def fetchOnce_def json demo_map_valid applyFetched_def
        diffOwned_def on_adopt_def applyShardDiff_def count_def keep same Let_def)
      (simp_all add: keep new_drain_def accrued_def)
qed

lemma demo_box_facts:
  "fleet_reach sorted_list_of_set demo_box" "room_socks demo_room_name (rl_rt demo_box) = [7]"
  "bucketForRoomName (Some demo_room_name) = Some 1" "1 \<in> owned demo_box"
  "\<exists>d. rl_drain demo_box = Some d \<and> dr_draining d = [] \<and> accrued 5 d = 1 / 20"
proof -
  have boot: "createRelay (DEFAULTS\<lparr>shardMapUrl := Some ''u'', selfHost := Some ''a'', relayOrigin := ''https://a''\<rparr>) None (\<lambda>_. None) 0
      = Inr demo_relay"
    by (simp add: createRelay_def resolveMode_def truthy_str_def assertOriginMatches_def originForHost_def or_default_def DEFAULTS_def
        demo_relay_def SHARDMAP_POLL_INTERVAL_MS_def RESHARD_DRAIN_DELAY_MS_def RESHARD_EVICTION_RATE_def Let_def)
  have "rl_mode demo_relay = MODE_DISTRIBUTED" by (simp add: demo_relay_def idle_relay_def)
  from fleet_reach.boot [OF boot this]
  show "fleet_reach sorted_list_of_set demo_box"
    unfolding demo_box_def demo_adopted_def by (intro fleet_reach.event) simp_all
  show b: "bucketForRoomName (Some demo_room_name) = Some 1" by code_simp
  have own: "1 \<in> ownedBuckets demo_map ''a''"
    by (simp add: ownedBuckets_iff demo_map_def covers_def)
  then have adm: "admits (ownershipGate (Some demo_room_name) demo_adopted)"
    by (simp add: ownershipGate_def demo_adopted_facts admits_distributed b ownsBucket_def)
  show "room_socks demo_room_name (rl_rt demo_box) = [7]"
    using adm by (simp add: demo_box_def demo_adopted_facts join_def room_socks_def rt_get_def ctx_init_def pin_def upd_def held_def
        new_runtime_def new_ctx_def Let_def)
  show "1 \<in> owned demo_box" using adm own by (simp add: demo_box_def owned_def demo_adopted_facts)
  show "\<exists>d. rl_drain demo_box = Some d \<and> dr_draining d = [] \<and> accrued 5 d = 1 / 20"
    using adm demo_adopted_facts(4) by (simp add: demo_box_def)
qed

text \<open>
  C4. Resharding is safe: in every run of polls, drain ticks, accepted connections and room events, a
  room with open sockets is in a bucket this box owns or still has to drain, and has not been ticked
  off as evicted; an owned bucket is never draining; and a drain tick leaves the sockets of every
  room in an owned bucket alone. The hypothesis says that a Set of buckets is walked completely.
\<close>

theorem reshard_safe:
  assumes "walks order" "fleet_reach order r"
  shows "(room_socks nm (rl_rt r) \<noteq> [] \<longrightarrow> (\<exists>b. bucketForRoomName (Some nm) = Some b \<and>
        (b \<in> owned r \<or> (\<exists>ep. draining r b = Some ep \<and> nm \<notin> set (evicted ep)))))
    \<and> (b \<in> owned r \<longrightarrow> draining r b = None)
    \<and> (bucketForRoomName (Some nm) = Some b \<longrightarrow> b \<in> owned r \<longrightarrow>
         room_socks nm (rl_rt (drain_tick now r)) = room_socks nm (rl_rt r))"
  using fleet_reach_inv [OF assms] fleet_inv_tick [OF fleet_reach_inv [OF assms], of now]
  by (auto simp: fleet_inv_def placed_def live_def)

theorem reshard_safe_witness: "room_socks demo_room_name (rl_rt (drain_tick 50000 demo_box)) = [7]"
  using reshard_safe [OF walks_sorted demo_box_facts(1), of demo_room_name 1 50000] demo_box_facts by simp

text \<open>
  C5. Resharding completes: when the tokens that have accrued cover the rooms still to be evicted, one
  tick empties every room of the buckets whose delay is over; each room that still has sockets is in
  an owned bucket or in one whose delay is not over yet.
\<close>

theorem reshard_completes:
  assumes "walks order" "fleet_reach order r" "rl_drain r = Some d"
    and "of_nat (pending (\<lambda>b. roomsInBucket b (rl_rt r)) now (dr_draining d)) \<le> accrued now d"
    and "room_socks nm (rl_rt (drain_tick now r)) \<noteq> []"
  shows "\<exists>b. bucketForRoomName (Some nm) = Some b \<and>
    (b \<in> owned r \<or> (\<exists>ep. draining (drain_tick now r) b = Some ep \<and> now < deadline ep))"
proof -
  have inv: "fleet_inv r" by (rule fleet_reach_inv [OF assms(1,2)])
  obtain dr tok out where t:
    "drain_buckets (\<lambda>b. roomsInBucket b (rl_rt r)) now (dr_draining d) (accrued now d) = (dr, tok, out)"
    using prod_cases3 by blast
  note tick = drain_tick_eq [OF assms(3) t]
  have ow: "owned (drain_tick now r) = owned r" by (simp add: tick owned_def)
  have "live nm (drain_tick now r)" using assms(5) by (simp add: live_def)
  with fleet_inv_tick [OF inv, of now] have "placed (drain_tick now r) nm" by (simp add: fleet_inv_def)
  then obtain b where b: "bucketForRoomName (Some nm) = Some b"
    "b \<in> owned r \<or> (\<exists>ep. draining (drain_tick now r) b = Some ep)"
    unfolding placed_def ow by blast
  have "now < deadline ep" if "draining (drain_tick now r) b = Some ep" for ep
  proof -
    have "(b, ep) \<in> set dr" using that by (simp add: tick draining_def drain_map_def map_of_SomeD)
    then show ?thesis using drain_buckets_complete [OF t assms(4)] by simp
  qed
  with b show ?thesis by blast
qed

theorem reshard_completes_witness:
  "bucketForRoomName (Some demo_room_name) = Some 1 \<and> (1 \<in> owned demo_box \<or> (\<exists>ep. draining (drain_tick 5 demo_box) 1 = Some ep))"
proof -
  obtain d where d: "rl_drain demo_box = Some d" "dr_draining d = []" "accrued 5 d = 1 / 20" using demo_box_facts(5) by blast
  have "drain_buckets live now [] tok = ([], tok, [])" for live now tok by simp
  then have "drain_tick 5 demo_box = demo_box\<lparr>rl_drain := Some (d\<lparr>dr_draining := [], dr_tokens := 1 / 20, dr_lastRun := 5\<rparr>)\<rparr>"
    using drain_tick_eq [OF d(1)] d by (simp add: closing_def)
  then have "room_socks demo_room_name (rl_rt (drain_tick 5 demo_box)) \<noteq> []" using demo_box_facts(2) by simp
  from reshard_completes [OF walks_sorted demo_box_facts(1) d(1) _ this] show ?thesis
    using demo_box_facts(3) d by (auto simp: pending_def)
qed

end
