(* ===== verification/Monitor.thy ===== *)
theory Monitor
  imports DashParse
begin

text \<open>
  The analysis of the relay monitor, \<^verbatim>\<open>monitor/src/monitor.js\<close> up to \<^verbatim>\<open>dueAlerts\<close>: the checks on one
  snapshot of a relay, the baseline of hourly traffic, the rooms the probe asks for, and the
  deduplication of alerts. Numbers are rationals; how one is written, and with one decimal, are the
  fields of \<open>texts\<close>.
\<close>

section \<open>Numbers and samples\<close>

record texts =
  num :: "rat \<Rightarrow> string"
  fixed1 :: "rat option \<Rightarrow> string"

text \<open>A division by zero gives no finite number.\<close>

definition js_div :: "rat \<Rightarrow> rat \<Rightarrow> rat option" where
  "js_div a b = (if b = 0 then None else Some (a / b))"

definition js_round :: "rat \<Rightarrow> int" where
  "js_round x = \<lfloor>x + 1 / 2\<rfloor>"

definition js_trunc :: "rat \<Rightarrow> int" where
  "js_trunc x = (if x < 0 then \<lceil>x\<rceil> else \<lfloor>x\<rfloor>)"

text \<open>\<open>arr.slice(i)\<close>\<close>

definition js_slice :: "rat \<Rightarrow> 'a list \<Rightarrow> 'a list" where
  "js_slice i xs =
     (let k = js_trunc i in drop (nat (if k < 0 then max 0 (int (length xs) + k) else k)) xs)"

definition median :: "rat list \<Rightarrow> rat option" where
  "median nums =
     (if nums = [] then None
      else let s = sort nums; mid = length s div 2
           in Some (if odd (length s) then s ! mid else (s ! (mid - 1) + s ! mid) / 2))"

type_synonym history = "(int \<times> rat list) list"

definition samples_of :: "history \<Rightarrow> int \<Rightarrow> rat list" where
  "samples_of h how = (case map_of h how of None \<Rightarrow> [] | Some xs \<Rightarrow> xs)"

definition pushSample :: "history \<Rightarrow> int \<Rightarrow> rat \<Rightarrow> rat \<Rightarrow> history" where
  "pushSample h how v maxSamples = AList.update how (js_slice (- maxSamples) (samples_of h how @ [v])) h"

text \<open>
  The ISO text of an hour stands for the time it names, in milliseconds; 1 January 1970 was a
  Thursday.
\<close>

definition hourKey :: "int \<Rightarrow> int" where
  "hourKey ms = ms div 3600000 * 3600000"

definition hourOfWeek :: "int \<Rightarrow> int" where
  "hourOfWeek ms =
     (let dow = ((ms div 86400000 + 4) mod 7 + 6) mod 7
      in dow * 24 + ms div 3600000 mod 24)"

section \<open>The checks\<close>

datatype severity = Warn | Critical

record alert =
  al_key :: string
  al_severity :: severity
  al_title :: string
  al_body :: string

record meter =
  mt_key :: string
  mt_label :: string
  used :: rat
  cap :: rat
  warnFrac :: rat
  critFrac :: rat
  mt_unit :: string

definition cap_check :: "texts \<Rightarrow> meter \<Rightarrow> alert option" where
  "cap_check tx m =
     (if cap m = 0 then None
      else let frac = used m / cap m; pct = show_int (js_round (frac * 100));
               u = (if mt_unit m = [] then [] else '' '' @ mt_unit m);
               detail = mt_label m @ '': '' @ num tx (used m) @ u @ '' of '' @ num tx (cap m) @ u @ '' ('' @ pct @ ''%) in use.''
           in if critFrac m \<le> frac
              then Some \<lparr>al_key = ''cap:'' @ mt_key m, al_severity = Critical,
                         al_title = mt_label m @ '' near cap ('' @ pct @ ''%)'', al_body = detail\<rparr>
              else if warnFrac m \<le> frac
              then Some \<lparr>al_key = ''cap:'' @ mt_key m, al_severity = Warn,
                         al_title = mt_label m @ '' elevated ('' @ pct @ ''%)'', al_body = detail\<rparr>
              else None)"

definition capAlerts :: "texts \<Rightarrow> meter list \<Rightarrow> alert list" where
  "capAlerts tx meters = List.map_filter (cap_check tx) meters"

definition errorAlert :: "texts \<Rightarrow> rat \<Rightarrow> rat \<Rightarrow> rat \<Rightarrow> rat \<Rightarrow> alert option" where
  "errorAlert tx requests errors ratioThreshold minRequests =
     (if requests < minRequests then None
      else let ratio = (if requests > 0 then errors / requests else 0)
           in if ratio < ratioThreshold then None
              else let pct = fixed1 tx (Some (ratio * 100))
                   in Some \<lparr>al_key = ''errors'', al_severity = (if ratio \<ge> ratioThreshold * 2 then Critical else Warn),
                            al_title = ''Error rate '' @ pct @ ''%'',
                            al_body = num tx errors @ '' internal errors of '' @ num tx requests
                              @ '' requests in the last interval ('' @ pct @ ''%).''\<rparr>)"

definition exceptionAlert :: "texts \<Rightarrow> rat \<Rightarrow> rat \<Rightarrow> alert option" where
  "exceptionAlert tx n threshold =
     (if n = 0 \<or> n < threshold then None
      else Some \<lparr>al_key = ''exceptions'', al_severity = (if n \<ge> threshold * 5 then Critical else Warn),
                 al_title = ''Process exceptions: '' @ num tx n,
                 al_body = num tx n @ '' swallowed process exception(s) since the last check (threshold ''
                   @ num tx threshold @ '').''\<rparr>)"

definition shardFetchErrorAlert :: "texts \<Rightarrow> rat \<Rightarrow> rat \<Rightarrow> alert option" where
  "shardFetchErrorAlert tx n threshold =
     (if n = 0 \<or> n < threshold then None
      else Some \<lparr>al_key = ''shard_fetch'', al_severity = (if n \<ge> threshold * 5 then Critical else Warn),
                 al_title = ''Shard-map fetch errors: '' @ num tx n,
                 al_body = num tx n @ '' shard-map fetch failure(s) since the last check (threshold ''
                   @ num tx threshold @ ''). ''
                   @ ''The relay keeps serving its last-known-good map; if this persists across a reshard, ''
                   @ ''hard-stop the host to complete the drain.''\<rparr>)"

definition livenessAlert :: "string \<Rightarrow> alert" where
  "livenessAlert detail =
     \<lparr>al_key = ''liveness'', al_severity = Critical, al_title = ''Relay not reporting'',
      al_body = ''No fresh metrics from the relay: '' @ detail @ ''. The relay process or its host may be down.''\<rparr>"

definition probeAlert :: "string \<Rightarrow> alert" where
  "probeAlert detail =
     \<lparr>al_key = ''probe'', al_severity = Critical, al_title = ''Relay handshake failing'',
      al_body = ''A synthetic pairing handshake against the relay failed: '' @ detail @ ''. ''
        @ ''The inbound path (DNS, Cloudflare, origin firewall, proxy, WS upgrade, or ''
        @ ''admission) may be broken even though the relay process is up.''\<rparr>"

definition anomalyAlert ::
  "texts \<Rightarrow> string \<Rightarrow> string \<Rightarrow> rat \<Rightarrow> rat list \<Rightarrow> rat \<Rightarrow> rat \<Rightarrow> rat \<Rightarrow> rat \<Rightarrow> alert option" where
  "anomalyAlert tx key lab current samples spikeFactor dropFactor minBaseline minSamples =
     (if of_nat (length samples) < minSamples then None
      else case median samples of
        None \<Rightarrow> None
      | Some base \<Rightarrow>
          if base < minBaseline then None
          else if current \<ge> base * spikeFactor
          then Some \<lparr>al_key = ''anomaly:'' @ key, al_severity = Warn, al_title = ''Traffic spike: '' @ lab,
                     al_body = lab @ '' spike: '' @ num tx current @ '', ~'' @ fixed1 tx (js_div current base) @ ''x the usual ''
                       @ num tx base @ '' for this hour.''\<rparr>
          else if current \<le> base * dropFactor
          then Some \<lparr>al_key = ''anomaly:'' @ key, al_severity = Warn, al_title = ''Traffic drop: '' @ lab,
                     al_body = lab @ '' drop: '' @ num tx current @ '', well below the usual '' @ num tx base
                       @ '' for this hour (possible outage).''\<rparr>
          else None)"

section \<open>Rooms for the probe\<close>

text \<open>
  A range of the fetched map, as far as it is well-typed: a host that is a text, bounds that are
  integers.
\<close>

record raw_range =
  rr_host :: "string option"
  rr_low :: "int option"
  rr_high :: "int option"

definition mapHosts :: "raw_range list \<Rightarrow> string list" where
  "mapHosts rs = fold (\<lambda>r hosts. case rr_host r of
     None \<Rightarrow> hosts | Some h \<Rightarrow> if h \<in> set hosts then hosts else hosts @ [h]) rs []"

definition prefix_ok :: "string \<Rightarrow> bool" where
  "prefix_ok p \<longleftrightarrow> length p = 60 \<and> list_all hex_digit p"

fun hex_rev :: "nat \<Rightarrow> nat \<Rightarrow> string" where
  "hex_rev 0 n = []"
| "hex_rev (Suc fuel) n = hex_char (n mod 16) # (if n < 16 then [] else hex_rev fuel (n div 16))"

text \<open>\<open>n.toString(16).padStart(4, "0")\<close>\<close>

definition show_hex :: "int \<Rightarrow> string" where
  "show_hex i = (if i < 0 then ''-'' else []) @ rev (hex_rev (Suc (nat \<bar>i\<bar>)) (nat \<bar>i\<bar>))"

definition pad4 :: "string \<Rightarrow> string" where
  "pad4 s = replicate (4 - length s) CHR ''0'' @ s"

definition host_ranges :: "raw_range list \<Rightarrow> string \<Rightarrow> (int \<times> int) list" where
  "host_ranges rs h = List.map_filter (\<lambda>r. case (rr_host r, rr_low r, rr_high r) of
     (Some h', Some lo, Some hi) \<Rightarrow> if h' = h \<and> lo \<le> hi then Some (lo, hi) else None | _ \<Rightarrow> None) rs"

definition total_buckets :: "(int \<times> int) list \<Rightarrow> int" where
  "total_buckets rs = foldl (\<lambda>n (lo, hi). n + (hi - lo + 1)) 0 rs"

fun nth_bucket :: "(int \<times> int) list \<Rightarrow> int \<Rightarrow> int option" where
  "nth_bucket [] i = None"
| "nth_bucket ((lo, hi) # rs) i = (if i < hi - lo + 1 then Some (lo + i) else nth_bucket rs (i - (hi - lo + 1)))"

text \<open>\<open>Inl ()\<close> is the thrown error, \<open>Inr None\<close> a host without buckets.\<close>

definition ownedRoomForHost :: "raw_range list \<Rightarrow> string \<Rightarrow> string \<Rightarrow> rat \<Rightarrow> unit + string option" where
  "ownedRoomForHost rs h prefix60 randUnit =
     (if \<not> prefix_ok prefix60 then Inl ()
      else let mine = host_ranges rs h; total = total_buckets mine
           in if total = 0 then Inr None
              else let idx = min (total - 1) (max 0 \<lfloor>randUnit * of_int total\<rfloor>)
                   in Inr (map_option (\<lambda>b. prefix60 @ pad4 (show_hex b)) (nth_bucket mine idx)))"

section \<open>The handshake of the probe\<close>

text \<open>
  The messages the relay sends, parsed; what the probe reads of one. \<open>None\<close> is an end of the
  connection, a timeout or a text that is no JSON: \<open>next()\<close> or the parser throws, with a message.
\<close>

record probe_reply =
  pr_nonce :: "string option"
  pr_ok :: bool
  pr_error :: "string option"

datatype probe_next = Reply "probe_reply option" | Threw string

text \<open>The verdict, the detail, and the number of messages the probe sent.\<close>

definition probeHandshake :: "probe_next \<Rightarrow> probe_next \<Rightarrow> (bool \<times> string) \<times> nat" where
  "probeHandshake first second =
     (case first of
        Threw e \<Rightarrow> ((False, e), 1)
      | Reply r1 \<Rightarrow>
          if (case r1 of None \<Rightarrow> True | Some c \<Rightarrow> pr_nonce c = None)
          then ((False, ''no challenge nonce in reply''), 1)
          else case second of
            Threw e \<Rightarrow> ((False, e), 2)
          | Reply r2 \<Rightarrow>
              if (case r2 of None \<Rightarrow> False | Some c \<Rightarrow> pr_ok c) then ((True, ''mac parked''), 2)
              else ((False, ''admission rejected: '' @
                      (case r2 of None \<Rightarrow> ''unknown''
                       | Some c \<Rightarrow> (case pr_error c of None \<Rightarrow> ''unknown'' | Some e \<Rightarrow> if e = [] then ''unknown'' else e))), 2))"

section \<open>Snapshots and intervals\<close>

type_synonym snap = "(string \<times> rat) list"

definition field :: "string \<Rightarrow> snap \<Rightarrow> rat" where
  "field name s = or_zero (map_of s name)"

record counts =
  requests :: rat
  errors :: rat
  exceptions :: rat
  shardMapFetchErrors :: rat

record gauges =
  socketsLive :: rat
  roomsLive :: rat

definition normalizeSnapshot :: "snap \<Rightarrow> counts \<times> gauges" where
  "normalizeSnapshot s =
     (\<lparr>requests = field ''http_requests_total'' s, errors = field ''http_errors_total'' s,
       exceptions = field ''process_exceptions_total'' s, shardMapFetchErrors = field ''shard_map_fetch_errors_total'' s\<rparr>,
      \<lparr>socketsLive = field ''sockets_live'' s, roomsLive = field ''rooms_live'' s\<rparr>)"

text \<open>
  The match of one exposition line: a name of lower-case letters, digits and underscores, an optional
  label set, at least one blank, and a value without blanks. The name cannot go on into the rest, so
  the greedy match is the only one.
\<close>

definition series_char :: "char \<Rightarrow> bool" where
  "series_char c \<longleftrightarrow> CHR ''a'' \<le> c \<and> c \<le> CHR ''z'' \<or> CHR ''0'' \<le> c \<and> c \<le> CHR ''9'' \<or> c = CHR ''_''"

definition drop_labels :: "string \<Rightarrow> string option" where
  "drop_labels s = (if s \<noteq> [] \<and> hd s = CHR ''{'' then map_option snd (cut CHR ''}'' (tl s)) else Some s)"

definition match_series :: "string \<Rightarrow> (string \<times> string) option" where
  "match_series line =
     (if \<not> prefix ''relay_'' line then None
      else let s = drop 6 line; name = takeWhile series_char s
           in if name = [] then None
              else case drop_labels (dropWhile series_char s) of
                None \<Rightarrow> None
              | Some rest \<Rightarrow>
                  let v = takeWhile (\<lambda>c. \<not> js_space c) (dropWhile js_space rest)
                  in if rest = [] \<or> \<not> js_space (hd rest) \<or> v = [] then None else Some (name, v))"

definition add_series :: "string \<Rightarrow> snap \<Rightarrow> snap" where
  "add_series line out =
     (case match_series (trim line) of
        None \<Rightarrow> out
      | Some (name, v) \<Rightarrow>
          if prefix ''socket_lifetime_seconds'' name then out
          else case js_number v of None \<Rightarrow> out | Some x \<Rightarrow> AList.update name (field name out + x) out)"

definition parseRelayMetrics :: "string \<Rightarrow> unit + snap" where
  "parseRelayMetrics txt =
     (let out = fold add_series (split_on NL txt) [] in if out = [] then Inl () else Inr out)"

record interval =
  reset :: bool
  moved :: counts

definition deltas :: "counts option \<Rightarrow> counts \<Rightarrow> interval" where
  "deltas prev cur =
     (let none = \<lparr>reset = True, moved = \<lparr>requests = 0, errors = 0, exceptions = 0, shardMapFetchErrors = 0\<rparr>\<rparr>
      in case prev of
           None \<Rightarrow> none
         | Some p \<Rightarrow>
             if requests cur < requests p \<or> errors cur < errors p \<or> exceptions cur < exceptions p
                \<or> shardMapFetchErrors cur < shardMapFetchErrors p then none
             else \<lparr>reset = False,
                    moved = \<lparr>requests = requests cur - requests p, errors = errors cur - errors p,
                             exceptions = exceptions cur - exceptions p,
                             shardMapFetchErrors = shardMapFetchErrors cur - shardMapFetchErrors p\<rparr>\<rparr>)"

record hour_counts =
  hr_key :: int
  hr_requests :: rat
  hr_errors :: rat

definition rollHour :: "hour_counts option \<Rightarrow> counts \<Rightarrow> int \<Rightarrow> hour_counts option \<times> hour_counts" where
  "rollHour anchor cur nowHourKey =
     (let seed = \<lparr>hr_key = nowHourKey, hr_requests = requests cur, hr_errors = errors cur\<rparr>
      in case anchor of
           None \<Rightarrow> (None, seed)
         | Some a \<Rightarrow>
             if requests cur < hr_requests a then (None, seed)
             else if nowHourKey = hr_key a then (None, a)
             else (Some \<lparr>hr_key = hr_key a, hr_requests = requests cur - hr_requests a,
                          hr_errors = errors cur - hr_errors a\<rparr>, seed))"

section \<open>Configuration\<close>

text \<open>A variable that is missing, blank or no finite number counts as its default.\<close>

definition env_num :: "string option \<Rightarrow> rat \<Rightarrow> rat" where
  "env_num v d =
     (case v of None \<Rightarrow> d
      | Some s \<Rightarrow> if trim s = [] then d else case js_number s of None \<Rightarrow> d | Some x \<Rightarrow> x)"

record mconfig =
  staleMs :: rat
  probeTimeoutMs :: rat
  socketsCap :: rat
  roomsCap :: rat
  capWarnFrac :: rat
  capCritFrac :: rat
  errorRatio :: rat
  errorMinRequests :: rat
  exceptionThreshold :: rat
  shardFetchThreshold :: rat
  spikeFactor :: rat
  dropFactor :: rat
  minBaseline :: rat
  minSamples :: rat
  maxSamples :: rat
  cooldownMs :: rat
  alertFailStreak :: rat
  pushTimeoutCrit :: rat
  pushFailMinAttempts :: rat
  pushFailRatio :: rat
  peerOutboxStreak :: rat
  peerSkewWarnMs :: rat
  peerSkewCritMs :: rat
  peerSilentMs :: rat

definition parseConfig :: "(string \<Rightarrow> string option) \<Rightarrow> mconfig" where
  "parseConfig env =
     (let min_samples = env_num (env ''MIN_SAMPLES'') 4; max_samples = env_num (env ''MAX_SAMPLES'') 8
      in \<lparr>staleMs = env_num (env ''STALE_MINUTES'') 5 * 60 * 1000,
          probeTimeoutMs = env_num (env ''PROBE_TIMEOUT_MS'') 10000,
          socketsCap = env_num (env ''SOCKETS_CAP'') 200000,
          roomsCap = env_num (env ''ROOMS_CAP'') 200000,
          capWarnFrac = env_num (env ''CAP_WARN_FRAC'') (7 / 10),
          capCritFrac = env_num (env ''CAP_CRIT_FRAC'') (9 / 10),
          errorRatio = env_num (env ''ERROR_RATIO'') (5 / 100),
          errorMinRequests = env_num (env ''ERROR_MIN_REQUESTS'') 100,
          exceptionThreshold = env_num (env ''EXCEPTION_THRESHOLD'') 1,
          shardFetchThreshold = env_num (env ''SHARD_FETCH_THRESHOLD'') 1,
          spikeFactor = env_num (env ''SPIKE_FACTOR'') 3,
          dropFactor = env_num (env ''DROP_FACTOR'') (3 / 10),
          minBaseline = env_num (env ''MIN_BASELINE'') 50,
          minSamples = min_samples,
          maxSamples = max max_samples min_samples,
          cooldownMs = env_num (env ''COOLDOWN_MINUTES'') 360 * 60 * 1000,
          alertFailStreak = max 1 (env_num (env ''ALERT_FAIL_STREAK'') 2),
          pushTimeoutCrit = env_num (env ''PUSH_TIMEOUT_CRIT'') 3,
          pushFailMinAttempts = env_num (env ''PUSH_FAIL_MIN_ATTEMPTS'') 5,
          pushFailRatio = env_num (env ''PUSH_FAIL_RATIO'') (8 / 10),
          peerOutboxStreak = max 1 (env_num (env ''PUSH_PEER_OUTBOX_STREAK'') 3),
          peerSkewWarnMs = env_num (env ''PUSH_PEER_SKEW_WARN_MS'') 2000,
          peerSkewCritMs = env_num (env ''PUSH_PEER_SKEW_CRIT_MS'') 30000,
          peerSilentMs = env_num (env ''PUSH_PEER_SILENT_MS'') (10 * 60 * 1000)\<rparr>)"

section \<open>One analysis\<close>

record analysis =
  an_alerts :: "alert list"
  an_history :: history
  an_lastRecorded :: "int option"

definition interval_alerts :: "texts \<Rightarrow> mconfig \<Rightarrow> interval \<Rightarrow> alert list" where
  "interval_alerts tx cfg iv =
     (if reset iv then []
      else List.map_filter id
        [errorAlert tx (requests (moved iv)) (errors (moved iv)) (errorRatio cfg) (errorMinRequests cfg),
         exceptionAlert tx (exceptions (moved iv)) (exceptionThreshold cfg),
         shardFetchErrorAlert tx (shardMapFetchErrors (moved iv)) (shardFetchThreshold cfg)])"

definition cap_meters :: "mconfig \<Rightarrow> gauges \<Rightarrow> meter list" where
  "cap_meters cfg g =
     [\<lparr>mt_key = ''sockets'', mt_label = ''Live sockets'', used = socketsLive g, cap = socketsCap cfg,
       warnFrac = capWarnFrac cfg, critFrac = capCritFrac cfg, mt_unit = []\<rparr>,
      \<lparr>mt_key = ''rooms'', mt_label = ''Live rooms'', used = roomsLive g, cap = roomsCap cfg,
       warnFrac = capWarnFrac cfg, critFrac = capCritFrac cfg, mt_unit = []\<rparr>]"

definition analyze ::
  "texts \<Rightarrow> mconfig \<Rightarrow> gauges \<Rightarrow> interval \<Rightarrow> hour_counts option \<Rightarrow> history \<Rightarrow> int option \<Rightarrow> analysis" where
  "analyze tx cfg g iv lastHour hist lastRecorded =
     (let base = capAlerts tx (cap_meters cfg g) @ interval_alerts tx cfg iv
      in case lastHour of
           None \<Rightarrow> \<lparr>an_alerts = base, an_history = hist, an_lastRecorded = lastRecorded\<rparr>
         | Some lh \<Rightarrow>
             (let how = hourOfWeek (hr_key lh);
                  an = anomalyAlert tx ''requests'' ''Hourly requests'' (hr_requests lh) (samples_of hist how)
                         (spikeFactor cfg) (dropFactor cfg) (minBaseline cfg) (minSamples cfg);
                  alerts = base @ (case an of None \<Rightarrow> [] | Some a \<Rightarrow> [a])
              in if lastRecorded = Some (hr_key lh)
                 then \<lparr>an_alerts = alerts, an_history = hist, an_lastRecorded = lastRecorded\<rparr>
                 else \<lparr>an_alerts = alerts, an_history = pushSample hist how (hr_requests lh) (maxSamples cfg),
                       an_lastRecorded = Some (hr_key lh)\<rparr>))"

section \<open>Deduplication\<close>

text \<open>
  What is remembered of an alert: when it was last sent, and its latest severity. The object keeps the
  two under the key and the key with \<open>:sev\<close> appended, which no key ends in.
\<close>

type_synonym sent = "(string \<times> int \<times> severity) list"

fun due_loop :: "alert list \<Rightarrow> sent \<Rightarrow> int \<Rightarrow> rat \<Rightarrow> alert list \<times> sent \<Rightarrow> alert list \<times> sent" where
  "due_loop [] prev now cooldown acc = acc"
| "due_loop (a # as) prev now cooldown (due, sentAt) =
     due_loop as prev now cooldown
       (case map_of prev (al_key a) of
          None \<Rightarrow> (due @ [a], AList.update (al_key a) (now, al_severity a) sentAt)
        | Some (last_sent, sev) \<Rightarrow>
            if sev = Warn \<and> al_severity a = Critical \<or> of_int (now - last_sent) \<ge> cooldown
            then (due @ [a], AList.update (al_key a) (now, al_severity a) sentAt)
            else (due, AList.update (al_key a) (last_sent, al_severity a) sentAt))"

definition dueAlerts :: "alert list \<Rightarrow> sent \<Rightarrow> int \<Rightarrow> rat \<Rightarrow> alert list \<times> sent" where
  "dueAlerts alerts prev now cooldown = due_loop alerts prev now cooldown ([], [])"

end
