(* ===== verification/MonitorFacts.thy ===== *)
theory MonitorFacts
  imports Monitor ShardStore "HOL-Library.Sublist"
begin

text \<open>
  What the monitor's checks guarantee: the probe asks every host about rooms it owns, the median
  splits the samples in halves, and baselines reach the size the anomaly check asks for.
\<close>

section \<open>Rooms for the probe\<close>

lemma hex_rev_facts:
  assumes "n < fuel"
  shows "list_all hex_digit (hex_rev fuel n) \<and> hex_rev fuel n \<noteq> [] \<and> parse_hex (rev (hex_rev fuel n)) = n"
  using assms
proof (induction fuel n rule: hex_rev.induct)
  case (2 fuel n)
  show ?case
  proof (cases "n < 16")
    case True
    then show ?thesis by (simp add: parse_hex_def)
  next
    case False
    then have "n div 16 < fuel" using "2.prems" by simp
    from "2.IH" [OF False this] False show ?thesis
      by (simp add: parse_hex_def foldl_append)
  qed
qed simp

lemma hex_rev_length: "n < 16 ^ k \<Longrightarrow> 0 < k \<Longrightarrow> length (hex_rev fuel n) \<le> k"
proof (induction fuel n arbitrary: k rule: hex_rev.induct)
  case (2 fuel n)
  show ?case
  proof (cases "n < 16")
    case False
    with "2.prems" obtain j where k: "k = Suc j" "0 < j" by (cases k; cases "k = 1") auto
    with "2.prems" have "n div 16 < 16 ^ j" by (simp add: less_mult_imp_div_less mult.commute)
    from "2.IH" [OF False this k(2)] False k(1) show ?thesis by simp
  qed (use "2.prems" in simp)
qed simp

lemma parse_hex_zeros: "parse_hex (replicate k CHR ''0'' @ s) = parse_hex s"
proof -
  have "hex_val CHR ''0'' = 0" by (simp add: hex_val_def less_eq_char_def)
  then have "foldl (\<lambda>acc c. acc * 16 + hex_val c) 0 (replicate k CHR ''0'') = 0" by (induction k) simp_all
  then show ?thesis by (simp add: parse_hex_def foldl_append)
qed

lemma built_room:
  assumes "prefix_ok p" "0 \<le> b" "b < N_BUCKETS"
  shows "canonical_room_name (p @ pad4 (show_hex b)) \<and> bucketForRoomName (Some (p @ pad4 (show_hex b))) = Some b"
proof -
  define n where "n = nat b"
  define s where "s = hex_rev (Suc n) n"
  have n: "n < 16 ^ 4" "show_hex b = rev s" "int n = b"
    using assms(2,3) by (simp_all add: n_def s_def N_BUCKETS_def show_hex_def)
  have f: "list_all hex_digit s" "parse_hex (rev s) = n" "length s \<le> 4"
    using hex_rev_facts [of n "Suc n"] hex_rev_length [OF n(1), of "Suc n"] by (simp_all add: s_def)
  have "hex_digit CHR ''0''" by (simp add: hex_digit_def)
  then have "length (pad4 (show_hex b)) = 4" "list_all hex_digit (pad4 (show_hex b))"
    using f by (auto simp: n(2) pad4_def list_all_iff)
  moreover have "parse_hex (pad4 (show_hex b)) = n"
    using f(2) by (simp add: n(2) pad4_def parse_hex_zeros)
  ultimately show ?thesis
    using assms(1) n(3) by (simp add: canonical_room_name_def bucketForRoomName_def prefix_ok_def)
qed

definition raw_of :: "shardmap \<Rightarrow> raw_range list" where
  "raw_of m = map (\<lambda>r. \<lparr>rr_host = Some (host r), rr_low = Some (low r), rr_high = Some (high r)\<rparr>) (ranges m)"

lemma host_ranges_raw:
  assumes "well_formed_map m"
  shows "host_ranges (raw_of m) h = map (\<lambda>r. (low r, high r)) (filter (\<lambda>r. host r = h) (ranges m))"
proof -
  have "\<forall>r \<in> set rs. low r \<le> high r \<Longrightarrow>
      host_ranges (map (\<lambda>r. \<lparr>rr_host = Some (host r), rr_low = Some (low r), rr_high = Some (high r)\<rparr>) rs) h
        = map (\<lambda>r. (low r, high r)) (filter (\<lambda>r. host r = h) rs)" for rs :: "range list"
    by (induction rs) (simp_all add: host_ranges_def List.map_filter_simps)
  then show ?thesis using well_formed_ranges [OF assms] by (simp add: raw_of_def)
qed

lemma total_Cons: "total_buckets ((lo, hi) # rs) = (hi - lo + 1) + total_buckets rs"
proof -
  have "foldl (\<lambda>n (lo, hi). n + (hi - lo + 1)) k rs = k + foldl (\<lambda>n (lo, hi). n + (hi - lo + 1)) (0 :: int) rs" for k
  proof (induction rs arbitrary: k)
    case (Cons r rs)
    obtain a b where "r = (a, b)" by force
    with Cons.IH [of "k + (b - a + 1)"] Cons.IH [of "b - a + 1"] show ?case by simp
  qed simp
  from this [of "hi - lo + 1"] show ?thesis by (simp add: total_buckets_def)
qed

lemma total_nonneg: "\<forall>(lo, hi) \<in> set rs. lo \<le> hi \<Longrightarrow> 0 \<le> total_buckets rs \<and> (total_buckets rs = 0 \<longleftrightarrow> rs = [])"
proof (induction rs)
  case Nil
  show ?case by (simp add: total_buckets_def)
qed (auto simp: total_Cons)

lemma nth_bucket_some:
  "0 \<le> i \<Longrightarrow> i < total_buckets rs \<Longrightarrow> \<exists>b. nth_bucket rs i = Some b \<and> (\<exists>(lo, hi) \<in> set rs. lo \<le> b \<and> b \<le> hi)"
proof (induction rs i rule: nth_bucket.induct)
  case (2 lo hi rs i)
  show ?case
  proof (cases "i < hi - lo + 1")
    case False
    with "2.prems" have "0 \<le> i - (hi - lo + 1)" "i - (hi - lo + 1) < total_buckets rs" by (simp_all add: total_Cons)
    from "2.IH" [OF False this] False show ?thesis by auto
  qed (use "2.prems" in auto)
qed (simp add: total_buckets_def)

lemma nth_bucket_reaches:
  assumes "\<forall>(lo, hi) \<in> set rs. lo \<le> hi" "(lo, hi) \<in> set rs" "lo \<le> b" "b \<le> hi"
  shows "\<exists>i. 0 \<le> i \<and> i < total_buckets rs \<and> nth_bucket rs i = Some b"
  using assms
proof (induction rs)
  case (Cons r rs)
  obtain a c where r: "r = (a, c)" by force
  have ac: "a \<le> c" and nn: "0 \<le> total_buckets rs"
    using Cons.prems(1) r total_nonneg [of rs] by auto
  show ?case
  proof (cases "(lo, hi) = r")
    case True
    with Cons.prems r nn show ?thesis by (intro exI [of _ "b - a"]) (simp add: total_Cons)
  next
    case False
    then obtain i where i: "0 \<le> i" "i < total_buckets rs" "nth_bucket rs i = Some b" using Cons by auto
    with r ac show ?thesis by (intro exI [of _ "i + (c - a + 1)"]) (simp add: total_Cons)
  qed
qed simp

text \<open>
  C26. The probe asks each host about rooms it owns: on a valid map and with a good prefix, a host that
  owns buckets gets a canonical room name whose bucket, by the relay's own derivation, is one of
  them, a host that owns none is skipped, and every owned bucket is reached by some draw from the unit
  interval.
\<close>

theorem probe_room_is_owned:
  assumes "well_formed_map m" "prefix_ok p"
  shows "(case ownedRoomForHost (raw_of m) h p u of
      Inl _ \<Rightarrow> False
    | Inr None \<Rightarrow> ownedBuckets m h = {}
    | Inr (Some room) \<Rightarrow> canonical_room_name room \<and> (\<exists>b \<in> ownedBuckets m h. bucketForRoomName (Some room) = Some b))
    \<and> (\<forall>b \<in> ownedBuckets m h. \<exists>v room. 0 \<le> v \<and> v < 1 \<and> ownedRoomForHost (raw_of m) h p v = Inr (Some room)
         \<and> bucketForRoomName (Some room) = Some b)"
proof -
  define mine where "mine = map (\<lambda>r. (low r, high r)) (filter (\<lambda>r. host r = h) (ranges m))"
  define t where "t = total_buckets mine"
  have le: "\<forall>(lo, hi) \<in> set mine. lo \<le> hi" using well_formed_ranges [OF assms(1)] by (auto simp: mine_def)
  have own: "b \<in> ownedBuckets m h \<longleftrightarrow> (\<exists>(lo, hi) \<in> set mine. lo \<le> b \<and> b \<le> hi)" for b
    by (auto simp: ownedBuckets_iff covers_def mine_def)
  have bucket: "0 \<le> b \<and> b < N_BUCKETS" if "b \<in> ownedBuckets m h" for b
    using that well_formed_ranges [OF assms(1)] by (force simp: ownedBuckets_iff covers_def)
  note tn = total_nonneg [OF le, folded t_def]
  have room: "ownedRoomForHost (raw_of m) h p v =
      (if t = 0 then Inr None
       else Inr (map_option (\<lambda>b. p @ pad4 (show_hex b)) (nth_bucket mine (min (t - 1) (max 0 \<lfloor>v * of_int t\<rfloor>)))))" for v
    using assms(2) by (simp add: ownedRoomForHost_def host_ranges_raw [OF assms(1)] Let_def flip: mine_def t_def)
  show ?thesis
  proof (cases "t = 0")
    case True
    with tn have "mine = []" by blast
    then have "ownedBuckets m h = {}" using own by auto
    with room True show ?thesis by simp
  next
    case False
    with tn have pos: "0 < t" by simp
    let ?i = "min (t - 1) (max 0 \<lfloor>u * of_int t\<rfloor>)"
    obtain b where b: "nth_bucket mine ?i = Some b" "b \<in> ownedBuckets m h"
      using nth_bucket_some [of ?i mine] pos own unfolding t_def by fastforce
    have reach: "\<exists>v r. 0 \<le> v \<and> v < 1 \<and> ownedRoomForHost (raw_of m) h p v = Inr (Some r) \<and> bucketForRoomName (Some r) = Some c"
      if "c \<in> ownedBuckets m h" for c
    proof -
      obtain lo hi where "(lo, hi) \<in> set mine" "lo \<le> c" "c \<le> hi" using \<open>c \<in> ownedBuckets m h\<close> unfolding own by blast
      from nth_bucket_reaches [OF le this] obtain i where i: "0 \<le> i" "i < t" "nth_bucket mine i = Some c"
        unfolding t_def by blast
      let ?v = "(of_int i :: rat) / of_int t"
      have "?v * of_int t = of_int i" using pos by simp
      then have "min (t - 1) (max 0 \<lfloor>?v * of_int t\<rfloor>) = i" using i by simp
      then show ?thesis
        using i False room [of ?v] built_room [OF assms(2)] bucket [OF that]
        by (intro exI [of _ ?v] exI [of _ "p @ pad4 (show_hex c)"]) simp
    qed
    have "canonical_room_name (p @ pad4 (show_hex b)) \<and> bucketForRoomName (Some (p @ pad4 (show_hex b))) = Some b"
      using built_room [OF assms(2)] bucket [OF b(2)] by blast
    with b False reach show ?thesis unfolding room [of u] by auto
  qed
qed

theorem probe_room_is_owned_witness:
  "\<exists>b \<in> ownedBuckets demo_map ''b''. \<exists>room. ownedRoomForHost (raw_of demo_map) ''b'' (replicate 60 CHR ''a'') 0 = Inr (Some room)
     \<and> bucketForRoomName (Some room) = Some b"
proof -
  have w: "well_formed_map demo_map" by (simp add: well_formed_map_def demo_map_valid)
  have p: "prefix_ok (replicate 60 CHR ''a'')" by code_simp
  have "40000 \<in> ownedBuckets demo_map ''b''" by (simp add: ownedBuckets_iff demo_map_def covers_def)
  with probe_room_is_owned [OF w p, of "''b''" 0] show ?thesis
    by (auto split: sum.splits option.splits)
qed

section \<open>Baselines\<close>

lemma sorted_split:
  assumes "sorted xs" "k < length xs"
  shows "Suc k \<le> length (filter (\<lambda>x. x \<le> xs ! k) xs)" "length xs - k \<le> length (filter (\<lambda>x. xs ! k \<le> x) xs)"
proof -
  have "filter (\<lambda>x. x \<le> xs ! k) (take (Suc k) xs) = take (Suc k) xs"
    using assms by (intro filter_True) (auto simp: in_set_conv_nth sorted_nth_mono)
  then have "length (filter (\<lambda>x. x \<le> xs ! k) (take (Suc k) xs @ drop (Suc k) xs)) \<ge> length (take (Suc k) xs)"
    by (simp only: filter_append length_append)
  then show "Suc k \<le> length (filter (\<lambda>x. x \<le> xs ! k) xs)" using assms(2) by simp
  have "filter (\<lambda>x. xs ! k \<le> x) (drop k xs) = drop k xs"
    using assms by (intro filter_True) (auto simp: in_set_conv_nth sorted_nth_mono)
  then have "length (filter (\<lambda>x. xs ! k \<le> x) (take k xs @ drop k xs)) \<ge> length (drop k xs)"
    by (simp only: filter_append length_append)
  then show "length xs - k \<le> length (filter (\<lambda>x. xs ! k \<le> x) xs)" by simp
qed

lemma length_filter_sort: "length (filter P (sort xs)) = length (filter P (xs :: rat list))"
  by (metis mset_filter mset_sort size_mset)

text \<open>
  The baseline is a median: of a non-empty list of samples, at least half are at most it and at
  least half are at least it; without samples there is none.
\<close>

theorem median_halves:
  "case median nums of
     None \<Rightarrow> nums = []
   | Some m \<Rightarrow> length nums \<le> 2 * length (filter (\<lambda>x. x \<le> m) nums) \<and> length nums \<le> 2 * length (filter (\<lambda>x. m \<le> x) nums)"
proof (cases "nums = []")
  case False
  define s where "s = sort nums"
  define k where "k = length s div 2"
  have s: "sorted s" "length s = length nums" by (simp_all add: s_def)
  have k: "k < length s" using False s(2) by (cases "length s") (simp_all add: k_def)
  have len: "length (filter P nums) = length (filter P s)" for P by (simp add: s_def length_filter_sort)
  show ?thesis
  proof (cases "odd (length s)")
    case True
    then have "median nums = Some (s ! k)" using False by (simp add: median_def s_def k_def Let_def)
    moreover have "length s = 2 * k + 1" using True by (simp add: k_def)
    ultimately show ?thesis using sorted_split [OF s(1) k] by (simp add: len s(2) [symmetric])
  next
    case even: False
    define m where "m = (s ! (k - 1) + s ! k) / 2"
    have k2: "length s = 2 * k" using even by (simp add: k_def)
    with k have pos: "0 < k" by simp
    have k1: "k - 1 < length s" using k by simp
    have "s ! (k - 1) \<le> s ! k" using s(1) k by (simp add: sorted_nth_mono)
    then have le: "s ! (k - 1) \<le> m" "m \<le> s ! k" by (simp_all add: m_def)
    have "filter (\<lambda>x. x \<le> s ! (k - 1)) s = filter (\<lambda>x. x \<le> s ! (k - 1)) (filter (\<lambda>x. x \<le> m) s)"
      "filter (\<lambda>x. s ! k \<le> x) s = filter (\<lambda>x. s ! k \<le> x) (filter (\<lambda>x. m \<le> x) s)"
      using le by (auto intro!: filter_cong)
    then have "length (filter (\<lambda>x. x \<le> s ! (k - 1)) s) \<le> length (filter (\<lambda>x. x \<le> m) s)"
      "length (filter (\<lambda>x. s ! k \<le> x) s) \<le> length (filter (\<lambda>x. m \<le> x) s)"
      by (metis length_filter_le)+
    moreover have "median nums = Some m" using False even by (simp add: median_def m_def s_def k_def Let_def)
    ultimately show ?thesis
      using sorted_split(1) [OF s(1) k1] sorted_split(2) [OF s(1) k] k k2 pos
      by (simp add: len s(2) [symmetric])
  qed
qed (simp add: median_def)

text \<open>Recording one hour of the week again and again.\<close>

definition record_hour :: "mconfig \<Rightarrow> int \<Rightarrow> rat list \<Rightarrow> history \<Rightarrow> history" where
  "record_hour cfg how vs h = fold (\<lambda>v h. pushSample h how v (maxSamples cfg)) vs h"

lemma samples_push:
  "samples_of (pushSample h how v k) how' = (if how' = how then js_slice (- k) (samples_of h how @ [v]) else samples_of h how')"
  by (simp add: samples_of_def pushSample_def update_conv')

lemma slice_last:
  assumes "1 \<le> k"
  shows "js_slice (- k) xs = drop (length xs - nat \<lfloor>k\<rfloor>) xs"
proof -
  define j where "j = nat \<lfloor>k\<rfloor>"
  have j: "\<lfloor>k\<rfloor> = int j" "1 \<le> j" using assms by (simp_all add: j_def le_nat_iff)
  have "js_trunc (- k) = - int j" using assms j by (simp add: js_trunc_def ceiling_def)
  moreover have "nat (max 0 (int (length xs) - int j)) = length xs - j" by simp
  ultimately show ?thesis using j by (simp add: js_slice_def Let_def)
qed

lemma recorded_tail:
  assumes "1 \<le> maxSamples cfg" "length (samples_of h how) \<le> nat \<lfloor>maxSamples cfg\<rfloor>"
  shows "samples_of (record_hour cfg how vs h) how
    = drop (length (samples_of h how @ vs) - nat \<lfloor>maxSamples cfg\<rfloor>) (samples_of h how @ vs)"
proof (induction vs rule: rev_induct)
  case Nil
  with assms(2) show ?case by (simp add: record_hour_def)
next
  case (snoc v vs)
  let ?k = "nat \<lfloor>maxSamples cfg\<rfloor>" and ?xs = "samples_of h how @ vs"
  have "samples_of (record_hour cfg how (vs @ [v]) h) how
      = js_slice (- maxSamples cfg) (samples_of (record_hour cfg how vs h) how @ [v])"
    by (simp add: record_hour_def samples_push)
  also have "\<dots> = drop (length (drop (length ?xs - ?k) ?xs @ [v]) - ?k) (drop (length ?xs - ?k) ?xs @ [v])"
    by (simp add: snoc.IH slice_last [OF assms(1)])
  also have "\<dots> = drop (length (?xs @ [v]) - ?k) (?xs @ [v])"
  proof (cases "length ?xs \<le> ?k")
    case False
    then have one: "length (drop (length ?xs - ?k) ?xs @ [v]) - ?k = 1" and n: "length (?xs @ [v]) - ?k = 1 + (length ?xs - ?k)"
      by simp_all
    have "drop (1 + (length ?xs - ?k)) (?xs @ [v]) = drop 1 (drop (length ?xs - ?k) (?xs @ [v]))" by (simp only: drop_drop)
    also have "drop (length ?xs - ?k) (?xs @ [v]) = drop (length ?xs - ?k) ?xs @ [v]" by simp
    finally show ?thesis unfolding one n by (rule sym)
  qed simp
  finally show ?case by simp
qed

text \<open>
  Anomaly detection is never silently dead: with a whole number of required samples, from the
  environment whatever it says, once that many hours of a week slot have been recorded the baseline
  has the required size, it consists of the latest recorded values, and the check decides by its
  median exactly as specified.
\<close>

theorem baseline_fills:
  assumes "minSamples (parseConfig env) = of_nat k" "1 \<le> k" "k \<le> length vs" "samples_of h how = []"
  defines "cfg \<equiv> parseConfig env"
  defines "xs \<equiv> samples_of (record_hour cfg how vs h) how"
  shows "k \<le> length xs \<and> suffix xs vs
    \<and> (\<exists>base. median xs = Some base
        \<and> (anomalyAlert tx key lab cur xs (spikeFactor cfg) (dropFactor cfg) (minBaseline cfg) (minSamples cfg) \<noteq> None
           \<longleftrightarrow> minBaseline cfg \<le> base \<and> (base * spikeFactor cfg \<le> cur \<or> cur \<le> base * dropFactor cfg)))"
proof -
  have "minSamples cfg \<le> maxSamples cfg" by (simp add: cfg_def parseConfig_def Let_def)
  then have mx: "of_nat k \<le> maxSamples cfg" using assms(1) by (simp add: cfg_def)
  moreover have "(1 :: rat) \<le> of_nat k" using assms(2) by simp
  ultimately have "1 \<le> maxSamples cfg" by linarith
  then have xs: "xs = drop (length vs - nat \<lfloor>maxSamples cfg\<rfloor>) vs"
    using recorded_tail [of cfg h how vs] assms(4) by (simp add: xs_def)
  have "int k \<le> \<lfloor>maxSamples cfg\<rfloor>" using mx by (simp add: le_floor_iff)
  then have len: "k \<le> length xs" using assms(3) by (simp add: xs)
  then have ne: "xs \<noteq> []" using assms(2) by auto
  then obtain base where base: "median xs = Some base" by (cases "median xs") (auto simp: median_def Let_def)
  have "of_nat k \<le> (of_nat (length xs) :: rat)" using len by simp
  then have "\<not> of_nat (length xs) < minSamples cfg" using assms(1) by (simp add: cfg_def)
  then have "anomalyAlert tx key lab cur xs (spikeFactor cfg) (dropFactor cfg) (minBaseline cfg) (minSamples cfg) \<noteq> None
      \<longleftrightarrow> minBaseline cfg \<le> base \<and> (base * spikeFactor cfg \<le> cur \<or> cur \<le> base * dropFactor cfg)"
    using base by (auto simp: anomalyAlert_def)
  with len base show ?thesis using xs suffix_drop by auto
qed

theorem baseline_fills_witness:
  "4 \<le> length (samples_of (record_hour (parseConfig Map.empty) 5 [1, 2, 3, 4] []) 5)"
proof -
  have m: "minSamples (parseConfig Map.empty) = of_nat 4" by (simp add: parseConfig_def env_num_def Let_def)
  have "samples_of [] 5 = []" by (simp add: samples_of_def)
  with baseline_fills [OF m, of "[1, 2, 3, 4]" "[]" 5] show ?thesis by simp
qed

text \<open>A fractional number of required samples can still never be reached.\<close>

lemma fractional_minimum_dead:
  assumes "env ''MIN_SAMPLES'' = Some ''4.5''" "env ''MAX_SAMPLES'' = Some ''4''"
    and "length (samples_of h how) \<le> 4"
  shows "anomalyAlert tx key lab cur (samples_of (record_hour (parseConfig env) how vs h) how) sf df mb
    (minSamples (parseConfig env)) = None"
proof -
  have n: "js_number ''4.5'' = Some (9 / 2)" "trim ''4.5'' \<noteq> []" "js_number ''4'' = Some 4" "trim ''4'' \<noteq> []" by code_simp+
  have c: "minSamples (parseConfig env) = 9 / 2" "maxSamples (parseConfig env) = 9 / 2"
    by (simp_all add: parseConfig_def env_num_def assms n Let_def)
  have f: "\<lfloor>9 / 2 :: rat\<rfloor> = 4" by (simp add: floor_unique)
  have "length (samples_of (record_hour (parseConfig env) how vs h) how) \<le> 4"
    using recorded_tail [of "parseConfig env" h how vs] assms(3) by (simp add: c f)
  then have "of_nat (length (samples_of (record_hour (parseConfig env) how vs h) how)) \<le> (4 :: rat)"
    by (metis of_nat_le_iff of_nat_numeral)
  then show ?thesis by (simp add: anomalyAlert_def c)
qed

end
