(* ===== verification/MonitorPush.thy ===== *)
theory MonitorPush
  imports Monitor Bytes
begin

text \<open>
  The monitor's view of the push relays, \<^verbatim>\<open>monitor/src/monitor.js\<close> from \<open>pushRelaysFromEnv\<close> on:
  which ones to watch, what is read from their metrics, and the alerts on an interval and on the
  peering of two instances. The environment maps a variable to its text; an empty text is falsy.
\<close>

section \<open>Which relays\<close>

definition nonempty :: "string option \<Rightarrow> string option" where
  "nonempty v = (case v of None \<Rightarrow> None | Some s \<Rightarrow> if s = [] then None else Some s)"

definition or_else :: "'a option \<Rightarrow> 'a \<Rightarrow> 'a" where
  "or_else v d = (case v of None \<Rightarrow> d | Some x \<Rightarrow> x)"

record push_target =
  pt_index :: nat
  pt_label :: string
  metricsUrl :: string
  metricsAuth :: "string option"
  probeUrl :: "string option"
  dashboardUrl :: "string option"

definition basic_auth :: "string \<Rightarrow> string" where
  "basic_auth s = ''Basic '' @ b64 (utf8_encode s)"

definition push_target_of :: "(string \<Rightarrow> string option) \<Rightarrow> nat \<Rightarrow> push_target option" where
  "push_target_of env n =
     (let p = (if n = 1 then ''PUSH_'' else ''PUSH'' @ show_nat n @ ''_'');
          var = (\<lambda>name. nonempty (env (p @ name)))
      in map_option (\<lambda>url.
           \<lparr>pt_index = n, pt_label = or_else (var ''HOST_LABEL'') (if n = 1 then ''push'' else ''push'' @ show_nat n),
            metricsUrl = url, metricsAuth = map_option basic_auth (var ''METRICS_BASIC_AUTH''),
            probeUrl = var ''PROBE_URL'', dashboardUrl = var ''DASHBOARD_URL''\<rparr>) (var ''METRICS_URL''))"

definition pushRelaysFromEnv :: "(string \<Rightarrow> string option) \<Rightarrow> push_target list" where
  "pushRelaysFromEnv env = List.map_filter (push_target_of env) [1..<10]"

section \<open>Their metrics\<close>

definition PUSH_AUTH_REASONS :: "string list" where
  "PUSH_AUTH_REASONS =
     [''ExpiredProviderToken'', ''InvalidProviderToken'', ''MissingProviderToken'', ''BadEnvironmentKeyInToken'']"

record push_counters =
  pushes :: rat
  delivered :: rat
  failed :: rat
  timeouts :: rat
  authRejects :: rat

record push_gauges =
  sessions :: rat
  devices :: rat
  lastDeliveryTs :: rat

record push_peer =
  outbox :: rat
  skewMs :: rat
  dropped :: rat
  rejected :: rat
  lastOkTs :: rat
  hasLastOk :: bool

record push_reading =
  rd_counters :: push_counters
  rd_gauges :: push_gauges
  rd_peer :: push_peer
  peerConfigured :: bool

text \<open>The match of one line: name, label set with its braces, and a value up to the end.\<close>

definition in_span :: "char \<Rightarrow> char \<Rightarrow> char \<Rightarrow> bool" where
  "in_span lo hi c \<longleftrightarrow> lo \<le> c \<and> c \<le> hi"

definition push_name_start :: "char \<Rightarrow> bool" where
  "push_name_start c \<longleftrightarrow> c \<in> set ''_:'' \<or> in_span CHR ''A'' CHR ''Z'' c \<or> in_span CHR ''a'' CHR ''z'' c"

definition push_name_char :: "char \<Rightarrow> bool" where
  "push_name_char c \<longleftrightarrow> is_digit c \<or> push_name_start c"

definition take_labels :: "string \<Rightarrow> (string \<times> string) option" where
  "take_labels s =
     (if s \<noteq> [] \<and> hd s = CHR ''{''
      then map_option (\<lambda>(inner, rest). (''{'' @ inner @ ''}'', rest)) (cut CHR ''}'' (tl s))
      else Some ([], s))"

definition match_push :: "string \<Rightarrow> (string \<times> string \<times> string) option" where
  "match_push line =
     (let name = takeWhile push_name_char line
      in if name = [] \<or> \<not> push_name_start (hd name) then None
         else case take_labels (dropWhile push_name_char line) of
           None \<Rightarrow> None
         | Some (labels, rest) \<Rightarrow>
             let v = dropWhile js_space rest
             in if rest = [] \<or> \<not> js_space (hd rest) \<or> v = [] \<or> list_ex js_space v then None
                else Some (name, labels, v))"

definition zero_reading :: push_reading where
  "zero_reading =
     \<lparr>rd_counters = \<lparr>pushes = 0, delivered = 0, failed = 0, timeouts = 0, authRejects = 0\<rparr>,
      rd_gauges = \<lparr>sessions = 0, devices = 0, lastDeliveryTs = 0\<rparr>,
      rd_peer = \<lparr>outbox = 0, skewMs = 0, dropped = 0, rejected = 0, lastOkTs = 0, hasLastOk = False\<rparr>,
      peerConfigured = False\<rparr>"

text \<open>The tables \<open>plain\<close> and \<open>peerSeries\<close>, with the assignment each entry stands for.\<close>

definition PUSH_SERIES :: "(string \<times> (rat \<Rightarrow> push_reading \<Rightarrow> push_reading)) list" where
  "PUSH_SERIES =
    [(''pushrelay_push_total'', \<lambda>v r. r\<lparr>rd_counters := rd_counters r\<lparr>pushes := v\<rparr>\<rparr>),
     (''pushrelay_push_delivered_total'', \<lambda>v r. r\<lparr>rd_counters := rd_counters r\<lparr>delivered := v\<rparr>\<rparr>),
     (''pushrelay_push_failed_total'', \<lambda>v r. r\<lparr>rd_counters := rd_counters r\<lparr>failed := v\<rparr>\<rparr>),
     (''pushrelay_apns_request_timeouts_total'', \<lambda>v r. r\<lparr>rd_counters := rd_counters r\<lparr>timeouts := v\<rparr>\<rparr>),
     (''pushrelay_apns_sessions'', \<lambda>v r. r\<lparr>rd_gauges := rd_gauges r\<lparr>sessions := v\<rparr>\<rparr>),
     (''pushrelay_devices'', \<lambda>v r. r\<lparr>rd_gauges := rd_gauges r\<lparr>devices := v\<rparr>\<rparr>),
     (''pushrelay_last_delivery_timestamp_seconds'', \<lambda>v r. r\<lparr>rd_gauges := rd_gauges r\<lparr>lastDeliveryTs := v\<rparr>\<rparr>)]"

definition PEER_SERIES :: "(string \<times> (rat \<Rightarrow> push_reading \<Rightarrow> push_reading)) list" where
  "PEER_SERIES =
    [(''pushrelay_peer_outbox'', \<lambda>v r. r\<lparr>rd_peer := rd_peer r\<lparr>outbox := v\<rparr>, peerConfigured := True\<rparr>),
     (''pushrelay_peer_clock_skew_ms'', \<lambda>v r. r\<lparr>rd_peer := rd_peer r\<lparr>skewMs := v\<rparr>\<rparr>),
     (''pushrelay_peer_forward_dropped_total'', \<lambda>v r. r\<lparr>rd_peer := rd_peer r\<lparr>dropped := v\<rparr>\<rparr>),
     (''pushrelay_peer_rejected_total'', \<lambda>v r. r\<lparr>rd_peer := rd_peer r\<lparr>rejected := v\<rparr>\<rparr>),
     (''pushrelay_peer_last_ok_timestamp_seconds'', \<lambda>v r. r\<lparr>rd_peer := rd_peer r\<lparr>lastOkTs := v, hasLastOk := True\<rparr>\<rparr>)]"

definition absorb_push_line :: "string \<Rightarrow> push_reading \<Rightarrow> push_reading" where
  "absorb_push_line raw r =
     (let line = trim raw
      in if line = [] \<or> hd line = CHR ''#'' then r
         else case match_push line of
           None \<Rightarrow> r
         | Some (name, labels, v) \<Rightarrow>
             (case js_number v of
                None \<Rightarrow> r
              | Some x \<Rightarrow>
                  if labels = [] \<and> map_of (PUSH_SERIES @ PEER_SERIES) name \<noteq> None
                  then (case map_of (PUSH_SERIES @ PEER_SERIES) name of None \<Rightarrow> r | Some set_it \<Rightarrow> set_it x r)
                  else if name = ''pushrelay_apns_rejected_total''
                  then (case label ''reason'' labels of
                          None \<Rightarrow> r
                        | Some reason \<Rightarrow>
                            if reason \<in> set PUSH_AUTH_REASONS
                            then r\<lparr>rd_counters := rd_counters r\<lparr>authRejects := authRejects (rd_counters r) + x\<rparr>\<rparr>
                            else r)
                  else r))"

text \<open>\<open>parsePushMetrics\<close>: counters, gauges and, if the outbox was exported, the peering.\<close>

definition read_push_metrics :: "string \<Rightarrow> push_counters \<times> push_gauges \<times> push_peer option" where
  "read_push_metrics txt =
     (let r = fold absorb_push_line (split_on NL txt) zero_reading
      in (rd_counters r, rd_gauges r, if peerConfigured r then Some (rd_peer r) else None))"

definition pushDeltas :: "push_counters option \<Rightarrow> push_counters \<Rightarrow> push_counters option" where
  "pushDeltas prev cur =
     (case prev of
        None \<Rightarrow> None
      | Some p \<Rightarrow>
          if pushes cur < pushes p \<or> delivered cur < delivered p \<or> failed cur < failed p
             \<or> timeouts cur < timeouts p \<or> authRejects cur < authRejects p then None
          else Some \<lparr>pushes = pushes cur - pushes p, delivered = delivered cur - delivered p,
                     failed = failed cur - failed p, timeouts = timeouts cur - timeouts p,
                     authRejects = authRejects cur - authRejects p\<rparr>)"

section \<open>Alerts\<close>

definition when_alert :: "bool \<Rightarrow> alert \<Rightarrow> alert list" where
  "when_alert b a = (if b then [a] else [])"

definition pushAlerts :: "texts \<Rightarrow> mconfig \<Rightarrow> push_counters option \<Rightarrow> alert list" where
  "pushAlerts tx cfg interval =
     (case interval of
        None \<Rightarrow> []
      | Some i \<Rightarrow>
          (let attempts = delivered i + failed i
           in when_alert (timeouts i \<ge> 1)
                \<lparr>al_key = ''apns_timeouts'',
                 al_severity = (if timeouts i \<ge> pushTimeoutCrit cfg \<or> delivered i = 0 then Critical else Warn),
                 al_title = ''APNs timeouts: '' @ num tx (timeouts i),
                 al_body = num tx (timeouts i) @ '' push request(s) got no answer from Apple since the last check ''
                   @ ''('' @ num tx (delivered i) @ '' delivered). The connection to APNs may be stuck.''\<rparr>
              @ when_alert (authRejects i \<ge> 1)
                \<lparr>al_key = ''apns_auth'', al_severity = Critical, al_title = ''APNs rejecting our signing key'',
                 al_body = ''Apple rejected '' @ num tx (authRejects i) @ '' push(es) as a provider-token/key problem since the ''
                   @ ''last check. Every push fails until the key (or its environment scope) is fixed.''\<rparr>
              @ when_alert (attempts \<ge> pushFailMinAttempts cfg
                  \<and> (case js_div (failed i) attempts of
                       None \<Rightarrow> failed i > 0 | Some q \<Rightarrow> q \<ge> pushFailRatio cfg))
                \<lparr>al_key = ''push_failures'', al_severity = Warn,
                 al_title = ''Push delivery failing ('' @ num tx (failed i) @ ''/'' @ num tx attempts @ '')'',
                 al_body = num tx (failed i) @ '' of '' @ num tx attempts
                   @ '' pushes that reached APNs handling failed since the last check.''\<rparr>))"

text \<open>
  \<open>outboxStreak\<close> is the number of ticks in a row with a non-empty outbox, \<open>never\<close> the time the monitor
  first saw that the peer has not answered.
\<close>

definition peer_silence :: "push_peer \<Rightarrow> int \<Rightarrow> int option \<Rightarrow> rat" where
  "peer_silence p now never =
     (if lastOkTs p > 0 then of_int now - lastOkTs p * 1000 else of_int (now - or_else never now))"

definition peer_drops :: "texts \<Rightarrow> push_peer \<Rightarrow> push_peer \<Rightarrow> alert list" where
  "peer_drops tx p q =
     (let d = dropped p - dropped q; j = rejected p - rejected q
      in when_alert (d > 0)
           \<lparr>al_key = ''peer_dropped'', al_severity = Warn,
            al_title = ''Push relay peer refused '' @ num tx d @ '' record(s)'',
            al_body = ''The other push relay rejected '' @ num tx d @ '' registration(s) as malformed since the last ''
              @ ''check, so they were dropped. The two instances may be running different code.''\<rparr>
         @ when_alert (j > 0)
           \<lparr>al_key = ''peer_rejected'', al_severity = Warn,
            al_title = ''Push relay refused '' @ num tx j @ '' peer request(s)'',
            al_body = num tx j @ '' request(s) to /peer/register were refused since the last check: a wrong ''
              @ ''secret or malformed body (a PUSH_PEER_SECRET mismatch, or someone probing the endpoint), or ''
              @ ''records from a peer whose clock is more than an hour off.''\<rparr>)"

definition peerAlerts ::
  "texts \<Rightarrow> mconfig \<Rightarrow> push_peer option \<Rightarrow> push_peer option \<Rightarrow> nat \<Rightarrow> int \<Rightarrow> int option \<Rightarrow> alert list" where
  "peerAlerts tx cfg peer prevPeer outboxStreak now never =
     (case peer of
        None \<Rightarrow> []
      | Some p \<Rightarrow>
          when_alert (hasLastOk p \<and> peer_silence p now never \<ge> peerSilentMs cfg)
            \<lparr>al_key = ''peer_silent'', al_severity = Warn, al_title = ''Push relay peer not answering'',
             al_body = (if lastOkTs p > 0
                 then ''The other push relay last answered '' @ show_int (js_round (peer_silence p now never / 60000)) @ '' min ago.''
                 else ''The other push relay hasn'' @ [CHR 0x27] @ ''t answered since this one started.'')
               @ '' Pushes still work through this one, but there'' @ [CHR 0x27] @ ''s no failover. Check that the peer is up and ''
               @ ''PUSH_PEER_URL / PUSH_PEER_SECRET match.''\<rparr>
          @ when_alert (of_nat outboxStreak \<ge> peerOutboxStreak cfg)
            \<lparr>al_key = ''peer_outbox'', al_severity = Warn,
             al_title = ''Push relay peer not receiving ('' @ num tx (outbox p) @ '' queued)'',
             al_body = num tx (outbox p) @ '' registration(s) have been waiting to reach the other push relay for ''
               @ show_nat outboxStreak @ '' checks. Pushes still work through this one, but devices that register here ''
               @ ''can'' @ [CHR 0x27] @ ''t fail over. Check that the peer is up and PUSH_PEER_URL / PUSH_PEER_SECRET match.''\<rparr>
          @ when_alert (\<bar>skewMs p\<bar> \<ge> peerSkewWarnMs cfg)
            \<lparr>al_key = ''peer_skew'', al_severity = (if \<bar>skewMs p\<bar> \<ge> peerSkewCritMs cfg then Critical else Warn),
             al_title = ''Push relay clocks differ by '' @ fixed1 tx (Some (skewMs p / 1000)) @ ''s'',
             al_body = ''The other push relay'' @ [CHR 0x27] @ ''s clock differs from this one'' @ [CHR 0x27] @ ''s by ''
               @ num tx (skewMs p) @ ''ms. Registrations ''
               @ ''are ordered by these clocks, so a large difference can let an old secret replace a re-paired ''
               @ ''one. Check NTP (timedatectl) on both hosts.''\<rparr>
          @ (case prevPeer of None \<Rightarrow> [] | Some q \<Rightarrow> peer_drops tx p q))"

end
