(* ===== verification/MonitorCore.thy ===== *)
theory MonitorCore
  imports MonitorPush
begin

text \<open>
  One tick of the monitor and its pull mode, \<^verbatim>\<open>monitor/src/core.js\<close>. What \<open>run\<close> gets injected
  (store, map, probes, scrapes) is a record of functions, its answers of this tick; a function that
  throws answers \<open>Inl\<close> with the message, which is not empty; the map may be a JSON null, and nothing else
  of it is validated. Host names are not array indices, so an object keeps them
  in insertion order.
\<close>

section \<open>State\<close>

record host_state =
  hs_prev :: "counts option"
  hourAnchor :: "hour_counts option"
  hs_history :: history
  lastRecordedHour :: "int option"
  livenessFailStreak :: nat
  hs_probeFailStreak :: nat

definition no_host_state :: host_state where
  "no_host_state =
     \<lparr>hs_prev = None, hourAnchor = None, hs_history = [], lastRecordedHour = None, livenessFailStreak = 0,
      hs_probeFailStreak = 0\<rparr>"

record push_state =
  ps_prev :: "push_counters option"
  prevPeer :: "push_peer option"
  ps_outboxStreak :: nat
  peerNeverSince :: "int option"
  scrapeFailStreak :: nat
  ps_probeFailStreak :: nat

definition no_push_state :: push_state where
  "no_push_state =
     \<lparr>ps_prev = None, prevPeer = None, ps_outboxStreak = 0, peerNeverSince = None, scrapeFailStreak = 0, ps_probeFailStreak = 0\<rparr>"

text \<open>\<open>oldPush\<close> is the field \<open>push\<close> of states written before there were several push relays.\<close>

record mstate =
  st_hosts :: "(string \<times> host_state) list"
  mapFailStreak :: nat
  st_pushes :: "(string \<times> push_state) list"
  oldPush :: "push_state option"
  st_sentAt :: sent

definition no_mstate :: mstate where
  "no_mstate = \<lparr>st_hosts = [], mapFailStreak = 0, st_pushes = [], oldPush = None, st_sentAt = []\<rparr>"

record fleet_map =
  fm_version :: "int option"
  fm_ranges :: "raw_range list"

record latest =
  receivedAt :: int
  lt_snapshot :: snap

record probe_result =
  ok :: bool
  detail :: string

record world =
  kv_latest :: "string \<Rightarrow> latest option"
  fetchMap :: "string \<Rightarrow> string + fleet_map option"
  roomForHost :: "fleet_map \<Rightarrow> string \<Rightarrow> string option"
  probeOne :: "string \<Rightarrow> rat \<Rightarrow> string option \<Rightarrow> probe_result"
  scrapePush :: "string \<Rightarrow> string option \<Rightarrow> string + string"
  probePush :: "string \<Rightarrow> rat \<Rightarrow> probe_result"
  sendEmail :: "alert list \<Rightarrow> bool"
  urlHost :: "string \<Rightarrow> string option"

section \<open>Names\<close>

definition LATEST_KEY :: string where "LATEST_KEY = ''latest''"

definition DIRECT_HOST :: string where "DIRECT_HOST = ''__direct__''"

definition latestKeyFor :: "string \<Rightarrow> string" where
  "latestKeyFor h = (if h = DIRECT_HOST then LATEST_KEY else ''latest:'' @ h)"

definition hostAlert :: "string \<Rightarrow> bool \<Rightarrow> alert \<Rightarrow> alert" where
  "hostAlert h fleet a =
     (if \<not> fleet then a
      else a\<lparr>al_key := h @ ''|'' @ al_key a, al_title := ''['' @ h @ ''] '' @ al_title a\<rparr>)"

definition hostOf :: "world \<Rightarrow> string \<Rightarrow> string" where
  "hostOf w url = or_else (urlHost w url) ''relay''"

definition ownedBucketCount :: "fleet_map \<Rightarrow> string \<Rightarrow> int" where
  "ownedBucketCount m h =
     foldl (\<lambda>n r. case (rr_host r, rr_low r, rr_high r) of
         (Some h', Some lo, Some hi) \<Rightarrow> if h' = h \<and> lo \<le> hi then n + (hi - lo + 1) else n | _ \<Rightarrow> n) 0 (fm_ranges m)"

definition mapHostsFrom :: "fleet_map \<Rightarrow> string list" where
  "mapHostsFrom m = mapHosts (fm_ranges m)"

section \<open>One host\<close>

datatype status = Ok_st | Warn_st | Crit_st

record summary =
  sm_host :: string
  sm_status :: status
  sm_ageMs :: "int option"
  sm_sockets :: "rat option"
  sm_rooms :: "rat option"
  sm_buckets :: "int option"
  sm_probeOk :: "bool option"
  sm_reasons :: "string list"

definition stale :: "mconfig \<Rightarrow> int \<Rightarrow> latest option \<Rightarrow> bool" where
  "stale cfg now lt = (case lt of None \<Rightarrow> True | Some l \<Rightarrow> of_int (now - receivedAt l) > staleMs cfg)"

text \<open>The push side: raised alerts, reasons, the gauges, and the next state of the host.\<close>

definition push_side ::
  "texts \<Rightarrow> mconfig \<Rightarrow> bool \<Rightarrow> string \<Rightarrow> int \<Rightarrow> latest option \<Rightarrow> host_state \<Rightarrow>
   (alert list \<times> string list) \<times> gauges option \<times> host_state" where
  "push_side tx cfg fleet h now lt hs =
     (if stale cfg now lt
      then let a = livenessAlert (case lt of
                     None \<Rightarrow> ''no snapshot received yet''
                   | Some l \<Rightarrow> ''no snapshot for '' @ show_int (js_round (of_int (now - receivedAt l) / 60000)) @ '' min'');
               k = livenessFailStreak hs + 1
           in ((if of_nat k \<ge> alertFailStreak cfg then [hostAlert h fleet a] else [], [al_key a]), None,
               hs\<lparr>livenessFailStreak := k\<rparr>)
      else case normalizeSnapshot (case lt of None \<Rightarrow> [] | Some l \<Rightarrow> lt_snapshot l) of (cs, g) \<Rightarrow>
        case rollHour (hourAnchor hs) cs (hourKey now) of (lastHour, anchor) \<Rightarrow>
          (let an = analyze tx cfg g (deltas (hs_prev hs) cs) lastHour (hs_history hs) (lastRecordedHour hs)
           in ((map (hostAlert h fleet) (an_alerts an), map al_key (an_alerts an)), Some g,
               \<lparr>hs_prev = Some cs, hourAnchor = Some anchor, hs_history = an_history an,
                lastRecordedHour = an_lastRecorded an, livenessFailStreak = 0, hs_probeFailStreak = 0\<rparr>)))"

text \<open>The handshake, if one is made: its result.\<close>

definition probe_host ::
  "world \<Rightarrow> mconfig \<Rightarrow> (string \<Rightarrow> string option) \<Rightarrow> bool \<Rightarrow> fleet_map option \<Rightarrow> string \<Rightarrow> probe_result option" where
  "probe_host w cfg env fleet mp h =
     (if fleet
      then case mp of
             None \<Rightarrow> None
           | Some m \<Rightarrow> map_option (\<lambda>room. probeOne w (''https://'' @ h @ ''/'') (probeTimeoutMs cfg) (Some room))
                         (nonempty (roomForHost w m h))
      else map_option (\<lambda>url. probeOne w url (probeTimeoutMs cfg) None) (nonempty (env ''RELAY_PROBE_URL'')))"

definition probe_side ::
  "mconfig \<Rightarrow> bool \<Rightarrow> string \<Rightarrow> probe_result option \<Rightarrow> nat \<Rightarrow> (alert list \<times> string list) \<times> nat" where
  "probe_side cfg fleet h probe streak =
     (case probe of
        None \<Rightarrow> (([], []), streak)
      | Some p \<Rightarrow>
          if ok p then (([], []), 0)
          else ((if of_nat (streak + 1) \<ge> alertFailStreak cfg then [hostAlert h fleet (probeAlert (detail p))] else [],
                 [''probe'']), streak + 1))"

definition soft_reason :: "string \<Rightarrow> bool" where
  "soft_reason k \<longleftrightarrow> k \<noteq> ''liveness'' \<and> k \<noteq> ''probe''"

definition status_of :: "bool \<Rightarrow> string list \<Rightarrow> status" where
  "status_of crit reasons =
     (if crit then Crit_st else if list_ex soft_reason reasons then Warn_st else Ok_st)"

definition check_host ::
  "texts \<Rightarrow> world \<Rightarrow> mconfig \<Rightarrow> (string \<Rightarrow> string option) \<Rightarrow> bool \<Rightarrow> fleet_map option \<Rightarrow> int \<Rightarrow> mstate \<Rightarrow> string \<Rightarrow>
   alert list \<times> host_state \<times> summary" where
  "check_host tx w cfg env fleet mp now st h =
     (let lt = kv_latest w (latestKeyFor h); hs = or_else (map_of (st_hosts st) h) no_host_state;
          probe = probe_host w cfg env fleet mp h
      in case push_side tx cfg fleet h now lt hs of ((a1, r1), g, next) \<Rightarrow>
         case probe_side cfg fleet h probe (hs_probeFailStreak hs) of ((a2, r2), streak) \<Rightarrow>
           (a1 @ a2, next\<lparr>hs_probeFailStreak := streak\<rparr>,
            \<lparr>sm_host = (if fleet then h
                        else (let n = hostOf w (or_else (env ''RELAY_PROBE_URL'') []) in if n = [] then ''relay'' else n)),
             sm_status = status_of (stale cfg now lt \<or> (case probe of None \<Rightarrow> False | Some p \<Rightarrow> \<not> ok p)) (r1 @ r2),
             sm_ageMs = map_option (\<lambda>l. now - receivedAt l) lt,
             sm_sockets = map_option socketsLive g, sm_rooms = map_option roomsLive g,
             sm_buckets = (if fleet then map_option (\<lambda>m. ownedBucketCount m h) mp else None),
             sm_probeOk = map_option ok probe, sm_reasons = r1 @ r2\<rparr>))"

fun check_hosts ::
  "(string \<Rightarrow> alert list \<times> host_state \<times> summary) \<Rightarrow> string list \<Rightarrow>
   alert list \<times> (string \<times> host_state) list \<times> summary list \<Rightarrow> alert list \<times> (string \<times> host_state) list \<times> summary list" where
  "check_hosts check [] acc = acc"
| "check_hosts check (h # hs) (alerts, next, cards) =
     (case check h of (a, s, sm) \<Rightarrow> check_hosts check hs (alerts @ a, AList.update h s next, cards @ [sm]))"

section \<open>One push relay\<close>

record push_detail =
  pd_devices :: rat
  pd_sessions :: rat
  pd_lastDeliveryAgeMs :: "rat option"
  pd_interval :: "(rat \<times> rat \<times> rat) option"
  pd_peerOutbox :: "rat option"
  pd_peerSkewMs :: "rat option"
  pd_peerLastOkKnown :: bool
  pd_peerLastOkAgeMs :: "rat option"

record push_summary =
  pm_host :: string
  pm_status :: status
  pm_checkedAt :: int
  pm_up :: bool
  pm_probeOk :: "bool option"
  pm_reasons :: "string list"
  pm_detailUrl :: "string option"
  pm_push :: "push_detail option"

definition age_of :: "int \<Rightarrow> rat \<Rightarrow> rat option" where
  "age_of now ts = (if ts > 0 then Some (max 0 (of_int now - ts * 1000)) else None)"

definition push_detail_of ::
  "int \<Rightarrow> push_counters option \<Rightarrow> push_counters \<times> push_gauges \<times> push_peer option \<Rightarrow> push_detail" where
  "push_detail_of now interval cur =
     (case cur of (_, g, peer) \<Rightarrow>
        \<lparr>pd_devices = devices g, pd_sessions = sessions g, pd_lastDeliveryAgeMs = age_of now (lastDeliveryTs g),
         pd_interval = map_option (\<lambda>i. (delivered i, failed i, timeouts i)) interval,
         pd_peerOutbox = map_option outbox peer, pd_peerSkewMs = map_option skewMs peer,
         pd_peerLastOkKnown = (case peer of None \<Rightarrow> False | Some p \<Rightarrow> hasLastOk p),
         pd_peerLastOkAgeMs = (case peer of None \<Rightarrow> None | Some p \<Rightarrow> if hasLastOk p then age_of now (lastOkTs p) else None)\<rparr>)"

definition push_down :: "string \<Rightarrow> alert" where
  "push_down err =
     \<lparr>al_key = ''liveness'', al_severity = Critical, al_title = ''Push relay not reporting'',
      al_body = ''The push relay'' @ [CHR 0x27] @ ''s metrics endpoint could not be read ('' @ err
        @ ''). The process or its host may be down, so pushes are failing.''\<rparr>"

definition push_before :: "push_target \<Rightarrow> mstate \<Rightarrow> push_state" where
  "push_before t st =
     (case map_of (st_pushes st) (pt_label t) of
        Some s \<Rightarrow> s
      | None \<Rightarrow> if pt_index t = 1 then or_else (oldPush st) no_push_state else no_push_state)"

definition never_since :: "int \<Rightarrow> push_peer option \<Rightarrow> int option \<Rightarrow> int option" where
  "never_since now peer before =
     (case peer of
        Some p \<Rightarrow> if hasLastOk p \<and> lastOkTs p = 0 then Some (or_else before now) else None
      | None \<Rightarrow> None)"

definition outbox_streak :: "push_peer option \<Rightarrow> nat \<Rightarrow> nat" where
  "outbox_streak peer before =
     (case peer of Some p \<Rightarrow> if outbox p > 0 then before + 1 else 0 | None \<Rightarrow> 0)"

text \<open>The state a push relay leaves; \<open>cur\<close> is its reading, \<open>None\<close> if the scrape failed.\<close>

definition push_after ::
  "int \<Rightarrow> (push_counters \<times> push_gauges \<times> push_peer option) option \<Rightarrow> probe_result option \<Rightarrow> push_state \<Rightarrow> push_state" where
  "push_after now cur probe ps =
     \<lparr>ps_prev = (case cur of None \<Rightarrow> ps_prev ps | Some (c, _, _) \<Rightarrow> Some c),
      prevPeer = (case cur of None \<Rightarrow> prevPeer ps | Some (_, _, peer) \<Rightarrow> peer),
      ps_outboxStreak = (case cur of None \<Rightarrow> ps_outboxStreak ps | Some (_, _, peer) \<Rightarrow> outbox_streak peer (ps_outboxStreak ps)),
      peerNeverSince = (case cur of None \<Rightarrow> peerNeverSince ps | Some (_, _, peer) \<Rightarrow> never_since now peer (peerNeverSince ps)),
      scrapeFailStreak = (case cur of None \<Rightarrow> scrapeFailStreak ps + 1 | Some _ \<Rightarrow> 0),
      ps_probeFailStreak = (case probe of Some p \<Rightarrow> if ok p then 0 else ps_probeFailStreak ps + 1 | None \<Rightarrow> 0)\<rparr>"

definition check_push ::
  "texts \<Rightarrow> world \<Rightarrow> mconfig \<Rightarrow> int \<Rightarrow> mstate \<Rightarrow> push_target \<Rightarrow> alert list \<times> push_state \<times> push_summary" where
  "check_push tx w cfg now st t =
     (let lab = pt_label t; ps = push_before t st; scraped = scrapePush w (metricsUrl t) (metricsAuth t);
          cur = (case scraped of Inl _ \<Rightarrow> None | Inr body \<Rightarrow> Some (read_push_metrics body));
          probe = map_option (\<lambda>url. probePush w url (probeTimeoutMs cfg)) (probeUrl t);
          ps' = push_after now cur probe ps;
          down = (case scraped of Inl e \<Rightarrow> [push_down e] | Inr _ \<Rightarrow> []);
          lost = (case probe of Some p \<Rightarrow> if ok p then [] else [probeAlert (detail p)] | None \<Rightarrow> []);
          interval = (case cur of None \<Rightarrow> None | Some (c, _, _) \<Rightarrow> pushDeltas (ps_prev ps) c);
          peer = (case cur of None \<Rightarrow> None | Some (_, _, p) \<Rightarrow> p);
          rates = pushAlerts tx cfg interval;
          peers = peerAlerts tx cfg peer (prevPeer ps) (outbox_streak peer (ps_outboxStreak ps)) now
                    (never_since now peer (peerNeverSince ps));
          reasons = map al_key (down @ lost @ rates @ peers);
          crit = (cur = None \<or> lost \<noteq> [] \<or> ''apns_auth'' \<in> set reasons
                  \<or> list_ex (\<lambda>a. al_severity a = Critical) rates \<or> list_ex (\<lambda>a. al_severity a = Critical) peers)
      in (map (hostAlert lab True)
            ((if of_nat (scrapeFailStreak ps') \<ge> alertFailStreak cfg then down else [])
             @ (if of_nat (ps_probeFailStreak ps') \<ge> alertFailStreak cfg then lost else []) @ rates @ peers), ps',
          \<lparr>pm_host = lab, pm_status = status_of crit reasons, pm_checkedAt = now, pm_up = (cur \<noteq> None),
           pm_probeOk = map_option ok probe, pm_reasons = reasons, pm_detailUrl = dashboardUrl t,
           pm_push = map_option (push_detail_of now interval) cur\<rparr>))"

fun check_pushes ::
  "(push_target \<Rightarrow> alert list \<times> push_state \<times> push_summary) \<Rightarrow> push_target list \<Rightarrow>
   alert list \<times> (string \<times> push_state) list \<times> push_summary list \<Rightarrow>
   alert list \<times> (string \<times> push_state) list \<times> push_summary list" where
  "check_pushes check [] acc = acc"
| "check_pushes check (t # ts) (alerts, next, cards) =
     (case check t of (a, s, sm) \<Rightarrow> check_pushes check ts (alerts @ a, AList.update (pt_label t) s next, cards @ [sm]))"

section \<open>The tick\<close>

record health =
  hl_at :: int
  hl_fleet :: bool
  mapError :: "string option"
  mapVersion :: "int option"
  hl_counts :: "nat \<times> nat \<times> nat \<times> nat"
  hl_hosts :: "summary list"
  hl_pushes :: "push_summary list"
  hl_due :: "string list"

definition count_status :: "status \<Rightarrow> status list \<Rightarrow> nat" where
  "count_status s xs = length (filter (\<lambda>x. x = s) xs)"

definition map_now :: "world \<Rightarrow> (string \<Rightarrow> string option) \<Rightarrow> (string + fleet_map option) option" where
  "map_now w env = map_option (fetchMap w) (nonempty (env ''SHARD_MAP_URL''))"

definition watched :: "(string + fleet_map option) option \<Rightarrow> mstate \<Rightarrow> string list" where
  "watched m st =
     (case m of
        None \<Rightarrow> [DIRECT_HOST]
      | Some (Inr (Some fm)) \<Rightarrow> mapHostsFrom fm
      | Some _ \<Rightarrow> map fst (st_hosts st))"

definition map_streak :: "(string + fleet_map option) option \<Rightarrow> mstate \<Rightarrow> nat" where
  "map_streak m st = (case m of Some (Inl _) \<Rightarrow> mapFailStreak st + 1 | _ \<Rightarrow> 0)"

definition map_alerts :: "mconfig \<Rightarrow> (string + fleet_map option) option \<Rightarrow> mstate \<Rightarrow> alert list" where
  "map_alerts cfg m st =
     (case m of
        Some (Inl e) \<Rightarrow> when_alert (of_nat (map_streak m st) \<ge> alertFailStreak cfg) (probeAlert (''shard map fetch failed: '' @ e))
      | _ \<Rightarrow> [])"

text \<open>Everything a tick raises, with the next state but for \<open>sentAt\<close>, and the cards.\<close>

definition tick_checks ::
  "texts \<Rightarrow> world \<Rightarrow> (string \<Rightarrow> string option) \<Rightarrow> int \<Rightarrow> mstate \<Rightarrow> alert list \<times> mstate \<times> summary list \<times> push_summary list" where
  "tick_checks tx w env now st =
     (let cfg = parseConfig env; m = map_now w env;
          fm = (case m of Some (Inr x) \<Rightarrow> x | _ \<Rightarrow> None)
      in case check_hosts (check_host tx w cfg env (m \<noteq> None) fm now st) (watched m st) ([], [], []) of (a1, hs, cards) \<Rightarrow>
         case check_pushes (check_push tx w cfg now st) (pushRelaysFromEnv env) ([], [], []) of (a2, psts, pcards) \<Rightarrow>
           (map_alerts cfg m st @ a1 @ a2,
            \<lparr>st_hosts = hs, mapFailStreak = map_streak m st, st_pushes = psts, oldPush = None, st_sentAt = st_sentAt st\<rparr>,
            cards, pcards))"

text \<open>
  \<open>run\<close>: the health document, and the next state; a dry run starts from no state and persists none.
  The cooldown advances only if the alerts that are due could be sent.
\<close>

definition run_tick ::
  "texts \<Rightarrow> bool \<Rightarrow> world \<Rightarrow> (string \<Rightarrow> string option) \<Rightarrow> int \<Rightarrow> mstate \<Rightarrow> health \<times> alert list \<times> mstate" where
  "run_tick tx dry w env now st0 =
     (let st = (if dry then no_mstate else st0); m = map_now w env
      in case tick_checks tx w env now st of (alerts, st', cards, pcards) \<Rightarrow>
         case dueAlerts alerts (st_sentAt st) now (cooldownMs (parseConfig env)) of (due, sentAt) \<Rightarrow>
           (let states = map sm_status cards @ map pm_status pcards; sent_ok = (due = [] \<or> sendEmail w due)
            in (\<lparr>hl_at = now, hl_fleet = (m \<noteq> None), mapError = (case m of Some (Inl e) \<Rightarrow> Some e | _ \<Rightarrow> None),
                 mapVersion = (case m of Some (Inr (Some fm)) \<Rightarrow> fm_version fm | _ \<Rightarrow> None),
                 hl_counts = (length states, count_status Ok_st states, count_status Warn_st states, count_status Crit_st states),
                 hl_hosts = cards, hl_pushes = pcards, hl_due = map al_key due\<rparr>,
                due,
                if dry then st0 else st'\<lparr>st_sentAt := if sent_ok then sentAt else st_sentAt st\<rparr>)))"

section \<open>Pull mode\<close>

text \<open>\<open>template.replace("{host}", h)\<close>: the first occurrence; no \<open>$\<close> in a host name.\<close>

fun replace_first :: "string \<Rightarrow> string \<Rightarrow> string \<Rightarrow> string" where
  "replace_first pat by_s [] = []"
| "replace_first pat by_s (c # cs) =
     (if prefix pat (c # cs) then by_s @ drop (length pat) (c # cs) else c # replace_first pat by_s cs)"

definition pull_hosts :: "(string + fleet_map option) option \<Rightarrow> string list \<Rightarrow> string list" where
  "pull_hosts m lastHosts = (case m of Some (Inr (Some fm)) \<Rightarrow> mapHostsFrom fm | Some (Inr None) \<Rightarrow> [] | _ \<Rightarrow> lastHosts)"

text \<open>
  \<open>pullRelays\<close>: the scrapes run side by side and each writes its own key, so the order does not
  matter. The result: the hosts, how many succeeded, those that failed, and the store.
\<close>

fun pull_each ::
  "(string \<Rightarrow> string + string) \<Rightarrow> int \<Rightarrow> string list \<Rightarrow> nat \<times> (string \<times> string) list \<times> (string \<Rightarrow> latest option) \<Rightarrow>
   nat \<times> (string \<times> string) list \<times> (string \<Rightarrow> latest option)" where
  "pull_each scrape now [] acc = acc"
| "pull_each scrape now (h # hs) (n, bad, kv) =
     pull_each scrape now hs
       (case scrape h of
          Inl e \<Rightarrow> (n, bad @ [(h, e)], kv)
        | Inr body \<Rightarrow>
            (case parseRelayMetrics body of
               Inl _ \<Rightarrow> (n, bad @ [(h, ''no relay_ metrics in response'')], kv)
             | Inr s \<Rightarrow> (n + 1, bad, kv(latestKeyFor h \<mapsto> \<lparr>receivedAt = now, lt_snapshot = s\<rparr>))))"

definition pullRelays ::
  "(string \<Rightarrow> string option) \<Rightarrow> int \<Rightarrow> (string \<Rightarrow> string + fleet_map option) \<Rightarrow> (string \<Rightarrow> string option \<Rightarrow> string + string) \<Rightarrow>
   string list \<Rightarrow> (string \<Rightarrow> latest option) \<Rightarrow>
   string list \<times> nat \<times> (string \<times> string) list \<times> (string \<Rightarrow> latest option)" where
  "pullRelays env now fetch scrape lastHosts kv =
     (let hosts = pull_hosts (map_option fetch (nonempty (env ''SHARD_MAP_URL''))) lastHosts;
          auth = map_option basic_auth (nonempty (env ''RELAY_PULL_BASIC_AUTH''));
          template = or_else (env ''RELAY_PULL_URL_TEMPLATE'') []
      in (hosts, pull_each (\<lambda>h. scrape (replace_first ''{host}'' h template) auth) now hosts (0, [], kv)))"

end
