(* ===== verification/MonitorSafety.thy ===== *)
theory MonitorSafety
  imports MonitorCore
begin

text \<open>
  What the ticks of the monitor guarantee together: which hosts are watched and remembered, when a
  silent host is reported, and that an alert is held back only while a page for it is fresh.
\<close>

section \<open>Keys of alerts\<close>

definition ANALYSIS_KEYS :: "string list" where
  "ANALYSIS_KEYS = [''cap:sockets'', ''cap:rooms'', ''errors'', ''exceptions'', ''shard_fetch'', ''anomaly:requests'']"

definition PUSH_KEYS :: "string list" where
  "PUSH_KEYS = [''liveness'', ''probe'', ''apns_timeouts'', ''apns_auth'', ''push_failures'', ''peer_silent'', ''peer_outbox'',
     ''peer_skew'', ''peer_dropped'', ''peer_rejected'']"

lemma bar_free: "list_all (\<lambda>k. CHR ''|'' \<notin> set k) (ANALYSIS_KEYS @ PUSH_KEYS)"
  by code_simp

lemma not_liveness: "''liveness'' \<notin> set ANALYSIS_KEYS"
  by (simp add: ANALYSIS_KEYS_def)

lemma map_filter_set: "set (List.map_filter f xs) = {y. \<exists>x \<in> set xs. f x = Some y}"
  by (force simp: List.map_filter_def)

lemma cap_keys:
  assumes "a \<in> set (capAlerts tx (cap_meters cfg g))"
  shows "al_key a \<in> {''cap:sockets'', ''cap:rooms''}"
proof -
  obtain m where "m \<in> set (cap_meters cfg g)" "cap_check tx m = Some a"
    using assms unfolding capAlerts_def map_filter_set by blast
  moreover from this(2) have "al_key a = ''cap:'' @ mt_key m"
    by (auto simp: cap_check_def Let_def split: if_splits)
  ultimately show ?thesis by (auto simp: cap_meters_def)
qed

lemma check_keys:
  "errorAlert tx r e q m = Some a \<Longrightarrow> al_key a = ''errors''"
  "exceptionAlert tx n t = Some a \<Longrightarrow> al_key a = ''exceptions''"
  "shardFetchErrorAlert tx n t = Some a \<Longrightarrow> al_key a = ''shard_fetch''"
  by (auto simp: errorAlert_def exceptionAlert_def shardFetchErrorAlert_def Let_def split: if_splits)

lemma anomaly_keys: "anomalyAlert tx k lab c s sf df mb ms = Some a \<Longrightarrow> al_key a = ''anomaly:'' @ k"
  by (auto simp: anomalyAlert_def split: if_splits option.splits)

lemma interval_keys:
  assumes "a \<in> set (interval_alerts tx cfg iv)"
  shows "al_key a \<in> {''errors'', ''exceptions'', ''shard_fetch''}"
proof -
  let ?c = "moved iv"
  let ?L = "[errorAlert tx (requests ?c) (errors ?c) (errorRatio cfg) (errorMinRequests cfg),
         exceptionAlert tx (exceptions ?c) (exceptionThreshold cfg),
         shardFetchErrorAlert tx (shardMapFetchErrors ?c) (shardFetchThreshold cfg)]"
  have r: "\<not> reset iv" using assms by (auto simp: interval_alerts_def)
  then have "interval_alerts tx cfg iv = List.map_filter id ?L" by (simp only: interval_alerts_def if_False)
  with assms have "a \<in> set (List.map_filter id ?L)" by (simp only:)
  then have "Some a \<in> set ?L" unfolding map_filter_set mem_Collect_eq id_apply by blast
  then show ?thesis by (auto dest!: check_keys [OF sym])
qed

lemma analyze_keys:
  assumes "a \<in> set (an_alerts (analyze tx cfg g iv lh h lr))"
  shows "al_key a \<in> set ANALYSIS_KEYS"
proof -
  have "a \<in> set (capAlerts tx (cap_meters cfg g)) \<or> a \<in> set (interval_alerts tx cfg iv) \<or> al_key a = ''anomaly:requests''"
    using assms by (auto simp: analyze_def Let_def dest!: anomaly_keys split: option.splits if_splits)
  then show ?thesis by (auto simp: ANALYSIS_KEYS_def dest: cap_keys interval_keys)
qed

lemma push_keys: "a \<in> set (pushAlerts tx cfg iv) \<Longrightarrow> al_key a \<in> {''apns_timeouts'', ''apns_auth'', ''push_failures''}"
  by (auto simp: pushAlerts_def when_alert_def Let_def split: option.splits if_splits)

lemma peer_keys: "a \<in> set (peerAlerts tx cfg p q n now nv) \<Longrightarrow>
    al_key a \<in> {''peer_silent'', ''peer_outbox'', ''peer_skew'', ''peer_dropped'', ''peer_rejected''}"
  by (auto simp: peerAlerts_def peer_drops_def when_alert_def Let_def split: option.splits if_splits)

lemma bar_split:
  assumes "h @ CHR ''|'' # k = h' @ CHR ''|'' # k'" "CHR ''|'' \<notin> set k" "CHR ''|'' \<notin> set k'"
  shows "h = h' \<and> k = k'"
proof -
  have "rev k @ CHR ''|'' # rev h = rev k' @ CHR ''|'' # rev h'" using arg_cong [OF assms(1), of rev] by simp
  then have "takeWhile (\<lambda>c. c \<noteq> CHR ''|'') (rev k @ CHR ''|'' # rev h) = takeWhile (\<lambda>c. c \<noteq> CHR ''|'') (rev k' @ CHR ''|'' # rev h')"
    by simp
  moreover have "takeWhile (\<lambda>c. c \<noteq> CHR ''|'') (rev x @ CHR ''|'' # y) = rev x" if "CHR ''|'' \<notin> set x" for x y
  proof -
    have "takeWhile (\<lambda>c. c \<noteq> CHR ''|'') (z @ CHR ''|'' # y) = z" if "CHR ''|'' \<notin> set z" for z
      using that by (induction z) auto
    from this [of "rev x"] that show ?thesis by simp
  qed
  ultimately have "k = k'" using assms(2,3) by simp
  with assms(1) show ?thesis by simp
qed

section \<open>The hosts of a tick\<close>

lemma check_hosts_parts:
  "check_hosts check hs (a0, n0, c0) =
     (a0 @ concat (map (\<lambda>h. fst (check h)) hs),
      fold (\<lambda>h. AList.update h (fst (snd (check h)))) hs n0, c0 @ map (\<lambda>h. snd (snd (check h))) hs)"
  by (induction hs arbitrary: a0 n0 c0) (simp_all split: prod.split)

lemma check_pushes_parts:
  "check_pushes check ts (a0, n0, c0) =
     (a0 @ concat (map (\<lambda>t. fst (check t)) ts),
      fold (\<lambda>t. AList.update (pt_label t) (fst (snd (check t)))) ts n0, c0 @ map (\<lambda>t. snd (snd (check t))) ts)"
  by (induction ts arbitrary: a0 n0 c0) (simp_all split: prod.split)

lemma fold_update:
  "map_of (fold (\<lambda>h. AList.update h (f h)) hs al) k = (if k \<in> set hs then Some (f k) else map_of al k)"
  by (induction hs arbitrary: al) (auto simp: update_conv')

lemma fold_update_keys:
  "distinct (map fst al) \<Longrightarrow> distinct (map fst (fold (\<lambda>h. AList.update h (f h)) hs al))"
  by (induction hs arbitrary: al) (simp_all add: distinct_update)

lemma fold_update_order:
  assumes "distinct hs" "set hs \<inter> fst ` set al = {}"
  shows "map fst (fold (\<lambda>h. AList.update h (f h)) hs al) = map fst al @ hs"
  using assms
proof (induction hs arbitrary: al)
  case (Cons h hs)
  have "map fst (AList.update h (f h) al) = map fst al @ [h]"
    using Cons.prems(2) by (simp add: update_keys)
  moreover from this have "fst ` set (AList.update h (f h) al) = insert h (fst ` set al)"
    by (metis Un_insert_right boolean_algebra.disj_zero_right list.simps(15) set_append set_empty2 list.set_map)
  ultimately show ?case using Cons.IH [of "AList.update h (f h) al"] Cons.prems by simp
qed simp

lemma mapHosts_facts: "distinct (mapHosts rs) \<and> set (mapHosts rs) = {h. \<exists>r \<in> set rs. rr_host r = Some h}"
proof -
  have "distinct hs \<Longrightarrow> distinct (fold (\<lambda>r hosts. case rr_host r of
     None \<Rightarrow> hosts | Some h \<Rightarrow> if h \<in> set hosts then hosts else hosts @ [h]) rs hs)
     \<and> set (fold (\<lambda>r hosts. case rr_host r of
     None \<Rightarrow> hosts | Some h \<Rightarrow> if h \<in> set hosts then hosts else hosts @ [h]) rs hs) = set hs \<union> {h. \<exists>r \<in> set rs. rr_host r = Some h}" for hs
    by (induction rs arbitrary: hs) (auto split: option.splits)
  from this [of "[]"] show ?thesis by (simp add: mapHosts_def)
qed

definition found_map :: "(string + fleet_map option) option \<Rightarrow> fleet_map option" where
  "found_map m = (case m of Some (Inr x) \<Rightarrow> x | _ \<Rightarrow> None)"

lemma tick_parts:
  fixes tx w env now st
  defines "cfg \<equiv> parseConfig env" and "m \<equiv> map_now w env"
  defines "chk \<equiv> check_host tx w cfg env (m \<noteq> None) (found_map m) now st"
    and "pchk \<equiv> check_push tx w cfg now st"
  shows "fst (tick_checks tx w env now st) =
      map_alerts cfg m st @ concat (map (\<lambda>h. fst (chk h)) (watched m st)) @ concat (map (\<lambda>t. fst (pchk t)) (pushRelaysFromEnv env))"
    "st_hosts (fst (snd (tick_checks tx w env now st))) = fold (\<lambda>h. AList.update h (fst (snd (chk h)))) (watched m st) []"
    "mapFailStreak (fst (snd (tick_checks tx w env now st))) = map_streak m st"
  unfolding tick_checks_def Let_def cfg_def [symmetric] m_def [symmetric] found_map_def [symmetric] chk_def [symmetric] pchk_def [symmetric]
  by (simp_all add: check_hosts_parts check_pushes_parts)

section \<open>Deduplication\<close>

definition is_due :: "sent \<Rightarrow> int \<Rightarrow> rat \<Rightarrow> alert \<Rightarrow> bool" where
  "is_due prev now cooldown a =
     (case map_of prev (al_key a) of
        None \<Rightarrow> True
      | Some (t, sev) \<Rightarrow> sev = Warn \<and> al_severity a = Critical \<or> of_int (now - t) \<ge> cooldown)"

text \<open>Where a remembered entry comes from.\<close>

definition noted :: "sent \<Rightarrow> int \<Rightarrow> rat \<Rightarrow> alert \<Rightarrow> int \<times> severity \<Rightarrow> bool" where
  "noted prev now cooldown a e \<longleftrightarrow> snd e = al_severity a
     \<and> (if is_due prev now cooldown a then fst e = now else (\<exists>sev. map_of prev (al_key a) = Some (fst e, sev)))"

lemma due_loop_parts:
  "fst (due_loop as prev now cd (d0, s0)) = d0 @ filter (is_due prev now cd) as
   \<and> (\<forall>k. (\<exists>a \<in> set as. al_key a = k \<and> (\<exists>e. map_of (snd (due_loop as prev now cd (d0, s0))) k = Some e \<and> noted prev now cd a e))
        \<or> k \<notin> al_key ` set as \<and> map_of (snd (due_loop as prev now cd (d0, s0))) k = map_of s0 k)"
proof (induction as arbitrary: d0 s0)
  case (Cons a as)
  define e where "e = (if is_due prev now cd a then now else fst (the (map_of prev (al_key a))), al_severity a)"
  define d1 where "d1 = d0 @ (if is_due prev now cd a then [a] else [])"
  define s1 where "s1 = AList.update (al_key a) e s0"
  have step: "due_loop (a # as) prev now cd (d0, s0) = due_loop as prev now cd (d1, s1)"
    by (cases "map_of prev (al_key a)") (simp_all add: is_due_def d1_def s1_def e_def split: prod.split)
  have e: "noted prev now cd a e"
    by (cases "map_of prev (al_key a)") (auto simp: noted_def e_def is_due_def)
  show ?case
  proof (intro conjI allI)
    show "fst (due_loop (a # as) prev now cd (d0, s0)) = d0 @ filter (is_due prev now cd) (a # as)"
      unfolding step using Cons.IH [of d1 s1] by (simp add: d1_def)
    fix k
    from Cons.IH [of d1 s1, THEN conjunct2, THEN spec, of k] e
    show "(\<exists>b \<in> set (a # as). al_key b = k \<and> (\<exists>e. map_of (snd (due_loop (a # as) prev now cd (d0, s0))) k = Some e \<and> noted prev now cd b e))
        \<or> k \<notin> al_key ` set (a # as) \<and> map_of (snd (due_loop (a # as) prev now cd (d0, s0))) k = map_of s0 k"
      unfolding step by (cases "k = al_key a"; cases e) (auto simp: s1_def update_conv')
  qed
qed simp

lemma due_parts:
  assumes "dueAlerts alerts prev now cd = (due, sentAt)"
  shows "due = filter (is_due prev now cd) alerts"
    "map_of sentAt k = Some e \<Longrightarrow> \<exists>a \<in> set alerts. al_key a = k \<and> noted prev now cd a e"
    "map_of sentAt k = None \<longleftrightarrow> k \<notin> al_key ` set alerts"
proof -
  have r: "due_loop alerts prev now cd ([], []) = (due, sentAt)" using assms by (simp add: dueAlerts_def)
  note p = due_loop_parts [of alerts prev now cd "[]" "[]", unfolded r fst_conv snd_conv]
  show "due = filter (is_due prev now cd) alerts" using p by simp
  show "map_of sentAt k = Some e \<Longrightarrow> \<exists>a \<in> set alerts. al_key a = k \<and> noted prev now cd a e"
    using p [THEN conjunct2, THEN spec, of k] by (metis map_of.simps(1) option.distinct(1) option.inject)
  show "map_of sentAt k = None \<longleftrightarrow> k \<notin> al_key ` set alerts"
    using p [THEN conjunct2, THEN spec, of k] by auto
qed

section \<open>Runs\<close>

record tick =
  tk_world :: world
  tk_now :: int
  tk_before :: mstate
  tk_due :: "alert list"

definition went_out :: "tick \<Rightarrow> bool" where
  "went_out tk \<longleftrightarrow> tk_due tk = [] \<or> sendEmail (tk_world tk) (tk_due tk)"

text \<open>The ticks so far, the latest first, and the state they leave.\<close>

inductive mon_reach :: "texts \<Rightarrow> (string \<Rightarrow> string option) \<Rightarrow> tick list \<Rightarrow> mstate \<Rightarrow> bool" for tx env where
  start: "mon_reach tx env [] no_mstate"
| tick: "mon_reach tx env past st \<Longrightarrow> run_tick tx False w env now st = (hl, due, st') \<Longrightarrow>
    mon_reach tx env (\<lparr>tk_world = w, tk_now = now, tk_before = st, tk_due = due\<rparr> # past) st'"

lemma run_parts:
  assumes "run_tick tx False w env now st = (hl, due, st')"
  shows "\<exists>sentAt. dueAlerts (fst (tick_checks tx w env now st)) (st_sentAt st) now (cooldownMs (parseConfig env)) = (due, sentAt)
      \<and> st_sentAt st' = (if due = [] \<or> sendEmail w due then sentAt else st_sentAt st)"
    "st_hosts st' = st_hosts (fst (snd (tick_checks tx w env now st)))"
    "mapFailStreak st' = mapFailStreak (fst (snd (tick_checks tx w env now st)))"
  using assms by (auto simp: run_tick_def Let_def split: prod.splits)

lemma remembered_pages:
  "mon_reach tx env past st \<Longrightarrow> map_of (st_sentAt st) k = Some e \<Longrightarrow>
    \<exists>tk \<in> set past. went_out tk \<and> tk_now tk = fst e \<and> k \<in> al_key ` set (tk_due tk)"
proof (induction arbitrary: e rule: mon_reach.induct)
  case start
  then show ?case by (simp add: no_mstate_def)
next
  case (tick past st w now hl due st')
  let ?tk = "\<lparr>tk_world = w, tk_now = now, tk_before = st, tk_due = due\<rparr>"
  obtain sentAt where d: "dueAlerts (fst (tick_checks tx w env now st)) (st_sentAt st) now (cooldownMs (parseConfig env)) = (due, sentAt)"
    and s: "st_sentAt st' = (if due = [] \<or> sendEmail w due then sentAt else st_sentAt st)"
    using run_parts(1) [OF tick.hyps(2)] by blast
  show ?case
  proof (cases "due = [] \<or> sendEmail w due")
    case False
    with tick.prems s tick.IH show ?thesis by simp
  next
    case True
    then have "map_of sentAt k = Some e" using tick.prems s by simp
    from due_parts(2) [OF d this] obtain a where a: "a \<in> set (fst (tick_checks tx w env now st))" "al_key a = k"
      "noted (st_sentAt st) now (cooldownMs (parseConfig env)) a e" by blast
    show ?thesis
    proof (cases "is_due (st_sentAt st) now (cooldownMs (parseConfig env)) a")
      case due_now: True
      then have "a \<in> set due" using a(1) due_parts(1) [OF d] by simp
      moreover have "fst e = now" using a(3) due_now by (simp add: noted_def)
      moreover have "went_out ?tk" using True by (simp add: went_out_def)
      ultimately show ?thesis using a(2) by (intro bexI [of _ ?tk]) auto
    next
      case held: False
      then obtain sev where "map_of (st_sentAt st) k = Some (fst e, sev)" using a(2,3) by (auto simp: noted_def)
      from tick.IH [OF this] show ?thesis by auto
    qed
  qed
qed

definition paged_recently :: "(string \<Rightarrow> string option) \<Rightarrow> tick list \<Rightarrow> int \<Rightarrow> string \<Rightarrow> bool" where
  "paged_recently env past now k \<longleftrightarrow>
     (\<exists>tk \<in> set past. went_out tk \<and> k \<in> al_key ` set (tk_due tk) \<and> of_int (now - tk_now tk) < cooldownMs (parseConfig env))"

lemma held_back_aux:
  assumes "mon_reach tx env past st" "run_tick tx False w env now st = (hl, due, st')"
    and "a \<in> set (fst (tick_checks tx w env now st))"
  shows "a \<in> set due \<or> paged_recently env past now (al_key a)"
proof -
  obtain sentAt where d: "dueAlerts (fst (tick_checks tx w env now st)) (st_sentAt st) now (cooldownMs (parseConfig env)) = (due, sentAt)"
    using run_parts(1) [OF assms(2)] by blast
  show ?thesis
  proof (cases "is_due (st_sentAt st) now (cooldownMs (parseConfig env)) a")
    case True
    then show ?thesis using assms(3) due_parts(1) [OF d] by simp
  next
    case False
    then obtain t sev where e: "map_of (st_sentAt st) (al_key a) = Some (t, sev)" "of_int (now - t) < cooldownMs (parseConfig env)"
      by (auto simp: is_due_def split: option.splits)
    from remembered_pages [OF assms(1) e(1)] e(2) show ?thesis by (auto simp: paged_recently_def)
  qed
qed

section \<open>Silent hosts\<close>

definition missed :: "(string \<Rightarrow> string option) \<Rightarrow> string \<Rightarrow> tick \<Rightarrow> bool" where
  "missed env h tk \<longleftrightarrow> h \<in> set (watched (map_now (tk_world tk) env) (tk_before tk))
     \<and> stale (parseConfig env) (tk_now tk) (kv_latest (tk_world tk) (latestKeyFor h))"

definition misses :: "string \<Rightarrow> mstate \<Rightarrow> nat" where
  "misses h st = livenessFailStreak (or_else (map_of (st_hosts st) h) no_host_state)"

lemma check_host_streak:
  "livenessFailStreak (fst (snd (check_host tx w cfg env fleet mp now st h)))
     = (if stale cfg now (kv_latest w (latestKeyFor h)) then misses h st + 1 else 0)"
  by (simp add: check_host_def push_side_def misses_def Let_def split: prod.split)

lemma streak_counts_misses: "mon_reach tx env past st \<Longrightarrow> misses h st = length (takeWhile (missed env h) past)"
proof (induction rule: mon_reach.induct)
  case start
  show ?case by (simp add: misses_def no_mstate_def or_else_def no_host_state_def)
next
  case (tick past st w now hl due st')
  let ?m = "map_now w env"
  let ?chk = "check_host tx w (parseConfig env) env (?m \<noteq> None) (found_map ?m) now st"
  have "misses h st' = (if h \<in> set (watched ?m st) then livenessFailStreak (fst (snd (?chk h))) else 0)"
    unfolding misses_def run_parts(2) [OF tick.hyps(2)] tick_parts(2) fold_update
    by (simp add: or_else_def no_host_state_def)
  then show ?case
    using tick.IH by (simp add: missed_def check_host_streak)
qed

lemma alert_keys [simp]:
  "al_key (livenessAlert d) = ''liveness''" "al_key (probeAlert d) = ''probe''"
  "al_key (hostAlert h True a) = h @ CHR ''|'' # al_key a"
  by (simp_all add: livenessAlert_def probeAlert_def hostAlert_def)

lemma push_side_keys:
  assumes "a \<in> set (fst (fst (push_side tx cfg True h now lt hs)))"
  shows "\<exists>k. al_key a = h @ CHR ''|'' # k \<and> (k \<in> set ANALYSIS_KEYS
    \<or> k = ''liveness'' \<and> stale cfg now lt \<and> of_nat (livenessFailStreak hs + 1) \<ge> alertFailStreak cfg)"
proof (cases "stale cfg now lt")
  case True
  with assms show ?thesis by (simp add: push_side_def Let_def split: if_splits)
next
  case False
  then obtain g iv lh where "a \<in> set (map (hostAlert h True) (an_alerts (analyze tx cfg g iv lh (hs_history hs) (lastRecordedHour hs))))"
    using assms by (simp add: push_side_def Let_def split: prod.splits)
  then show ?thesis by (auto dest: analyze_keys)
qed

lemma push_side_liveness:
  assumes "stale cfg now lt" "of_nat (livenessFailStreak hs + 1) \<ge> alertFailStreak cfg"
  shows "h @ CHR ''|'' # ''liveness'' \<in> al_key ` set (fst (fst (push_side tx cfg True h now lt hs)))"
  using assms by (simp add: push_side_def Let_def)

lemma probe_side_keys:
  "a \<in> set (fst (fst (probe_side cfg True h probe streak))) \<Longrightarrow> al_key a = h @ CHR ''|'' # ''probe''"
  by (auto simp: probe_side_def split: option.splits if_splits)

lemma check_host_alerts:
  "fst (check_host tx w cfg env fleet mp now st h) =
     fst (fst (push_side tx cfg fleet h now (kv_latest w (latestKeyFor h)) (or_else (map_of (st_hosts st) h) no_host_state)))
     @ fst (fst (probe_side cfg fleet h (probe_host w cfg env fleet mp h)
         (hs_probeFailStreak (or_else (map_of (st_hosts st) h) no_host_state))))"
  by (simp add: check_host_def Let_def split: prod.split)

lemma check_push_alerts:
  "\<exists>d l c1 c2 iv p q n nv. fst (check_push tx w cfg now st t) =
      map (hostAlert (pt_label t) True)
        ((if c1 then d else []) @ (if c2 then l else []) @ pushAlerts tx cfg iv @ peerAlerts tx cfg p q n now nv)
    \<and> (\<forall>b \<in> set d. al_key b = ''liveness'') \<and> (\<forall>b \<in> set l. al_key b = ''probe'')"
  unfolding check_push_def Let_def fst_conv
  by (intro exI conjI, rule refl) (auto simp: push_down_def split: sum.splits option.splits if_splits)

lemma check_push_keys:
  assumes "a \<in> set (fst (check_push tx w cfg now st t))"
  shows "\<exists>k. al_key a = pt_label t @ CHR ''|'' # k \<and> CHR ''|'' \<notin> set k"
proof -
  have free: "k \<in> set PUSH_KEYS \<Longrightarrow> CHR ''|'' \<notin> set k" for k
    using bar_free unfolding list_all_iff by auto
  obtain d l c1 c2 iv p q n nv where f: "fst (check_push tx w cfg now st t) =
      map (hostAlert (pt_label t) True)
        ((if c1 then d else []) @ (if c2 then l else []) @ pushAlerts tx cfg iv @ peerAlerts tx cfg p q n now nv)"
    and dl: "\<forall>b \<in> set d. al_key b = ''liveness''" "\<forall>b \<in> set l. al_key b = ''probe''"
    using check_push_alerts [of tx w cfg now st t] by blast
  from assms f obtain b where "a = hostAlert (pt_label t) True b" and
    "b \<in> set d \<or> b \<in> set l \<or> b \<in> set (pushAlerts tx cfg iv) \<or> b \<in> set (peerAlerts tx cfg p q n now nv)"
    by (auto split: if_splits)
  then show ?thesis using dl
    by (intro exI [of _ "al_key b"] conjI free) (auto simp: PUSH_KEYS_def dest!: push_keys peer_keys)
qed

abbreviation liveness_key :: "string \<Rightarrow> string" where "liveness_key h \<equiv> h @ CHR ''|'' # ''liveness''"

lemma liveness_from_host:
  assumes "a \<in> set (fst (check_host tx w cfg env True mp now st h'))" "al_key a = liveness_key h"
  shows "h' = h \<and> stale cfg now (kv_latest w (latestKeyFor h)) \<and> of_nat (misses h st + 1) \<ge> alertFailStreak cfg"
proof -
  obtain k where k: "al_key a = h' @ CHR ''|'' # k" "k \<in> set ANALYSIS_KEYS \<or> k = ''probe'' \<or>
      k = ''liveness'' \<and> stale cfg now (kv_latest w (latestKeyFor h')) \<and> of_nat (misses h' st + 1) \<ge> alertFailStreak cfg"
    using assms(1) unfolding check_host_alerts set_append Un_iff misses_def
    by (blast dest: push_side_keys probe_side_keys)
  have "k \<in> set (ANALYSIS_KEYS @ PUSH_KEYS)" using k(2) by (auto simp: PUSH_KEYS_def)
  then have "CHR ''|'' \<notin> set k" using bar_free unfolding list_all_iff by blast
  moreover have "CHR ''|'' \<notin> set ''liveness''" by simp
  ultimately have "h' = h" "k = ''liveness''" using bar_split k(1) assms(2) by metis+
  with k(2) not_liveness show ?thesis by auto
qed

lemma raised_liveness:
  assumes fleet: "env ''SHARD_MAP_URL'' = Some (c # u)" and lab: "h \<notin> pt_label ` set (pushRelaysFromEnv env)"
  shows "liveness_key h \<in> al_key ` set (fst (tick_checks tx w env now st)) \<longleftrightarrow>
    h \<in> set (watched (map_now w env) st) \<and> stale (parseConfig env) now (kv_latest w (latestKeyFor h))
    \<and> of_nat (misses h st + 1) \<ge> alertFailStreak (parseConfig env)" (is "_ \<longleftrightarrow> ?rhs")
proof
  let ?cfg = "parseConfig env" and ?m = "map_now w env"
  have m: "?m \<noteq> None" using fleet by (simp add: map_now_def nonempty_def)
  assume "liveness_key h \<in> al_key ` set (fst (tick_checks tx w env now st))"
  then obtain a where a: "al_key a = liveness_key h" "a \<in> set (fst (tick_checks tx w env now st))" by auto
  then consider "a \<in> set (map_alerts ?cfg ?m st)"
    | h' where "h' \<in> set (watched ?m st)" "a \<in> set (fst (check_host tx w ?cfg env True (found_map ?m) now st h'))"
    | t where "t \<in> set (pushRelaysFromEnv env)" "a \<in> set (fst (check_push tx w ?cfg now st t))"
    unfolding tick_parts(1) using m by auto
  then show ?rhs
  proof cases
    case 1
    then have "al_key a = ''probe''" by (auto simp: map_alerts_def when_alert_def split: option.splits sum.splits if_splits)
    moreover have "CHR ''|'' \<in> set (al_key a)" "CHR ''|'' \<notin> set ''probe''" using a(1) by simp_all
    ultimately show ?thesis by metis
  next
    case 2
    with liveness_from_host a(1) show ?thesis by blast
  next
    case 3
    then obtain k where "al_key a = pt_label t @ CHR ''|'' # k" "CHR ''|'' \<notin> set k" using check_push_keys by blast
    moreover have "CHR ''|'' \<notin> set ''liveness''" by simp
    ultimately have "pt_label t = h" using bar_split a(1) by metis
    with 3 lab show ?thesis by blast
  qed
next
  let ?m = "map_now w env"
  have m: "?m \<noteq> None" using fleet by (simp add: map_now_def nonempty_def)
  assume r: ?rhs
  then have "liveness_key h \<in> al_key ` set (fst (check_host tx w (parseConfig env) env True (found_map ?m) now st h))"
    using push_side_liveness unfolding check_host_alerts misses_def set_append image_Un Un_iff by blast
  with r m show "liveness_key h \<in> al_key ` set (fst (tick_checks tx w env now st))"
    unfolding tick_parts(1) by auto
qed

text \<open>
  C23. A silent relay is reported, neither early nor too late: in fleet mode the alert that a host does
  not report is raised at a tick exactly if at least the configured number of ticks in a row, up to
  this one, watched the host and found no fresh snapshot; and once it is raised it is paged now, or a
  page for it went out less than a cooldown ago.
\<close>

theorem silent_host_reported:
  assumes "mon_reach tx env past st" "run_tick tx False w env now st = (hl, due, st')"
    and "env ''SHARD_MAP_URL'' = Some (c # u)" "h \<notin> pt_label ` set (pushRelaysFromEnv env)"
  defines "n \<equiv> length (takeWhile (missed env h) (\<lparr>tk_world = w, tk_now = now, tk_before = st, tk_due = due\<rparr> # past))"
    and "raised \<equiv> al_key ` set (fst (tick_checks tx w env now st))"
  shows "(liveness_key h \<in> raised \<longleftrightarrow> alertFailStreak (parseConfig env) \<le> of_nat n)
    \<and> (alertFailStreak (parseConfig env) \<le> of_nat n \<longrightarrow>
         liveness_key h \<in> al_key ` set due \<or> paged_recently env past now (liveness_key h))"
proof -
  have one: "1 \<le> alertFailStreak (parseConfig env)" by (simp add: parseConfig_def Let_def)
  have r: "liveness_key h \<in> raised \<longleftrightarrow> alertFailStreak (parseConfig env) \<le> of_nat n"
    unfolding raised_def raised_liveness [OF assms(3,4)] n_def streak_counts_misses [OF assms(1), of h]
    using one by (auto simp: missed_def)
  moreover have "liveness_key h \<in> al_key ` set due \<or> paged_recently env past now (liveness_key h)"
    if "liveness_key h \<in> raised"
  proof -
    obtain a where "a \<in> set (fst (tick_checks tx w env now st))" "al_key a = liveness_key h"
      using \<open>liveness_key h \<in> raised\<close> unfolding raised_def image_iff by metis
    with held_back_aux [OF assms(1,2), of a] show ?thesis using imageI [of a "set due" al_key] by auto
  qed
  ultimately show ?thesis by blast
qed

text \<open>
  C24. An alert is never lost: whatever ticks came before and whatever mails failed, an alert a tick
  raises is in its page, or a page with its key was really sent less than a cooldown ago.
\<close>

theorem held_back_only_after_a_page:
  assumes "mon_reach tx env past st" "run_tick tx False w env now st = (hl, due, st')"
    and "a \<in> set (fst (tick_checks tx w env now st))"
  shows "a \<in> set due \<or> paged_recently env past now (al_key a)"
  using held_back_aux [OF assms] .

text \<open>
  C25. The monitor remembers exactly the hosts it watches: after a tick its state has one entry for
  each watched host; with a map these are the hosts the map names, and if the map cannot be fetched
  they are the ones remembered before.
\<close>

theorem remembers_watched_hosts:
  assumes "mon_reach tx env past st" "run_tick tx False w env now st = (hl, due, st')"
  shows "map fst (st_hosts st') = watched (map_now w env) st \<and> distinct (map fst (st_hosts st'))
    \<and> (case map_now w env of
         Some (Inl _) \<Rightarrow> map fst (st_hosts st') = map fst (st_hosts st)
       | Some (Inr (Some fm)) \<Rightarrow> set (map fst (st_hosts st')) = {h. \<exists>r \<in> set (fm_ranges fm). rr_host r = Some h}
       | _ \<Rightarrow> True)"
proof -
  have d: "mon_reach tx env past st \<Longrightarrow> distinct (map fst (st_hosts st))" for past st
  proof (induction rule: mon_reach.induct)
    case (tick past st w now hl due st')
    show ?case unfolding run_parts(2) [OF tick.hyps(2)] tick_parts(2) by (intro fold_update_keys) simp
  qed (simp add: no_mstate_def)
  have w: "distinct (watched (map_now w env) st)"
    using d [OF assms(1)] mapHosts_facts by (auto simp: watched_def mapHostsFrom_def split: option.split sum.split)
  then have hosts: "map fst (st_hosts st') = watched (map_now w env) st"
    unfolding run_parts(2) [OF assms(2)] tick_parts(2) by (subst fold_update_order) simp_all
  show ?thesis
    unfolding hosts using w mapHosts_facts by (auto simp: watched_def mapHostsFrom_def split: option.split sum.split)
qed

section \<open>A concrete run\<close>

definition demo_vars :: "string \<Rightarrow> string option" where
  "demo_vars k = (if k = ''SHARD_MAP_URL'' then Some ''u'' else None)"

definition demo_texts :: texts where
  "demo_texts = \<lparr>num = \<lambda>q. show_int \<lfloor>q\<rfloor>, fixed1 = \<lambda>_. ''1.0''\<rparr>"

text \<open>A fleet of one host that has never pushed, and a mail server that answers.\<close>

definition demo_world :: world where
  "demo_world =
     \<lparr>kv_latest = \<lambda>_. None,
      fetchMap = \<lambda>_. Inr (Some \<lparr>fm_version = Some 1, fm_ranges = [\<lparr>rr_host = Some ''a'', rr_low = Some 0, rr_high = Some 65535\<rparr>]\<rparr>),
      roomForHost = \<lambda>_ _. None, probeOne = \<lambda>_ _ _. \<lparr>ok = True, detail = []\<rparr>, scrapePush = \<lambda>_ _. Inl ''down'',
      probePush = \<lambda>_ _. \<lparr>ok = True, detail = []\<rparr>, sendEmail = \<lambda>_. True, urlHost = \<lambda>_. None\<rparr>"

lemma demo_vars_facts:
  "pushRelaysFromEnv demo_vars = []" "alertFailStreak (parseConfig demo_vars) = 2"
  "watched (map_now demo_world demo_vars) st = [''a'']" "demo_vars ''SHARD_MAP_URL'' = Some (CHR ''u'' # [])"
proof -
  show "pushRelaysFromEnv demo_vars = []" by code_simp
  show "alertFailStreak (parseConfig demo_vars) = 2" by (simp add: parseConfig_def env_num_def demo_vars_def Let_def)
  show "demo_vars ''SHARD_MAP_URL'' = Some (CHR ''u'' # [])" by (simp add: demo_vars_def)
  then show "watched (map_now demo_world demo_vars) st = [''a'']"
    by (simp add: watched_def map_now_def nonempty_def demo_world_def mapHostsFrom_def mapHosts_def)
qed

lemma demo_missed: "tk_world tk = demo_world \<Longrightarrow> missed demo_vars ''a'' tk"
  by (simp add: missed_def demo_vars_facts stale_def demo_world_def [THEN arg_cong, of kv_latest])

lemma demo_ticks:
  obtains hl1 due1 st1 hl2 due2 st2 where
    "run_tick demo_texts False demo_world demo_vars 0 no_mstate = (hl1, due1, st1)"
    "run_tick demo_texts False demo_world demo_vars 300000 st1 = (hl2, due2, st2)"
    "mon_reach demo_texts demo_vars [\<lparr>tk_world = demo_world, tk_now = 0, tk_before = no_mstate, tk_due = due1\<rparr>] st1"
    "liveness_key ''a'' \<notin> al_key ` set due1"
proof -
  obtain hl1 due1 st1 where r1: "run_tick demo_texts False demo_world demo_vars 0 no_mstate = (hl1, due1, st1)"
    by (metis prod_cases3)
  obtain hl2 due2 st2 where r2: "run_tick demo_texts False demo_world demo_vars 300000 st1 = (hl2, due2, st2)"
    by (metis prod_cases3)
  have l: "''a'' \<notin> pt_label ` set (pushRelaysFromEnv demo_vars)" by (simp add: demo_vars_facts)
  have "misses ''a'' no_mstate = 0" by (simp add: misses_def no_mstate_def or_else_def no_host_state_def)
  then have "liveness_key ''a'' \<notin> al_key ` set (fst (tick_checks demo_texts demo_world demo_vars 0 no_mstate))"
    unfolding raised_liveness [OF demo_vars_facts(4) l] by (simp add: demo_vars_facts)
  moreover have "set due1 \<subseteq> set (fst (tick_checks demo_texts demo_world demo_vars 0 no_mstate))"
    using run_parts(1) [OF r1] due_parts(1) by fastforce
  ultimately have "liveness_key ''a'' \<notin> al_key ` set due1" by blast
  then show thesis using that r1 r2 mon_reach.tick [OF mon_reach.start r1] by blast
qed

theorem silent_host_reported_witness:
  "\<exists>past st hl due st'. mon_reach demo_texts demo_vars past st
     \<and> run_tick demo_texts False demo_world demo_vars 300000 st = (hl, due, st') \<and> liveness_key ''a'' \<in> al_key ` set due"
proof -
  obtain hl1 due1 st1 hl2 due2 st2 where r: "run_tick demo_texts False demo_world demo_vars 0 no_mstate = (hl1, due1, st1)"
    "run_tick demo_texts False demo_world demo_vars 300000 st1 = (hl2, due2, st2)"
    and m: "mon_reach demo_texts demo_vars [\<lparr>tk_world = demo_world, tk_now = 0, tk_before = no_mstate, tk_due = due1\<rparr>] st1"
    and no: "liveness_key ''a'' \<notin> al_key ` set due1"
    by (rule demo_ticks)
  have l: "''a'' \<notin> pt_label ` set (pushRelaysFromEnv demo_vars)" by (simp add: demo_vars_facts)
  have "liveness_key ''a'' \<in> al_key ` set due2
      \<or> paged_recently demo_vars [\<lparr>tk_world = demo_world, tk_now = 0, tk_before = no_mstate, tk_due = due1\<rparr>] 300000 (liveness_key ''a'')"
    using silent_host_reported [OF m r(2) demo_vars_facts(4) l] by (simp add: demo_missed demo_vars_facts)
  then have "liveness_key ''a'' \<in> al_key ` set due2" using no by (simp add: paged_recently_def)
  with m r(2) show ?thesis by blast
qed

theorem held_back_only_after_a_page_witness:
  "\<exists>past st hl due st' a. mon_reach demo_texts demo_vars past st
     \<and> run_tick demo_texts False demo_world demo_vars 300000 st = (hl, due, st') \<and> a \<in> set due"
proof -
  obtain hl1 due1 st1 hl2 due2 st2 where r: "run_tick demo_texts False demo_world demo_vars 0 no_mstate = (hl1, due1, st1)"
    "run_tick demo_texts False demo_world demo_vars 300000 st1 = (hl2, due2, st2)"
    and m: "mon_reach demo_texts demo_vars [\<lparr>tk_world = demo_world, tk_now = 0, tk_before = no_mstate, tk_due = due1\<rparr>] st1"
    and no: "liveness_key ''a'' \<notin> al_key ` set due1"
    by (rule demo_ticks)
  have l: "''a'' \<notin> pt_label ` set (pushRelaysFromEnv demo_vars)" by (simp add: demo_vars_facts)
  have "misses ''a'' st1 = 1" unfolding streak_counts_misses [OF m] by (simp add: demo_missed)
  then have "liveness_key ''a'' \<in> al_key ` set (fst (tick_checks demo_texts demo_world demo_vars 300000 st1))"
    unfolding raised_liveness [OF demo_vars_facts(4) l] by (simp add: demo_vars_facts stale_def demo_world_def [THEN arg_cong, of kv_latest])
  then obtain a where "a \<in> set (fst (tick_checks demo_texts demo_world demo_vars 300000 st1))" "al_key a = liveness_key ''a''"
    unfolding image_iff by metis
  with held_back_only_after_a_page [OF m r(2), of a] no have "a \<in> set due2" by (simp add: paged_recently_def)
  with m r(2) show ?thesis by blast
qed

theorem remembers_watched_hosts_witness:
  "\<exists>hl due st'. run_tick demo_texts False demo_world demo_vars 0 no_mstate = (hl, due, st') \<and> map fst (st_hosts st') = [''a'']"
proof -
  obtain hl due st' where r: "run_tick demo_texts False demo_world demo_vars 0 no_mstate = (hl, due, st')"
    by (metis prod_cases3)
  from remembers_watched_hosts [OF mon_reach.start r] r show ?thesis by (simp add: demo_vars_facts)
qed

section \<open>Two surprises\<close>

text \<open>
  A map that parses but names no host counts as a good one: no host is watched, nothing is raised for
  the map, all that was remembered of the fleet is dropped, and when the map then cannot be fetched
  there is no host left to fall back to.
\<close>

lemma empty_map_blinds:
  assumes "map_now w env = Some (Inr (Some fm))" "\<forall>r \<in> set (fm_ranges fm). rr_host r = None"
    and "run_tick tx False w env now st = (hl, due, st')"
  shows "watched (map_now w env) st = [] \<and> map_alerts cfg (map_now w env) st = [] \<and> st_hosts st' = [] \<and> mapFailStreak st' = 0
    \<and> watched (Some (Inl e)) st' = []"
proof -
  have "set (mapHosts (fm_ranges fm)) = {}" using mapHosts_facts assms(2) by auto
  then have w: "watched (map_now w env) st = []" by (simp add: assms(1) watched_def mapHostsFrom_def)
  moreover have "st_hosts st' = []" unfolding run_parts(2) [OF assms(3)] tick_parts(2) w by simp
  moreover have "mapFailStreak st' = 0" unfolding run_parts(3) [OF assms(3)] tick_parts(3) by (simp add: assms(1) map_streak_def)
  ultimately show ?thesis by (simp add: assms(1) map_alerts_def watched_def)
qed

text \<open>
  When a page fails to go out, the cooldowns are kept as they were, also of alerts this tick no longer
  raised; such an alert is then held back when it recurs.
\<close>

lemma failed_page_keeps_resolved:
  assumes "run_tick tx False w env now st = (hl, due, st')" "due \<noteq> []" "\<not> sendEmail w due"
    and "map_of (st_sentAt st) (al_key a) = Some (t, al_severity a)" "of_int (later - t) < cooldown"
  shows "\<not> is_due (st_sentAt st') later cooldown a"
  using run_parts(1) [OF assms(1)] assms(2-5) by (auto simp: is_due_def)

end
