(* ===== verification/PullPush.thy ===== *)
theory PullPush
  imports Monitor
begin

text \<open>
  A monitor can pull a relay's exposition instead of being pushed its snapshot. The lemmas say what
  each rendered line adds to a pulled series, and what a series then amounts to.
\<close>

section \<open>What a line adds\<close>

definition pulls :: "string \<Rightarrow> string \<Rightarrow> rat" where
  "pulls n line = (case match_series (trim line) of
     Some (n', v) \<Rightarrow> if n' = n then or_zero (js_number v) else 0 | None \<Rightarrow> 0)"

lemma field_add:
  assumes "\<not> prefix ''socket_lifetime_seconds'' n"
  shows "field n (add_series line out) = field n out + pulls n line"
  using assms
  by (auto simp: add_series_def pulls_def field_def update_conv' or_zero_def split: option.splits)

lemma field_fold:
  assumes "\<not> prefix ''socket_lifetime_seconds'' n"
  shows "field n (fold add_series ls out) = field n out + sum_list (map (pulls n) ls)"
  by (induction ls arbitrary: out) (simp_all add: field_add [OF assms])

lemma series_is_name: "series_char = name_char"
  by (simp add: fun_eq_iff series_char_def name_char_def)

lemma value_taken:
  assumes "value_text v"
  shows "takeWhile (\<lambda>c. \<not> js_space c) v = v" "takeWhile (\<lambda>c. \<not> js_space c) v \<noteq> []"
  using assms by (cases v; simp add: value_text_def)+

lemma take_name:
  assumes "list_all name_char n" "\<not> name_char c"
  shows "takeWhile name_char (n @ c # cs) = n" "dropWhile name_char (n @ c # cs) = c # cs"
  using assms by (simp_all add: list_all_iff takeWhile_append2 dropWhile_append2)

lemma not_name: "\<not> name_char CHR '' ''" "\<not> name_char CHR ''{''"
  by code_simp+

lemma drop_space: "value_text v \<Longrightarrow> dropWhile js_space (CHR '' '' # v) = v \<and> v \<noteq> []"
  by (cases v) (simp_all add: value_text_def js_space_def)

lemma space [simp]: "js_space CHR '' ''"
  by code_simp

lemma match_plain:
  assumes "list_all name_char n" "n \<noteq> []" "value_text v"
  shows "match_series (plain_line n v) = Some (n, v)"
  using take_name [OF assms(1) not_name(1), of v] drop_space [OF assms(3)] value_taken [OF assms(3)] assms(2)
  by (simp add: match_series_def plain_line_def Let_def series_is_name drop_labels_def)

lemma match_label:
  assumes "list_all name_char n" "n \<noteq> []" "CHR ''}'' \<notin> set key" "CHR ''}'' \<notin> set lab" "value_text v"
  shows "match_series (label_line n key lab v) = Some (n, v)"
proof -
  let ?rest = "CHR '' '' # v"
  have line: "label_line n key lab v = ''relay_'' @ n @ CHR ''{'' # (key @ CHR ''='' # CHR 0x22 # lab @ [CHR 0x22]) @ CHR ''}'' # ?rest"
    by (simp add: label_line_def)
  have "cut CHR ''}'' ((key @ CHR ''='' # CHR 0x22 # lab @ [CHR 0x22]) @ CHR ''}'' # ?rest)
      = Some (key @ CHR ''='' # CHR 0x22 # lab @ [CHR 0x22], ?rest)"
    using assms(3,4) by (intro cut_word) auto
  then have "drop_labels (CHR ''{'' # (key @ CHR ''='' # CHR 0x22 # lab @ [CHR 0x22]) @ CHR ''}'' # ?rest) = Some ?rest"
    by (simp add: drop_labels_def)
  then show ?thesis
    using take_name [OF assms(1) not_name(2), of "(key @ CHR ''='' # CHR 0x22 # lab @ [CHR 0x22]) @ CHR ''}'' # ?rest"]
      drop_space [OF assms(5)] value_taken [OF assms(5)] assms(2)
    unfolding line by (simp add: match_series_def Let_def series_is_name)
qed

text \<open>The forms of a rendered line, and what each adds.\<close>

inductive rendered :: "string \<Rightarrow> bool" where
  empty: "rendered []"
| comment: "rendered (CHR ''#'' # cs)"
| plain: "list_all name_char n \<Longrightarrow> value_text v \<Longrightarrow> js_number v = Some x \<Longrightarrow> rendered (plain_line n v)"
| labelled: "list_all name_char n \<Longrightarrow> list_all name_char key \<Longrightarrow> list_all reason_char lab \<Longrightarrow> value_text v
    \<Longrightarrow> js_number v = Some x \<Longrightarrow> rendered (label_line n key lab v)"

definition adds :: "string \<Rightarrow> (string \<times> string \<times> rat) option \<Rightarrow> rat" where
  "adds n q = (case q of Some (name, _, x) \<Rightarrow> if name = ''relay_'' @ n then x else 0 | None \<Rightarrow> 0)"

lemma trim_relay: "value_text v \<Longrightarrow> trim (''relay_'' @ s @ v) = ''relay_'' @ s @ v"
  using trim_line [of "CHR ''r''" v "''elay_'' @ s"] value_text_last [of v] by (simp add: js_space_def)

lemma trim_rendered:
  "value_text v \<Longrightarrow> trim (plain_line n v) = plain_line n v"
  "value_text v \<Longrightarrow> trim (label_line n key lab v) = label_line n key lab v"
  using trim_relay [of v "n @ '' ''"] trim_relay [of v "n @ ''{'' @ key @ [CHR ''='', CHR 0x22] @ lab @ [CHR 0x22] @ ''} ''"]
  by (simp_all add: plain_line_def label_line_def)

lemma pulls_rendered:
  assumes "rendered l" "n \<noteq> []"
  shows "pulls n l = adds n (finite_sample l)"
  using assms(1)
proof cases
  case empty
  then show ?thesis by (simp add: pulls_def adds_def sample_empty match_series_def trim_def)
next
  case (comment cs)
  obtain t where "trim (CHR ''#'' # cs) = CHR ''#'' # t"
    using trim_hash [of "CHR ''#''" cs] by (auto simp: js_space_def)
  then show ?thesis by (simp add: comment pulls_def adds_def sample_comment match_series_def)
next
  case (plain k v x)
  show ?thesis
  proof (cases "k = []")
    case True
    then show ?thesis
      using plain assms(2) sample_plain [OF plain(2-4)]
      by (simp add: pulls_def adds_def trim_rendered, simp add: match_series_def plain_line_def series_is_name not_name)
  next
    case False
    then show ?thesis
      using plain sample_plain [OF plain(2-4)] match_plain [OF plain(2) False plain(3)]
      by (simp add: pulls_def adds_def trim_rendered or_zero_def)
  qed
next
  case (labelled k key lab v x)
  have c: "CHR ''}'' \<notin> set key" "CHR ''}'' \<notin> set lab"
    using labelled(3,4) by (auto simp: list_all_iff reason_char_def dest: name_char_not)
  show ?thesis
  proof (cases "k = []")
    case True
    then show ?thesis
      using labelled assms(2) sample_label [OF labelled(2-6)]
      by (simp add: pulls_def adds_def trim_rendered, simp add: match_series_def label_line_def series_is_name not_name)
  next
    case False
    then show ?thesis
      using labelled sample_label [OF labelled(2-6)] match_label [OF labelled(2) False c labelled(5)]
      by (simp add: pulls_def adds_def trim_rendered or_zero_def)
  qed
qed

section \<open>The lines of an exposition\<close>

lemma help_rendered: "help_lines name kind emitted = (ls, e) \<Longrightarrow> \<forall>l \<in> set ls. rendered l"
  by (auto simp: help_lines_def intro: rendered.comment split: if_splits option.splits)

lemma plain_rendered:
  "plain_lines kind ps emitted = (ls, e) \<Longrightarrow> \<forall>p \<in> set ps. list_all name_char (fst p) \<Longrightarrow> \<forall>l \<in> set ls. rendered l"
proof (induction kind ps emitted arbitrary: ls e rule: plain_lines.induct)
  case (2 kind name v rest emitted)
  obtain h e1 where h: "help_lines name kind emitted = (h, e1)" by force
  obtain ls' e2 where r: "plain_lines kind rest e1 = (ls', e2)" by force
  have "rendered (plain_line name (show_int v))"
    using "2.prems"(2) by (intro rendered.plain [OF _ value_text_int js_number_show_int]) simp
  with "2.IH" [OF h [symmetric] r] "2.prems" help_rendered [OF h] h r show ?case by auto
qed simp

lemma labelled_rendered:
  "labelled_lines collate ps emitted = (ls, e) \<Longrightarrow>
    \<forall>(n, es) \<in> set ps. list_all name_char n \<and> (\<forall>p \<in> set (collate es). list_all reason_char (fst p)) \<Longrightarrow> \<forall>l \<in> set ls. rendered l"
proof (induction collate ps emitted arbitrary: ls e rule: labelled_lines.induct)
  case (2 collate name es rest emitted)
  obtain h e1 where h: "help_lines name ''counter'' emitted = (h, e1)" by force
  obtain ls' e2 where r: "labelled_lines collate rest e1 = (ls', e2)" by force
  have "rendered (label_line name ''reason'' a (show_int b))" if "(a, b) \<in> set (collate es)" for a b
    using "2.prems"(2) that by (intro rendered.labelled [OF _ reason_key_char(1) _ value_text_int js_number_show_int]) auto
  with "2.IH" [OF h [symmetric] r] "2.prems" help_rendered [OF h] h r show ?case by auto
qed simp

lemma histogram_rendered:
  assumes "writes show_num (lifetimeSum m)"
  shows "\<forall>l \<in> set (histogram_lines show_num m). rendered l"
proof -
  have inf: "list_all reason_char ''+Inf''" by code_simp
  have "rendered (label_line ''socket_lifetime_seconds_bucket'' ''le'' lab (show_int i))" if "list_all reason_char lab" for lab i
    by (rule rendered.labelled [OF hist_name(1) reason_key_char(2) that value_text_int js_number_show_int])
  moreover have "rendered (plain_line ''socket_lifetime_seconds_sum'' (show_num (lifetimeSum m)))"
    using assms by (intro rendered.plain [OF hist_name(2)]) (auto simp: writes_def)
  moreover have "rendered (plain_line ''socket_lifetime_seconds_count'' (show_int i))" for i
    by (rule rendered.plain [OF hist_name(3) value_text_int js_number_show_int])
  ultimately show ?thesis
    using inf show_nat_reason by (auto simp: histogram_lines_def intro: rendered.comment)
qed

lemma render_rendered:
  assumes ok: "exposition_ok gs m" and w: "writes show_num (lifetimeSum m)" and c: "\<And>es. mset (collate es) = mset es"
  shows "\<forall>l \<in> set (render_lines collate show_num gs m). rendered l"
proof -
  obtain l1 e1 where 1: "plain_lines ''counter'' (plain_counters m) [] = (l1, e1)" by force
  obtain l2 e2 where 2: "labelled_lines collate (labelled_counters m) e1 = (l2, e2)" by force
  obtain l3 e3 where 3: "plain_lines ''gauge'' gs e2 = (l3, e3)" by force
  have "set (collate es) = set es" for es using c [of es] by (rule mset_eq_setD)
  then have "\<forall>(n, es) \<in> set (labelled_counters m). list_all name_char n \<and> (\<forall>p \<in> set (collate es). list_all reason_char (fst p))"
    using exposition_labelled [OF ok] by blast
  moreover have "\<forall>p \<in> set (plain_counters m). list_all name_char (fst p)" "\<forall>p \<in> set gs. list_all name_char (fst p)"
    using exposition_plain(1) [OF ok] by auto
  ultimately show ?thesis
    using plain_rendered [OF 1] labelled_rendered [OF 2] plain_rendered [OF 3] histogram_rendered [OF w]
    by (auto simp: render_lines_def 1 2 3)
qed

section \<open>Pulled or pushed\<close>

definition total_of :: "string \<Rightarrow> (string \<times> string \<times> rat) list \<Rightarrow> rat" where
  "total_of n qs = sum_list (map (\<lambda>q. snd (snd q)) (filter (\<lambda>q. fst q = ''relay_'' @ n) qs))"

lemma total_append [simp]: "total_of n (xs @ ys) = total_of n xs + total_of n ys"
  by (simp add: total_of_def)

lemma total_none: "\<forall>q \<in> set qs. fst q \<noteq> ''relay_'' @ n \<Longrightarrow> total_of n qs = 0"
  by (simp add: total_of_def)

lemma adds_total: "sum_list (map (\<lambda>l. adds n (finite_sample l)) ls) = total_of n (List.map_filter finite_sample ls)"
  by (induction ls) (auto simp: total_of_def adds_def List.map_filter_simps split: option.splits)

lemma total_plain:
  assumes "distinct (map fst ps)"
  shows "total_of n (map plain_sample ps) = (case map_of ps n of None \<Rightarrow> 0 | Some v \<Rightarrow> of_int v)"
  using assms
proof (induction ps)
  case (Cons p ps)
  have "fst p = n \<Longrightarrow> map_of ps n = None" using Cons.prems by (auto simp: map_of_eq_None_iff)
  with Cons show ?case by (cases p) (auto simp: total_of_def plain_sample_def)
qed (simp add: total_of_def)

lemma pulled_field:
  assumes ok: "exposition_ok gs m" and w: "writes show_num (lifetimeSum m)" and c: "\<And>es. mset (collate es) = mset es"
    and col: "map_of PLAIN (''relay_'' @ n) \<noteq> None" and n: "n \<noteq> []" "\<not> prefix ''socket_lifetime_seconds'' n"
  shows "field n (fold add_series (split_on NL (render collate show_num gs m)) [])
    = (case map_of (plain_counters m @ gs) n of None \<Rightarrow> 0 | Some v \<Rightarrow> of_int v)"
proof -
  let ?ls = "split_on NL (render collate show_num gs m)"
  have "\<forall>l \<in> set ?ls. rendered l"
    using render_rendered [OF ok w c] by (auto simp: render_parts(1) [OF ok w c] intro: rendered.empty)
  then have "map (pulls n) ?ls = map (\<lambda>l. adds n (finite_sample l)) ?ls"
    using pulls_rendered n(1) by simp
  then have "field n (fold add_series ?ls []) = total_of n (List.map_filter finite_sample ?ls)"
    by (simp only: field_fold [OF n(2)] adds_total) (simp add: field_def or_zero_def)
  also have "\<dots> = total_of n (map plain_sample (plain_counters m @ gs))"
  proof -
    have "total_of n (labelled_samples collate m) = 0"
      using labelled_sample_name [OF ok] col by (intro total_none) metis
    moreover have "total_of n (hist_samples m) = 0"
      using hist_sample_name [of _ m] n(2) by (intro total_none) fastforce
    ultimately show ?thesis unfolding render_samples [OF ok w c] by simp
  qed
  also have "\<dots> = (case map_of (plain_counters m @ gs) n of None \<Rightarrow> 0 | Some v \<Rightarrow> of_int v)"
    using ok by (intro total_plain) (simp add: exposition_ok_def)
  finally show ?thesis .
qed

end
