(* ===== verification/Scrape.thy ===== *)
theory Scrape
  imports PullPush ServerSafety
begin

text \<open>
  The relay's own metrics meet what the exposition needs, whatever it does; so its exposition is always
  read back, and a monitor that pulls it sees what the relay would have pushed.
\<close>

section \<open>The counters a relay keeps\<close>

definition RELAY_COUNTERS :: "string list" where
  "RELAY_COUNTERS =
     [''ws_upgrades_total'', ''http_requests_total'', ''http_errors_total'', ''quota_exceeded_total'',
      ''phone_no_mac_total'', ''ws_keepalive_terminated_total'', ''shard_reject_total'', ''shard_map_reloads_total'',
      ''shard_map_fetch_errors_total'', ''shard_map_fetch_retries_total'', ''metrics_push_errors_total'',
      ''process_exceptions_total'']"

definition LABELLED_COUNTERS :: "string list" where
  "LABELLED_COUNTERS = [''ws_upgrades_rejected_total'', ''shard_map_fetch_errors_by_cause_total'']"

definition relay_key :: "string \<Rightarrow> bool" where
  "relay_key k \<longleftrightarrow> k \<in> set RELAY_COUNTERS
     \<or> (\<exists>n reason. n \<in> set LABELLED_COUNTERS \<and> list_all reason_char reason \<and> k = reason_key n reason)"

definition relay_metrics :: "metrics \<Rightarrow> bool" where
  "relay_metrics m \<longleftrightarrow> distinct (map fst (counters m)) \<and> (\<forall>k \<in> fst ` set (counters m). relay_key k)
     \<and> length (bucketCounts m) = length LIFETIME_BUCKETS"

lemma relay_inc: "relay_metrics m \<Longrightarrow> relay_key k \<Longrightarrow> relay_metrics (inc k n m)"
proof -
  assume m: "relay_metrics m" "relay_key k"
  have "relay_key (fst x)" if "x \<in> set (AList.update k (counter k m + n) (counters m))" for x
    using key_update [of "fst x" k "counter k m + n" "counters m"] that m by (auto simp: relay_metrics_def)
  with m show ?thesis by (simp add: relay_metrics_def inc_def distinct_update)
qed

lemma relay_incReason:
  "relay_metrics m \<Longrightarrow> n \<in> set LABELLED_COUNTERS \<Longrightarrow> list_all reason_char reason \<Longrightarrow> relay_metrics (incReason n reason m)"
  unfolding incReason_def by (intro relay_inc) (auto simp: relay_key_def)

lemma relay_observe: "relay_metrics m \<Longrightarrow> relay_metrics (observeSocketLifetime s m)"
  by (simp add: relay_metrics_def observeSocketLifetime_def)

lemma plain_key: "k \<in> set RELAY_COUNTERS \<Longrightarrow> relay_key k"
  by (simp add: relay_key_def)

lemma plain_keys [simp]:
  "relay_key ''ws_upgrades_total''" "relay_key ''http_requests_total''" "relay_key ''http_errors_total''"
  "relay_key ''quota_exceeded_total''" "relay_key ''phone_no_mac_total''" "relay_key ''ws_keepalive_terminated_total''"
  "relay_key ''shard_reject_total''" "relay_key ''shard_map_reloads_total''" "relay_key ''shard_map_fetch_errors_total''"
  "relay_key ''shard_map_fetch_retries_total''" "relay_key ''metrics_push_errors_total''"
  by (rule plain_key; simp add: RELAY_COUNTERS_def)+

lemma relay_new: "relay_metrics new_metrics"
  by (simp add: relay_metrics_def new_metrics_def)

lemma relay_preregistered: "relay_metrics preregistered"
  unfolding preregistered_def by (simp add: relay_inc relay_new)

lemma causes_char:
  "list_all reason_char ''other''" "list_all reason_char ''http_5xx''" "list_all reason_char ''http_4xx''"
  "list_all reason_char ''http_other''" "list_all reason_char ''parse''" "list_all reason_char ''timeout''"
  "list_all reason_char ''dns''" "list_all reason_char ''conn''" "list_all reason_char ''tls''"
  by code_simp+

lemma cause_char: "list_all reason_char (fst (classifyShardFetchError err))"
  unfolding classifyShardFetchError_def Let_def
  by (simp only: causes_char fst_conv simp_thms split: option.split if_split)

section \<open>Everything a relay does\<close>

inductive relay_step :: "relay \<Rightarrow> relay \<Rightarrow> bool" where
  request: "relay_step r (snd (request_gate expose cfg now rq r))"
| enter: "relay_step r (snd (request_enter room now r))"
| leave: "relay_step r (snd (request_leave c result r))"
| upgrade: "relay_step r (snd (upgrade_gate cfg now peer hs r))"
| socket_open: "relay_step r (socket_open i ip now r)"
| socket_close: "relay_step r (socket_close cl now r)"
| sweep: "relay_step r (snd (sweepKeepalive r))"
| pong: "relay_step r (pong i r)"
| poll: "relay_step r (poll order json now err reply r)"
| drain: "relay_step r (drain_tick now r)"
| hook: "relay_step r (onServerClose code reason r)"
| registry: "relay_step r (r\<lparr>rl_rt := rt\<rparr>)"

abbreviation typed :: "relay \<Rightarrow> bool" where "typed r \<equiv> relay_metrics (rl_metrics r)"

lemma typed_count: "typed r \<Longrightarrow> relay_key k \<Longrightarrow> typed (count k r)"
  by (simp add: count_def relay_inc)

lemma typed_hook: "typed r \<Longrightarrow> typed (onServerClose code reason r)"
  by (simp add: onServerClose_def Let_def typed_count)

lemma typed_hooks: "typed r \<Longrightarrow> typed ((onServerClose code reason ^^ n) r)"
  by (induction n) (simp_all add: typed_hook)

lemma typed_shard: "rl_metrics (applyShardDiff rel acq now r) = rl_metrics r"
  by (simp add: applyShardDiff_def split: option.split)

lemma typed_calls: "typed r \<Longrightarrow> typed (fold (on_call order now err) calls r)"
proof (induction calls arbitrary: r)
  case (Cons c calls)
  have "typed (on_call order now err c r)"
    using Cons.prems
    by (cases c) (simp_all add: on_error_def on_adopt_def Let_def typed_shard typed_count relay_inc
        relay_incReason LABELLED_COUNTERS_def cause_char)
  with Cons.IH show ?case by simp
qed simp

lemma typed_poll: "typed r \<Longrightarrow> typed (poll order json now err reply r)"
  by (simp add: poll_def typed_calls split: option.split prod.split)

lemma typed_evictions: "typed r \<Longrightarrow> typed (fold (\<lambda>(b, nm). evict_room nm) out r)"
proof (induction out arbitrary: r)
  case (Cons x out)
  have "typed (evict_room nm r)" for nm
    using Cons.prems by (simp add: evict_room_def typed_hooks split: prod.split)
  with Cons.IH show ?case by (simp add: case_prod_beta)
qed simp

lemma typed_drain: "typed r \<Longrightarrow> typed (drain_tick now r)"
  by (simp add: drain_tick_def typed_evictions split: option.split prod.split)

lemma typed_request: "typed r \<Longrightarrow> typed (snd (request_gate expose cfg now rq r))"
  by (simp add: request_gate_def Let_def typed_count split: option.split decision.split prod.split)

lemma typed_reject: "typed r \<Longrightarrow> list_all reason_char w \<Longrightarrow> typed (snd (up_reject s m w r))"
  by (simp add: up_reject_def relay_incReason LABELLED_COUNTERS_def)

lemma reasons_char: "list_all reason_char ''gate''" "list_all reason_char ''rate_limited''" "list_all reason_char ''ip_cap''"
  "list_all reason_char ''total_cap''" "list_all reason_char ''room_cap''"
  by code_simp+

lemmas typed_rejects = reasons_char [THEN typed_reject [rotated]]

lemma typed_upgrade: "typed r \<Longrightarrow> typed (snd (upgrade_gate cfg now peer hs r))"
  by (simp add: upgrade_gate_def Let_def typed_count typed_rejects split: option.split decision.split prod.split)

lemma typed_step: "relay_step r r' \<Longrightarrow> typed r \<Longrightarrow> typed r'"
  by (induction rule: relay_step.induct)
    (simp_all add: typed_request typed_upgrade typed_poll typed_drain typed_hook typed_count request_enter_def
      request_leave_def Let_def socket_open_def socket_close_def sweepKeepalive_def pong_def relay_inc relay_observe
      split: option.split prod.split)

lemma typed_create: "createRelay cfg injected rows now = Inr r \<Longrightarrow> typed r"
  by (auto simp: createRelay_def idle_relay_def relay_preregistered Let_def split: sum.splits mode.splits if_splits)

lemma typed_reach: "relay_step\<^sup>*\<^sup>* r r' \<Longrightarrow> typed r \<Longrightarrow> typed r'"
  by (induction rule: rtranclp_induct) (simp_all add: typed_step)

section \<open>The exposition of a relay\<close>

lemma plain_not_labelled: "k \<in> set RELAY_COUNTERS \<Longrightarrow> NUL \<notin> set k"
proof -
  have "list_all (\<lambda>k. NUL \<notin> set k) RELAY_COUNTERS" by code_simp
  then show "k \<in> set RELAY_COUNTERS \<Longrightarrow> ?thesis" unfolding list_all_iff by blast
qed

lemma labelled_names: "n \<in> set LABELLED_COUNTERS \<Longrightarrow> NUL \<notin> set n \<and> list_all name_char n
    \<and> map_of PLAIN (''relay_'' @ n) = None \<and> n \<noteq> ''socket_lifetime_seconds_bucket''"
proof -
  have "list_all (\<lambda>n. NUL \<notin> set n \<and> list_all name_char n
    \<and> map_of PLAIN (''relay_'' @ n) = None \<and> n \<noteq> ''socket_lifetime_seconds_bucket'') LABELLED_COUNTERS" by code_simp
  then show "n \<in> set LABELLED_COUNTERS \<Longrightarrow> ?thesis" unfolding list_all_iff by blast
qed

lemma plain_part:
  assumes "relay_metrics m"
  shows "\<forall>k \<in> fst ` set (plain_counters m). k \<in> set RELAY_COUNTERS" "distinct (map fst (plain_counters m))"
proof -
  show "\<forall>k \<in> fst ` set (plain_counters m). k \<in> set RELAY_COUNTERS"
  proof
    fix k
    assume k: "k \<in> fst ` set (plain_counters m)"
    then have "k \<in> fst ` set (counters m)" "NUL \<notin> set k" by (auto simp: plain_counters_def)
    with assms have "relay_key k" "NUL \<notin> set k" unfolding relay_metrics_def by blast+
    then show "k \<in> set RELAY_COUNTERS" by (auto simp: relay_key_def reason_key_def)
  qed
  show "distinct (map fst (plain_counters m))"
    using assms by (simp add: plain_counters_def relay_metrics_def distinct_map_filter)
qed

lemma labelled_part:
  assumes "relay_metrics m" "(n, es) \<in> set (labelled_counters m)"
  shows "n \<in> set LABELLED_COUNTERS \<and> (\<forall>p \<in> set es. list_all reason_char (fst p))"
proof -
  have es: "es = List.map_filter (entry_of n) (counters m)" by (rule labelled_member [OF assms(2)])
  have key: "n \<in> set LABELLED_COUNTERS \<and> list_all reason_char (fst p)"
    if "q \<in> set (counters m)" "entry_of n q = Some p" for p q
  proof -
    have c: "cut NUL (fst q) = Some (n, fst p)" using \<open>entry_of n q = Some p\<close>
      by (auto simp: entry_of_def split: option.splits if_splits)
    have "relay_key (fst q)" using assms(1) \<open>q \<in> set (counters m)\<close> by (simp add: relay_metrics_def)
    then consider "fst q \<in> set RELAY_COUNTERS"
      | n' r where "n' \<in> set LABELLED_COUNTERS" "list_all reason_char r" "fst q = n' @ NUL # r"
      by (auto simp: relay_key_def reason_key_def)
    then show ?thesis
    proof cases
      case 1
      with plain_not_labelled have "cut NUL (fst q) = None" by (simp add: cut_None)
      with c show ?thesis by simp
    next
      case 2
      with labelled_names have "cut NUL (fst q) = Some (n', r)" by (simp add: cut_word)
      with c 2 show ?thesis by simp
    qed
  qed
  have "es \<noteq> []" unfolding es using labelled_entries(3) [of n m] assms(2) by force
  then obtain p where "p \<in> set es" by (cases es) auto
  moreover have "\<exists>q \<in> set (counters m). entry_of n q = Some p" if "p \<in> set es" for p
    using that unfolding es by (auto simp: List.map_filter_def)
  ultimately show ?thesis using key by blast
qed

definition GAUGES :: "string list" where
  "GAUGES = [''rooms_live'', ''sockets_live'', ''rooms_both'', ''rooms_mac_only'', ''rooms_phone_only'', ''rooms_neither'',
     ''shard_map_version'', ''shard_owned_buckets'', ''shard_draining_buckets'']"

lemma gauge_names: "\<exists>k. map fst (scrape_gauges r) = take k GAUGES"
proof -
  have "map fst (scrape_gauges r) = take 6 GAUGES \<or> map fst (scrape_gauges r) = take 9 GAUGES"
    by (simp add: scrape_gauges_def shardGauges_def GAUGES_def Let_def split: option.split)
  then show ?thesis by blast
qed

lemma names_apart: "distinct GAUGES" "list_all (\<lambda>g. g \<notin> set RELAY_COUNTERS) GAUGES"
  "list_all (\<lambda>n. list_all name_char n \<and> n \<notin> {''ws_upgrades_rejected_total'', ''socket_lifetime_seconds_sum'',
     ''socket_lifetime_seconds_count'', ''socket_lifetime_seconds_bucket''}) (RELAY_COUNTERS @ GAUGES)"
  by code_simp+

lemma relay_exposition_ok:
  assumes "relay_metrics (rl_metrics r)"
  shows "exposition_ok (scrape_gauges r) (rl_metrics r)"
proof -
  let ?m = "rl_metrics r" and ?gs = "scrape_gauges r"
  obtain k where k: "map fst ?gs = take k GAUGES" using gauge_names by blast
  then have g: "distinct (map fst ?gs)" "\<forall>n \<in> fst ` set ?gs. n \<in> set GAUGES"
    using names_apart(1) by (auto simp flip: set_map dest: in_set_takeD)
  note p = plain_part [OF assms]
  have names: "\<forall>x \<in> set (plain_counters ?m @ ?gs). fst x \<in> set (RELAY_COUNTERS @ GAUGES)" using p(1) g(2) by auto
  have "fst ` set (plain_counters ?m) \<inter> fst ` set ?gs = {}"
    using p(1) g(2) names_apart(2) unfolding list_all_iff by blast
  then have "distinct (map fst (plain_counters ?m @ ?gs))"
    using p(2) g(1) by simp
  moreover have "length (bucketCounts ?m) = length LIFETIME_BUCKETS" using assms by (simp add: relay_metrics_def)
  moreover have "list_all (\<lambda>(n, v). list_all name_char n
          \<and> n \<notin> {''ws_upgrades_rejected_total'', ''socket_lifetime_seconds_sum'', ''socket_lifetime_seconds_count'',
                  ''socket_lifetime_seconds_bucket''}) (plain_counters ?m @ ?gs)"
    using names names_apart(3) unfolding list_all_iff case_prod_beta by blast
  moreover have "list_all (\<lambda>(n, es). list_all name_char n \<and> map_of PLAIN (''relay_'' @ n) = None
          \<and> n \<noteq> ''socket_lifetime_seconds_bucket'' \<and> list_all (\<lambda>(r, v). list_all reason_char r) es) (labelled_counters ?m)"
    using labelled_part [OF assms] labelled_names unfolding list_all_iff case_prod_beta by (metis prod.collapse)
  ultimately show ?thesis unfolding exposition_ok_def by blast
qed


lemma demo_created: "createRelay DEFAULTS None Map.empty 0 = Inr (idle_relay MODE_DIRECT None None Map.empty)"
  by (simp add: createRelay_def resolveMode_def truthy_str_def DEFAULTS_def)


section \<open>Pulled or pushed\<close>

lemma map_of_plain: "NUL \<notin> set n \<Longrightarrow> map_of (plain_counters m) n = map_of (counters m) n"
proof -
  assume n: "NUL \<notin> set n"
  have "map_of (filter (\<lambda>(key, v). NUL \<notin> set key) cs) n = map_of cs n" for cs :: "(string \<times> int) list"
    using n by (induction cs) auto
  then show ?thesis by (simp add: plain_counters_def)
qed

text \<open>A pushed snapshot as the monitor reads it.\<close>

definition received :: "(string \<times> int) list \<Rightarrow> snap" where
  "received s = map (\<lambda>(n, v). (n, of_int v)) s"

lemma snapshot_fields:
  "normalizeSnapshot (received (push_snapshot r)) =
     (let c = \<lambda>n. of_int (counter n (rl_metrics r))
      in (\<lparr>requests = c ''http_requests_total'', errors = c ''http_errors_total'', exceptions = c ''process_exceptions_total'',
           shardMapFetchErrors = c ''shard_map_fetch_errors_total''\<rparr>,
          \<lparr>socketsLive = of_int (totalSockets r), roomsLive = of_int (room_count r)\<rparr>))"
  by (simp add: normalizeSnapshot_def received_def push_snapshot_def snapshot_def field_def or_zero_def gauge_def Let_def)

lemma pulled_columns:
  "list_all (\<lambda>n. map_of PLAIN (''relay_'' @ n) \<noteq> None \<and> n \<noteq> [] \<and> \<not> prefix ''socket_lifetime_seconds'' n)
     [''http_requests_total'', ''http_errors_total'', ''process_exceptions_total'', ''shard_map_fetch_errors_total'',
      ''sockets_live'', ''rooms_live'']"
  "list_all (\<lambda>n. NUL \<notin> set n \<and> n \<notin> set GAUGES)
     [''http_requests_total'', ''http_errors_total'', ''process_exceptions_total'', ''shard_map_fetch_errors_total'']"
  "list_all (\<lambda>n. n \<notin> set RELAY_COUNTERS) [''sockets_live'', ''rooms_live'']"
  by code_simp+

lemma pulled_values:
  assumes "typed r"
  shows "list_all (\<lambda>n. (case map_of (plain_counters (rl_metrics r) @ scrape_gauges r) n of None \<Rightarrow> 0 | Some v \<Rightarrow> of_int v)
        = (of_int (counter n (rl_metrics r)) :: rat))
      [''http_requests_total'', ''http_errors_total'', ''process_exceptions_total'', ''shard_map_fetch_errors_total'']"
    "map_of (plain_counters (rl_metrics r) @ scrape_gauges r) ''sockets_live'' = Some (totalSockets r)"
    "map_of (plain_counters (rl_metrics r) @ scrape_gauges r) ''rooms_live'' = Some (room_count r)"
proof -
  let ?m = "rl_metrics r" and ?gs = "scrape_gauges r"
  obtain k where k: "map fst ?gs = take k GAUGES" using gauge_names by blast
  have none: "map_of ?gs n = None" if "n \<notin> set GAUGES" for n
    using that k by (auto simp: map_of_eq_None_iff simp flip: set_map dest: in_set_takeD)
  show "list_all (\<lambda>n. (case map_of (plain_counters ?m @ ?gs) n of None \<Rightarrow> 0 | Some v \<Rightarrow> of_int v) = (of_int (counter n ?m) :: rat))
      [''http_requests_total'', ''http_errors_total'', ''process_exceptions_total'', ''shard_map_fetch_errors_total'']"
    unfolding list_all_iff
  proof
    fix n
    assume "n \<in> set [''http_requests_total'', ''http_errors_total'', ''process_exceptions_total'', ''shard_map_fetch_errors_total'']"
    then have "NUL \<notin> set n \<and> n \<notin> set GAUGES" using pulled_columns(2) unfolding list_all_iff by blast
    then show "(case map_of (plain_counters ?m @ ?gs) n of None \<Rightarrow> 0 | Some v \<Rightarrow> of_int v) = (of_int (counter n ?m) :: rat)"
      using none [of n] by (simp add: map_add_def map_of_plain counter_def split: option.split)
  qed
  have "map_of (plain_counters ?m) n = None" if "n \<in> set [''sockets_live'', ''rooms_live'']" for n
    using plain_part(1) [OF assms] pulled_columns(3) that unfolding list_all_iff map_of_eq_None_iff by blast
  then have g: "map_of (plain_counters ?m) ''sockets_live'' = None" "map_of (plain_counters ?m) ''rooms_live'' = None"
    by simp_all
  show "map_of (plain_counters ?m @ ?gs) ''sockets_live'' = Some (totalSockets r)"
    "map_of (plain_counters ?m @ ?gs) ''rooms_live'' = Some (room_count r)"
    by (simp_all add: map_add_def g scrape_gauges_def Let_def split: option.split)
qed

lemma plain_lines_member:
  "(n, v) \<in> set ps \<Longrightarrow> plain_line n (show_int v) \<in> set (fst (plain_lines kind ps emitted))"
proof (induction kind ps emitted rule: plain_lines.induct)
  case (2 kind name w rest emitted)
  obtain h e1 where h: "help_lines name kind emitted = (h, e1)" by force
  obtain ls' e2 where r: "plain_lines kind rest e1 = (ls', e2)" by force
  with "2.IH" [OF h [symmetric]] "2.prems" h show ?case by auto
qed simp

lemma render_member:
  assumes "(n, v) \<in> set gs"
  shows "plain_line n (show_int v) \<in> set (render_lines collate show_num gs m)"
proof -
  obtain l1 e1 where 1: "plain_lines ''counter'' (plain_counters m) [] = (l1, e1)" by force
  obtain l2 e2 where 2: "labelled_lines collate (labelled_counters m) e1 = (l2, e2)" by force
  obtain l3 e3 where 3: "plain_lines ''gauge'' gs e2 = (l3, e3)" by force
  from plain_lines_member [OF assms, of "''gauge''" e2] show ?thesis
    by (simp add: render_lines_def 1 2 3)
qed

lemma fold_nonempty:
  "out \<noteq> [] \<or> (\<exists>l \<in> set ls. add_series l out \<noteq> out) \<Longrightarrow> fold add_series ls out \<noteq> []"
proof (induction ls arbitrary: out)
  case (Cons l ls)
  have "add_series l out = out \<or> add_series l out \<noteq> []"
    by (auto simp: add_series_def split: option.split)
  with Cons show ?case by auto
qed simp

lemma pull_not_empty:
  assumes ok: "exposition_ok (scrape_gauges r) m" and w: "writes show_num (lifetimeSum m)" and c: "\<And>es. mset (collate es) = mset es"
  shows "fold add_series (split_on NL (render collate show_num (scrape_gauges r) m)) [] \<noteq> []"
proof (rule fold_nonempty, rule disjI2)
  let ?l = "plain_line ''rooms_live'' (show_int (room_count r))"
  have "(''rooms_live'', room_count r) \<in> set (scrape_gauges r)" by (simp add: scrape_gauges_def Let_def)
  from render_member [OF this] have "?l \<in> set (split_on NL (render collate show_num (scrape_gauges r) m))"
    unfolding render_parts(1) [OF ok w c] by simp
  moreover have "list_all name_char ''rooms_live''" by code_simp
  then have "match_series (trim ?l) = Some (''rooms_live'', show_int (room_count r))"
    unfolding trim_rendered(1) [OF value_text_int] by (rule match_plain) simp_all
  then have "add_series ?l [] \<noteq> []" by (simp add: add_series_def)
  ultimately show "\<exists>l \<in> set (split_on NL (render collate show_num (scrape_gauges r) m)). add_series l [] \<noteq> []" by blast
qed



end
