(* ===== verification/DashSeries.thy ===== *)
theory DashSeries
  imports Monitor
begin

text \<open>
  What the dashboard draws from stored samples, \<^verbatim>\<open>dashboard/series.js\<close>: window totals that survive a
  restart of the relay, time slots with their gauges and rates, latency quantiles, and the payloads of
  the two pages. A row of the database has a value in every column. The results: a chart and its tile
  count the same events, a window never counts more than happened, and quantiles are in their bucket
  and ordered.
\<close>

section \<open>Rows and steps\<close>

record row =
  ts :: int
  col :: "string \<Rightarrow> rat"

definition step_of :: "row \<Rightarrow> row \<Rightarrow> string \<Rightarrow> rat" where
  "step_of prev cur f = (let d = col cur f - col prev f in if d < 0 then 0 else d)"

fun windowTotal :: "row list \<Rightarrow> string \<Rightarrow> rat" where
  "windowTotal (prev # cur # rows) f = step_of prev cur f + windowTotal (cur # rows) f"
| "windowTotal _ f = 0"

text \<open>\<open>+x.toFixed(d)\<close>: the nearest decimal with \<open>d\<close> places, ties away from zero.\<close>

definition to_fixed :: "nat \<Rightarrow> rat \<Rightarrow> rat" where
  "to_fixed d x =
     (let up = (\<lambda>y. of_int \<lfloor>y * 10 ^ d + 1 / 2\<rfloor> / 10 ^ d) in if x < 0 then - up (- x) else up x)"

section \<open>Slots\<close>

record window =
  fromMs :: int
  toMs :: int
  slots :: nat

definition slot_width :: "window \<Rightarrow> rat" where
  "slot_width w = of_int (max 1 (toMs w - fromMs w)) / of_nat (slots w)"

definition slot_of :: "window \<Rightarrow> int \<Rightarrow> int" where
  "slot_of w t = min (int (slots w) - 1) (max 0 \<lfloor>of_int (t - fromMs w) / slot_width w\<rfloor>)"

definition slot_center :: "window \<Rightarrow> nat \<Rightarrow> int" where
  "slot_center w i = js_round (of_int (fromMs w) + slot_width w * (of_nat i + 1 / 2))"

text \<open>
  The accumulators of one slot. They sum every column; only those the charts name are read.
\<close>

record gauge_acc =
  ga_sum :: "string \<Rightarrow> rat"
  ga_n :: nat

record rate_acc =
  elapsedMs :: int
  ra_sum :: "string \<Rightarrow> rat"

definition bump :: "nat \<Rightarrow> ('a \<Rightarrow> 'a) \<Rightarrow> 'a list \<Rightarrow> 'a list" where
  "bump i f xs = xs[i := f (xs ! i)]"

definition gauge_row :: "row \<Rightarrow> gauge_acc \<Rightarrow> gauge_acc" where
  "gauge_row r b = \<lparr>ga_sum = (\<lambda>f. ga_sum b f + col r f), ga_n = ga_n b + 1\<rparr>"

definition gaugeAcc :: "window \<Rightarrow> row list \<Rightarrow> gauge_acc list" where
  "gaugeAcc w rows =
     fold (\<lambda>r. bump (nat (slot_of w (ts r))) (gauge_row r)) rows (replicate (slots w) \<lparr>ga_sum = \<lambda>_. 0, ga_n = 0\<rparr>)"

definition rate_step :: "row \<Rightarrow> row \<Rightarrow> rate_acc \<Rightarrow> rate_acc" where
  "rate_step prev cur b =
     \<lparr>elapsedMs = elapsedMs b + max 0 (ts cur - ts prev), ra_sum = (\<lambda>f. ra_sum b f + step_of prev cur f)\<rparr>"

fun rate_steps :: "window \<Rightarrow> row list \<Rightarrow> rate_acc list \<Rightarrow> rate_acc list" where
  "rate_steps w (prev # cur # rows) acc =
     rate_steps w (cur # rows) (bump (nat (slot_of w (ts cur))) (rate_step prev cur) acc)"
| "rate_steps w _ acc = acc"

definition rateAcc :: "window \<Rightarrow> row list \<Rightarrow> rate_acc list" where
  "rateAcc w rows = rate_steps w rows (replicate (slots w) \<lparr>elapsedMs = 0, ra_sum = \<lambda>_. 0\<rparr>)"

type_synonym series = "(int \<times> rat option) list"

definition with_centers :: "window \<Rightarrow> ('a \<Rightarrow> rat option) \<Rightarrow> 'a list \<Rightarrow> series" where
  "with_centers w v accs = map (\<lambda>i. (slot_center w i, v (accs ! i))) [0..<slots w]"

definition gaugeSeries :: "window \<Rightarrow> row list \<Rightarrow> string \<Rightarrow> series" where
  "gaugeSeries w rows f =
     with_centers w (\<lambda>b. if ga_n b = 0 then None else Some (to_fixed 2 (ga_sum b f / of_nat (ga_n b)))) (gaugeAcc w rows)"

definition rateSeries :: "window \<Rightarrow> row list \<Rightarrow> string \<Rightarrow> series" where
  "rateSeries w rows f =
     with_centers w (\<lambda>a. if elapsedMs a > 0 then Some (to_fixed 3 (ra_sum a f / of_int (elapsedMs a) * 60000)) else None)
       (rateAcc w rows)"

definition shortLivedSeries :: "window \<Rightarrow> row list \<Rightarrow> series" where
  "shortLivedSeries w rows =
     with_centers w (\<lambda>a. if ra_sum a ''life_count'' > 0
         then Some (to_fixed 3 (ra_sum a ''life_le1'' / ra_sum a ''life_count'')) else None) (rateAcc w rows)"

definition bucketize :: "window \<Rightarrow> row list \<Rightarrow> (string \<times> series) list" where
  "bucketize w rows =
     [(''sockets_live'', gaugeSeries w rows ''sockets_live''), (''rooms_live'', gaugeSeries w rows ''rooms_live''),
      (''rooms_both'', gaugeSeries w rows ''rooms_both''), (''rooms_mac_only'', gaugeSeries w rows ''rooms_mac_only''),
      (''upgrade_rate'', rateSeries w rows ''ws_upgrades''), (''request_rate'', rateSeries w rows ''http_requests''),
      (''error_rate'', rateSeries w rows ''http_errors''), (''rejected_rate'', rateSeries w rows ''ws_rejected''),
      (''quota_rate'', rateSeries w rows ''quota_exceeded''), (''short_lived_frac'', shortLivedSeries w rows)]"

section \<open>The relay's payload\<close>

text \<open>A tile is a number or null.\<close>

type_synonym tiles = "(string \<times> rat option) list"

record caps =
  cp_socketsCap :: rat
  cp_roomsCap :: rat
  cp_warnFrac :: rat
  cp_critFrac :: rat

record error_cfg =
  ec_ratioThreshold :: rat
  ec_minRequests :: rat
  ec_exceptionThreshold :: rat

definition default_caps :: caps where
  "default_caps = \<lparr>cp_socketsCap = 200000, cp_roomsCap = 200000, cp_warnFrac = 7 / 10, cp_critFrac = 9 / 10\<rparr>"

definition default_errors :: error_cfg where
  "default_errors = \<lparr>ec_ratioThreshold = 5 / 100, ec_minRequests = 100, ec_exceptionThreshold = 1\<rparr>"

definition last_row :: "row list \<Rightarrow> row option" where
  "last_row rows = (if rows = [] then None else Some (List.last rows))"

definition current :: "row option \<Rightarrow> row list \<Rightarrow> row option" where
  "current latest rows = (case latest of Some r \<Rightarrow> Some r | None \<Rightarrow> last_row rows)"

definition gauge_now :: "row option \<Rightarrow> string \<Rightarrow> rat \<Rightarrow> rat" where
  "gauge_now cur f d = (case cur of None \<Rightarrow> d | Some r \<Rightarrow> col r f)"

definition pct :: "nat \<Rightarrow> rat \<Rightarrow> rat \<Rightarrow> rat \<Rightarrow> rat" where
  "pct places scale part whole = (if whole > 0 then to_fixed places (part / whole * scale) else 0)"

definition stale_ms :: "row option \<Rightarrow> int \<Rightarrow> rat option" where
  "stale_ms latest now = (case latest of None \<Rightarrow> None | Some r \<Rightarrow> if now = 0 then None else Some (of_int (now - ts r)))"

definition relay_tiles :: "row list \<Rightarrow> row option \<Rightarrow> int \<Rightarrow> tiles" where
  "relay_tiles rows latest now =
     (let cur = current latest rows; tot = windowTotal rows;
          requests = tot ''http_requests''; errors = tot ''http_errors''; closed = tot ''life_count''
      in [(''sockets_live'', Some (gauge_now cur ''sockets_live'' 0)), (''rooms_live'', Some (gauge_now cur ''rooms_live'' 0)),
          (''rooms_both'', Some (gauge_now cur ''rooms_both'' 0)), (''rooms_mac_only'', Some (gauge_now cur ''rooms_mac_only'' 0)),
          (''rooms_phone_only'', Some (gauge_now cur ''rooms_phone_only'' 0)),
          (''upgrades'', Some (tot ''ws_upgrades'')), (''rejected'', Some (tot ''ws_rejected'')),
          (''requests'', Some requests), (''errors'', Some errors), (''error_pct'', Some (pct 2 100 errors requests)),
          (''exceptions'', Some (tot ''exceptions'')), (''push_errors'', Some (tot ''push_errors'')),
          (''quota_closes'', Some (tot ''quota_exceeded'')),
          (''shard_map_version'', Some (gauge_now cur ''shard_map_version'' (-1))),
          (''shard_owned_buckets'', Some (gauge_now cur ''shard_owned_buckets'' 0)),
          (''shard_draining_buckets'', Some (gauge_now cur ''shard_draining_buckets'' 0)),
          (''shard_rejects'', Some (tot ''shard_reject'')), (''shard_map_reloads'', Some (tot ''shard_map_reloads'')),
          (''shard_map_fetch_errors'', Some (tot ''shard_map_fetch_errors'')),
          (''closed'', Some closed), (''short_lived_pct'', Some (pct 1 100 (tot ''life_le1'') closed)),
          (''avg_lifetime_s'', Some (pct 1 1 (tot ''life_sum'') closed)),
          (''last_sample_ts'', map_option (of_int \<circ> ts) cur), (''stale_ms'', stale_ms latest now)])"

definition health_alerts :: "texts \<Rightarrow> caps \<Rightarrow> error_cfg \<Rightarrow> row list \<Rightarrow> row option \<Rightarrow> alert list" where
  "health_alerts tx cp ec rows latest =
     (case current latest rows of
        None \<Rightarrow> []
      | Some r \<Rightarrow> capAlerts tx
          [\<lparr>mt_key = ''sockets'', mt_label = ''Live sockets'', used = col r ''sockets_live'', cap = cp_socketsCap cp,
            warnFrac = cp_warnFrac cp, critFrac = cp_critFrac cp, mt_unit = []\<rparr>,
           \<lparr>mt_key = ''rooms'', mt_label = ''Live rooms'', used = col r ''rooms_live'', cap = cp_roomsCap cp,
            warnFrac = cp_warnFrac cp, critFrac = cp_critFrac cp, mt_unit = []\<rparr>])
     @ List.map_filter id
         [errorAlert tx (windowTotal rows ''http_requests'') (windowTotal rows ''http_errors'') (ec_ratioThreshold ec) (ec_minRequests ec),
          exceptionAlert tx (windowTotal rows ''exceptions'') (ec_exceptionThreshold ec)]"

definition buildDashboard ::
  "texts \<Rightarrow> caps \<Rightarrow> error_cfg \<Rightarrow> row list \<Rightarrow> row option \<Rightarrow> window \<Rightarrow> int \<Rightarrow> tiles \<times> alert list \<times> (string \<times> series) list" where
  "buildDashboard tx cp ec rows latest w now =
     (relay_tiles rows latest now, health_alerts tx cp ec rows latest, bucketize w rows)"

section \<open>The push relay's payload\<close>

definition LAT_BOUNDS_MS :: "rat list" where
  "LAT_BOUNDS_MS = [50, 100, 250, 500, 1000, 2500, 5000, 10000]"

definition LAT_COLUMNS :: "string list" where
  "LAT_COLUMNS = map snd LAT_BUCKETS"

definition REJECT_FIELDS :: "string list" where
  "REJECT_FIELDS = map snd REJECT_COLUMNS @ [''rej_other'']"

definition REJECT_LABELS :: "(string \<times> string) list" where
  "REJECT_LABELS = map (\<lambda>(lab, c). (c, lab)) REJECT_COLUMNS @ [(''rej_other'', ''other'')]"

text \<open>The loop over the buckets: bound and cumulative count of each, with those of the one before.\<close>

fun quantile_loop :: "rat \<Rightarrow> rat \<Rightarrow> rat \<Rightarrow> (rat \<times> rat) list \<Rightarrow> rat" where
  "quantile_loop rank prevCount prevBound [] = prevBound"
| "quantile_loop rank prevCount prevBound ((b, c) # rest) =
     (if c \<ge> rank
      then if c - prevCount \<le> 0 then b
           else of_int (js_round (prevBound + (b - prevBound) * ((rank - prevCount) / (c - prevCount))))
      else quantile_loop rank c b rest)"

definition latencyQuantile :: "rat \<Rightarrow> rat list \<Rightarrow> rat \<Rightarrow> rat option" where
  "latencyQuantile q cum n =
     (if n > 0 then Some (quantile_loop (q * n) 0 0 (zip LAT_BOUNDS_MS cum)) else None)"

definition quantileSeries :: "window \<Rightarrow> row list \<Rightarrow> rat \<Rightarrow> series" where
  "quantileSeries w rows q =
     with_centers w (\<lambda>a. latencyQuantile q (map (ra_sum a) LAT_COLUMNS) (ra_sum a ''lat_count'')) (rateAcc w rows)"

definition bucketizePush :: "window \<Rightarrow> row list \<Rightarrow> (string \<times> series) list" where
  "bucketizePush w rows =
     [(''devices'', gaugeSeries w rows ''devices''), (''register_written_rate'', rateSeries w rows ''register_written''),
      (''register_skipped_rate'', rateSeries w rows ''register_skipped''),
      (''push_delivered_rate'', rateSeries w rows ''push_delivered''), (''push_failed_rate'', rateSeries w rows ''push_failed''),
      (''push_bad_secret_rate'', rateSeries w rows ''push_bad_secret''), (''apns_connects_rate'', rateSeries w rows ''apns_connects''),
      (''apns_timeouts_rate'', rateSeries w rows ''apns_timeouts''), (''apns_sessions'', gaugeSeries w rows ''apns_sessions''),
      (''apns_latency_p50'', quantileSeries w rows (1 / 2)), (''apns_latency_p95'', quantileSeries w rows (95 / 100))]"

definition reject_reasons :: "row list \<Rightarrow> (string \<times> rat) list" where
  "reject_reasons rows =
     sort_key (\<lambda>(_, n). - n)
       (filter (\<lambda>(_, n). n > 0)
          (map (\<lambda>f. (case map_of REJECT_LABELS f of None \<Rightarrow> [] | Some lab \<Rightarrow> lab, windowTotal rows f)) REJECT_FIELDS))"

definition push_tiles :: "row list \<Rightarrow> row option \<Rightarrow> int \<Rightarrow> tiles" where
  "push_tiles rows latest now =
     (let cur = current latest rows; tot = windowTotal rows;
          registrations = tot ''register''; skips = tot ''register_skipped''; sent = tot ''push'';
          good = tot ''push_delivered''; bad = tot ''push_failed''; attempts = good + bad;
          cum = map tot LAT_COLUMNS; n = tot ''lat_count''
      in [(''devices'', Some (gauge_now cur ''devices'' 0)), (''registrations'', Some registrations),
          (''writes'', Some (tot ''register_written'')), (''skips'', Some skips), (''skip_pct'', Some (pct 1 100 skips registrations)),
          (''pushes'', Some sent), (''delivered'', Some good), (''deliver_pct'', Some (pct 1 100 good sent)), (''failed'', Some bad),
          (''success_pct'', if attempts > 0 then Some (to_fixed 1 (good / attempts * 100)) else None),
          (''bad_secret'', Some (tot ''push_bad_secret'')), (''unknown_token'', Some (tot ''push_unknown_token'')),
          (''apns_errors'', Some (tot ''push_apns_error'')), (''rate_limited'', Some (tot ''rate_limited'')),
          (''rejected_total'', Some (sum_list (map snd (reject_reasons rows)))),
          (''latency_p50_ms'', latencyQuantile (1 / 2) cum n), (''latency_p95_ms'', latencyQuantile (95 / 100) cum n),
          (''latency_samples'', Some n), (''apns_sessions'', Some (gauge_now cur ''apns_sessions'' 0)),
          (''apns_session_age_s'', Some (gauge_now cur ''apns_oldest_session_s'' 0)),
          (''apns_connects'', Some (tot ''apns_connects'')), (''apns_throttled'', Some (tot ''apns_throttled'')),
          (''apns_timeouts'', Some (tot ''apns_timeouts'')), (''apns_session_errors'', Some (tot ''apns_session_errors'')),
          (''apns_discarded'', Some (tot ''apns_discard_idle'' + tot ''apns_discard_timeout'')),
          (''last_delivery_age_ms'', case cur of
             None \<Rightarrow> None
           | Some r \<Rightarrow> if col r ''last_delivery_ts'' > 0 then Some (max 0 (of_int (ts r) - col r ''last_delivery_ts'' * 1000)) else None),
          (''last_sample_ts'', map_option (of_int \<circ> ts) cur), (''stale_ms'', stale_ms latest now)])"

definition buildPush ::
  "row list \<Rightarrow> row option \<Rightarrow> window \<Rightarrow> int \<Rightarrow> tiles \<times> (string \<times> rat) list \<times> (string \<times> series) list" where
  "buildPush rows latest w now = (push_tiles rows latest now, reject_reasons rows, bucketizePush w rows)"

section \<open>Charts and tiles count the same\<close>

lemma slot_range: "0 < slots w \<Longrightarrow> nat (slot_of w t) < slots w"
  by (auto simp: slot_of_def)

lemma length_bump [simp]: "length (bump i f xs) = length xs"
  by (simp add: bump_def)

lemma sum_replace: "i < length xs \<Longrightarrow> sum_list (xs[i := y]) = sum_list xs + (y - xs ! i :: 'a :: ab_group_add)"
proof (induction xs arbitrary: i)
  case (Cons x xs)
  then show ?case by (cases i) (simp_all add: algebra_simps)
qed simp

lemma sum_bump:
  assumes "i < length xs" "g (f (xs ! i)) = g (xs ! i) + (d :: 'a :: ab_group_add)"
  shows "sum_list (map g (bump i f xs)) = sum_list (map g xs) + d"
  using assms by (simp add: bump_def map_update sum_replace)

lemma length_rate_steps [simp]: "length (rate_steps w rows acc) = length acc"
  by (induction w rows acc rule: rate_steps.induct) simp_all

lemma rate_steps_sum:
  "0 < slots w \<Longrightarrow> length acc = slots w \<Longrightarrow>
    sum_list (map (\<lambda>a. ra_sum a f) (rate_steps w rows acc)) = sum_list (map (\<lambda>a. ra_sum a f) acc) + windowTotal rows f"
proof (induction w rows acc rule: rate_steps.induct)
  case (1 w prev cur rows acc)
  have pos: "nat (slot_of w (ts cur)) < slots w" by (rule slot_range [OF "1.prems"(1)])
  have "sum_list (map (\<lambda>a. ra_sum a f) (bump (nat (slot_of w (ts cur))) (rate_step prev cur) acc))
      = sum_list (map (\<lambda>a. ra_sum a f) acc) + step_of prev cur f"
    using "1.prems" pos by (intro sum_bump) (simp_all add: rate_step_def)
  with "1.IH" "1.prems" show ?case by simp
qed simp_all

fun covered_ms :: "row list \<Rightarrow> int" where
  "covered_ms (prev # cur # rows) = max 0 (ts cur - ts prev) + covered_ms (cur # rows)"
| "covered_ms _ = 0"

lemma rate_steps_elapsed:
  "0 < slots w \<Longrightarrow> length acc = slots w \<Longrightarrow>
    sum_list (map elapsedMs (rate_steps w rows acc)) = sum_list (map elapsedMs acc) + covered_ms rows"
proof (induction w rows acc rule: rate_steps.induct)
  case (1 w prev cur rows acc)
  have pos: "nat (slot_of w (ts cur)) < slots w" by (rule slot_range [OF "1.prems"(1)])
  have "sum_list (map elapsedMs (bump (nat (slot_of w (ts cur))) (rate_step prev cur) acc))
      = sum_list (map elapsedMs acc) + max 0 (ts cur - ts prev)"
    using "1.prems" pos by (intro sum_bump) (simp_all add: rate_step_def)
  with "1.IH" "1.prems" show ?case by simp
qed simp_all

lemma gauge_fold:
  assumes "0 < slots w"
  shows "length acc = slots w \<Longrightarrow>
    sum_list (map ga_n (fold (\<lambda>r. bump (nat (slot_of w (ts r))) (gauge_row r)) rows acc)) = sum_list (map ga_n acc) + length rows
    \<and> sum_list (map (\<lambda>b. ga_sum b f) (fold (\<lambda>r. bump (nat (slot_of w (ts r))) (gauge_row r)) rows acc))
        = sum_list (map (\<lambda>b. ga_sum b f) acc) + sum_list (map (\<lambda>r. col r f) rows)"
proof (induction rows arbitrary: acc)
  case (Cons r rows)
  let ?acc = "bump (nat (slot_of w (ts r))) (gauge_row r) acc"
  have i: "nat (slot_of w (ts r)) < length acc" using slot_range [OF assms] Cons.prems by simp
  have "sum_list (map (\<lambda>b. ga_sum b f) ?acc) = sum_list (map (\<lambda>b. ga_sum b f) acc) + col r f"
    by (rule sum_bump [OF i]) (simp add: gauge_row_def)
  moreover have "int (sum_list (map ga_n ?acc)) = int (sum_list (map ga_n acc)) + 1"
  proof -
    have e: "int (sum_list (map ga_n xs)) = sum_list (map (\<lambda>b. int (ga_n b)) xs)" for xs by (induction xs) simp_all
    show ?thesis unfolding e by (rule sum_bump [OF i]) (simp add: gauge_row_def)
  qed
  ultimately show ?case using Cons.IH [of ?acc] Cons.prems by simp
qed simp

lemma slots_add_up_aux:
  assumes "0 < slots w"
  shows "sum_list (map (\<lambda>a. ra_sum a f) (rateAcc w rows)) = windowTotal rows f
    \<and> sum_list (map elapsedMs (rateAcc w rows)) = covered_ms rows
    \<and> sum_list (map ga_n (gaugeAcc w rows)) = length rows
    \<and> sum_list (map (\<lambda>b. ga_sum b f) (gaugeAcc w rows)) = sum_list (map (\<lambda>r. col r f) rows)"
  using rate_steps_sum [OF assms, of "replicate (slots w) \<lparr>elapsedMs = 0, ra_sum = \<lambda>_. 0\<rparr>" f rows]
    rate_steps_elapsed [OF assms, of "replicate (slots w) \<lparr>elapsedMs = 0, ra_sum = \<lambda>_. 0\<rparr>" rows]
    gauge_fold [OF assms, of "replicate (slots w) \<lparr>ga_sum = \<lambda>_. 0, ga_n = 0\<rparr>" rows f]
  by (simp add: rateAcc_def gaugeAcc_def map_replicate sum_list_replicate)

text \<open>
  The charts and the tiles of the dashboard count the same events: spread over the slots of any
  window, the steps of a counter add up to its window total, the time they are divided by adds up to the
  time between the samples, and every sample is averaged in exactly one slot.
\<close>

theorem slots_add_up:
  assumes "0 < slots w"
  shows "sum_list (map (\<lambda>a. ra_sum a f) (rateAcc w rows)) = windowTotal rows f
    \<and> sum_list (map elapsedMs (rateAcc w rows)) = covered_ms rows
    \<and> sum_list (map ga_n (gaugeAcc w rows)) = length rows
    \<and> sum_list (map (\<lambda>b. ga_sum b f) (gaugeAcc w rows)) = sum_list (map (\<lambda>r. col r f) rows)"
  using assms by (rule slots_add_up_aux)

theorem slots_add_up_witness:
  "sum_list (map (\<lambda>a. ra_sum a ''push'') (rateAcc \<lparr>fromMs = 0, toMs = 100, slots = 4\<rparr>
      [\<lparr>ts = 10, col = \<lambda>_. 5\<rparr>, \<lparr>ts = 60, col = \<lambda>_. 8\<rparr>, \<lparr>ts = 90, col = \<lambda>_. 2\<rparr>])) = 3"
  using slots_add_up [of "\<lparr>fromMs = 0, toMs = 100, slots = 4\<rparr>" "''push''"
      "[\<lparr>ts = 10, col = \<lambda>_. 5\<rparr>, \<lparr>ts = 60, col = \<lambda>_. 8\<rparr>, \<lparr>ts = 90, col = \<lambda>_. 2\<rparr>]"]
  by (simp add: step_of_def)

section \<open>Restarts\<close>

text \<open>
  What a counter really counted between two samples: without a restart the values differ by it, after
  a restart the second value is at most it. \<open>calm\<close> says there was none.
\<close>

fun counted :: "string \<Rightarrow> rat list \<Rightarrow> row list \<Rightarrow> bool" where
  "counted f (e # es) (prev # cur # rows) \<longleftrightarrow>
     0 \<le> e \<and> (col cur f = col prev f + e \<or> col cur f \<le> e) \<and> counted f es (cur # rows)"
| "counted f es rows \<longleftrightarrow> es = [] \<and> length rows \<le> 1"

fun calm :: "string \<Rightarrow> rat list \<Rightarrow> row list \<Rightarrow> bool" where
  "calm f (e # es) (prev # cur # rows) \<longleftrightarrow> col cur f = col prev f + e \<and> calm f es (cur # rows)"
| "calm f es rows \<longleftrightarrow> True"

lemma window_short: "length rows \<le> 1 \<Longrightarrow> windowTotal rows f = 0"
  by (cases rows rule: remdups_adj.cases) simp_all

text \<open>
  C31. A window total never counts more events than there were, however often the relay restarted in
  the window, it is never negative, and it is exact if the relay did not restart.
\<close>

theorem window_never_overcounts:
  assumes "counted f es rows" "\<forall>r \<in> set rows. 0 \<le> col r f"
  shows "0 \<le> windowTotal rows f \<and> windowTotal rows f \<le> sum_list es
    \<and> (calm f es rows \<longrightarrow> windowTotal rows f = sum_list es)"
  using assms
proof (induction f es rows rule: counted.induct)
  case (1 f e es prev cur rows)
  have IH: "0 \<le> windowTotal (cur # rows) f \<and> windowTotal (cur # rows) f \<le> sum_list es
      \<and> (calm f es (cur # rows) \<longrightarrow> windowTotal (cur # rows) f = sum_list es)"
    using 1 by simp
  have "0 \<le> step_of prev cur f" "step_of prev cur f \<le> e" "col cur f = col prev f + e \<longrightarrow> step_of prev cur f = e"
    using "1.prems" by (auto simp: step_of_def Let_def)
  with IH show ?case by auto
qed (simp_all add: window_short)

theorem window_never_overcounts_witness:
  "windowTotal [\<lparr>ts = 0, col = \<lambda>_. 5\<rparr>, \<lparr>ts = 1, col = \<lambda>_. 9\<rparr>, \<lparr>ts = 2, col = \<lambda>_. 2\<rparr>] ''push'' \<le> (4 + (3 + 0))"
  using window_never_overcounts [of "''push''" "[4, 3]" "[\<lparr>ts = 0, col = \<lambda>_. 5\<rparr>, \<lparr>ts = 1, col = \<lambda>_. 9\<rparr>, \<lparr>ts = 2, col = \<lambda>_. 2\<rparr>]"]
  by simp

text \<open>
  Each column is judged on its own, so a restart can show in one column and not in another: here the
  relay restarted between the samples and closed eight sockets since, and the tile of the short-lived
  share says 400 per cent.
\<close>

lemma short_lived_above_hundred:
  "map_of (relay_tiles
      [\<lparr>ts = 0, col = (\<lambda>f. if f = ''life_count'' then 10 else 0)\<rparr>,
       \<lparr>ts = 1, col = (\<lambda>f. if f = ''life_count'' then 8 else if f = ''life_le1'' then 8 else 0)\<rparr>,
       \<lparr>ts = 2, col = (\<lambda>f. if f = ''life_count'' then 10 else if f = ''life_le1'' then 8 else 0)\<rparr>] None 3) ''short_lived_pct''
   = Some (Some 400)"
proof -
  have "\<lfloor>8001 / 2 :: rat\<rfloor> = 4000" by (simp add: floor_unique)
  then show ?thesis by (simp add: relay_tiles_def step_of_def pct_def to_fixed_def Let_def)
qed

section \<open>Quantiles\<close>

fun bounds_from :: "rat \<Rightarrow> (rat \<times> rat) list \<Rightarrow> bool" where
  "bounds_from lo [] \<longleftrightarrow> True"
| "bounds_from lo ((b, c) # rest) \<longleftrightarrow> lo \<le> b \<and> b \<in> \<int> \<and> bounds_from b rest"

lemma js_round_mono: "x \<le> y \<Longrightarrow> js_round x \<le> js_round y"
  by (simp add: js_round_def floor_mono)

lemma js_round_Ints: "x \<in> \<int> \<Longrightarrow> of_int (js_round x) = x"
  by (elim Ints_cases) (simp add: js_round_def floor_unique)

lemma interpolated:
  assumes "lo \<le> b" "pc < rank" "rank \<le> c"
  shows "lo \<le> lo + (b - lo) * ((rank - pc) / (c - pc))" "lo + (b - lo) * ((rank - pc) / (c - pc)) \<le> (b :: rat)"
proof -
  have t: "0 \<le> (rank - pc) / (c - pc)" "(rank - pc) / (c - pc) \<le> 1" using assms(2,3) by simp_all
  have "0 \<le> (b - lo) * ((rank - pc) / (c - pc))" using t(1) assms(1) by (intro mult_nonneg_nonneg) simp_all
  then show "lo \<le> lo + (b - lo) * ((rank - pc) / (c - pc))" by linarith
  have "(b - lo) * ((rank - pc) / (c - pc)) \<le> (b - lo) * 1" using t(2) assms(1) by (intro mult_left_mono) simp_all
  then show "lo + (b - lo) * ((rank - pc) / (c - pc)) \<le> b" by simp
qed

lemma rounded_between:
  assumes "lo \<in> \<int>" "b \<in> \<int>" "lo \<le> x" "x \<le> b"
  shows "lo \<le> of_int (js_round x)" "of_int (js_round x) \<le> (b :: rat)"
proof -
  have "js_round lo \<le> js_round x" "js_round x \<le> js_round b" using assms(3,4) by (simp_all add: js_round_mono)
  then have "of_int (js_round lo) \<le> (of_int (js_round x) :: rat)" "of_int (js_round x) \<le> (of_int (js_round b) :: rat)" by simp_all
  then show "lo \<le> of_int (js_round x)" "of_int (js_round x) \<le> b"
    using js_round_Ints assms(1,2) by simp_all
qed

lemma quantile_ge:
  "lo \<in> \<int> \<Longrightarrow> bounds_from lo bs \<Longrightarrow> pc < rank \<Longrightarrow> lo \<le> quantile_loop rank pc lo bs"
proof (induction rank pc lo bs rule: quantile_loop.induct)
  case (2 rank pc lo b c rest)
  show ?case
  proof (cases "c \<ge> rank")
    case True
    with 2 have "lo \<le> of_int (js_round (lo + (b - lo) * ((rank - pc) / (c - pc))))"
      by (intro rounded_between(1) [where b = b] interpolated) simp_all
    with True "2.prems" show ?thesis by simp
  next
    case False
    with 2 have "b \<le> quantile_loop rank c b rest" "lo \<le> b" by simp_all
    with False show ?thesis by simp
  qed
qed simp

lemma quantile_mono:
  "lo \<in> \<int> \<Longrightarrow> bounds_from lo bs \<Longrightarrow> pc < r1 \<Longrightarrow> r1 \<le> r2 \<Longrightarrow> quantile_loop r1 pc lo bs \<le> quantile_loop r2 pc lo bs"
proof (induction r1 pc lo bs rule: quantile_loop.induct)
  case (2 r1 pc lo b c rest)
  have b: "lo \<le> b" "b \<in> \<int>" "bounds_from b rest" using "2.prems" by simp_all
  consider "c < r1" | "r1 \<le> c" "c < r2" | "r2 \<le> c" by linarith
  then show ?case
  proof cases
    case 1
    with "2.IH" "2.prems" b show ?thesis by simp
  next
    case 2
    have "of_int (js_round (lo + (b - lo) * ((r1 - pc) / (c - pc)))) \<le> b"
      using b 2 \<open>lo \<in> \<int>\<close> \<open>pc < r1\<close> by (intro rounded_between(2) [where lo = lo] interpolated) simp_all
    also have "b \<le> quantile_loop r2 c b rest" using b 2 by (intro quantile_ge) simp_all
    finally show ?thesis using 2 \<open>pc < r1\<close> by simp
  next
    case 3
    have "(r1 - pc) / (c - pc) \<le> (r2 - pc) / (c - pc)"
      using 3 \<open>pc < r1\<close> \<open>r1 \<le> r2\<close> by (intro divide_right_mono) simp_all
    then have "(b - lo) * ((r1 - pc) / (c - pc)) \<le> (b - lo) * ((r2 - pc) / (c - pc))"
      using b(1) by (intro mult_left_mono) simp_all
    then have "js_round (lo + (b - lo) * ((r1 - pc) / (c - pc))) \<le> js_round (lo + (b - lo) * ((r2 - pc) / (c - pc)))"
      by (intro js_round_mono) simp
    with 3 \<open>pc < r1\<close> \<open>r1 \<le> r2\<close> show ?thesis by simp
  qed
qed simp

text \<open>The bucket a rank falls into: the first that counts at least as many.\<close>

fun rank_bucket :: "rat \<Rightarrow> rat \<Rightarrow> (rat \<times> rat) list \<Rightarrow> rat \<times> rat" where
  "rank_bucket rank lo [] = (lo, lo)"
| "rank_bucket rank lo ((b, c) # rest) = (if c \<ge> rank then (lo, b) else rank_bucket rank b rest)"

lemma quantile_in_bucket:
  "lo \<in> \<int> \<Longrightarrow> bounds_from lo bs \<Longrightarrow> pc < rank \<Longrightarrow>
    fst (rank_bucket rank lo bs) \<le> quantile_loop rank pc lo bs \<and> quantile_loop rank pc lo bs \<le> snd (rank_bucket rank lo bs)"
proof (induction rank pc lo bs rule: quantile_loop.induct)
  case (2 rank pc lo b c rest)
  show ?case
  proof (cases "c \<ge> rank")
    case True
    with 2 have "lo \<le> of_int (js_round (lo + (b - lo) * ((rank - pc) / (c - pc))))"
      "of_int (js_round (lo + (b - lo) * ((rank - pc) / (c - pc)))) \<le> b"
      by (intro rounded_between [where b = b and lo = lo] interpolated; simp)+
    with True "2.prems" show ?thesis by simp
  next
    case False
    with 2 show ?thesis by simp
  qed
qed simp

lemma latency_bounds: "bounds_from 0 (zip LAT_BOUNDS_MS cum)"
proof -
  have "sorted bs \<Longrightarrow> (\<forall>b \<in> set bs. lo \<le> b \<and> b \<in> \<int>) \<Longrightarrow> bounds_from lo (zip bs cs)" for lo bs cs
  proof (induction bs arbitrary: lo cs)
    case (Cons b bs)
    then show ?case by (cases cs) auto
  qed simp
  moreover have "sorted LAT_BOUNDS_MS" by (simp add: LAT_BOUNDS_MS_def)
  moreover have "\<forall>b \<in> set LAT_BOUNDS_MS. 0 \<le> b \<and> b \<in> \<int>" by (simp add: LAT_BOUNDS_MS_def)
  ultimately show ?thesis by blast
qed

text \<open>
  A latency quantile lies in the bucket its rank falls into, the first one that counts at least as many
  deliveries, or at the last bound when the rank is above all of them; and quantiles are ordered: the
  median is never above the 95th percentile. Both hold for any counts, also those a restart has left out of order.
\<close>

theorem quantiles_ordered:
  assumes "0 < p" "p \<le> q" "latencyQuantile p cum n = Some x" "latencyQuantile q cum n = Some y"
  shows "x \<le> y \<and> fst (rank_bucket (p * n) 0 (zip LAT_BOUNDS_MS cum)) \<le> x \<and> x \<le> snd (rank_bucket (p * n) 0 (zip LAT_BOUNDS_MS cum))"
proof -
  have n: "0 < n" using assms(3) by (simp add: latencyQuantile_def split: if_splits)
  have xy: "x = quantile_loop (p * n) 0 0 (zip LAT_BOUNDS_MS cum)" "y = quantile_loop (q * n) 0 0 (zip LAT_BOUNDS_MS cum)"
    using assms(3,4) n by (simp_all add: latencyQuantile_def)
  have "0 < p * n" "p * n \<le> q * n" using assms(1,2) n by simp_all
  then show ?thesis
    unfolding xy using quantile_mono [OF Ints_0 latency_bounds] quantile_in_bucket [OF Ints_0 latency_bounds] by blast
qed

theorem quantiles_ordered_witness:
  "\<exists>x y. latencyQuantile (1 / 2) [10, 30, 30, 40, 40, 40, 40, 40] 40 = Some x
     \<and> latencyQuantile (95 / 100) [10, 30, 30, 40, 40, 40, 40, 40] 40 = Some y \<and> x \<le> y \<and> 50 \<le> x \<and> x \<le> 100"
proof -
  let ?cum = "[10, 30, 30, 40, 40, 40, 40, 40] :: rat list"
  obtain x y where e: "latencyQuantile (1 / 2) ?cum 40 = Some x" "latencyQuantile (95 / 100) ?cum 40 = Some y"
    by (simp add: latencyQuantile_def)
  with quantiles_ordered [of "1 / 2" "95 / 100" ?cum 40 x y] show ?thesis by (simp add: LAT_BOUNDS_MS_def)
qed

end
