(* ===== verification/DashStore.thy ===== *)
theory DashStore
  imports DashSeries
begin

text \<open>
  The history of the dashboard: its two SQLite tables, \<^verbatim>\<open>dashboard/db.js\<close>, and the collector that fills
  them, \<^verbatim>\<open>dashboard/collector.js\<close>. A table is the list of its rows by time, which is its primary key.
  The collector is written for any store that keeps the laws of the locale \<open>sample_store\<close>, and both tables do.
\<close>

section \<open>Columns\<close>

definition COLUMNS :: "string list" where
  "COLUMNS =
     [''ws_upgrades'', ''ws_rejected'', ''http_requests'', ''http_errors'', ''exceptions'', ''push_errors'',
      ''rooms_live'', ''sockets_live'']
     @ map (\<lambda>b. life_col (show_nat b)) LIFETIME_BUCKETS
     @ [''life_count'', ''life_sum'', ''quota_exceeded'', ''shard_reject'', ''shard_map_reloads'',
        ''shard_map_fetch_errors'', ''shard_map_version'', ''shard_owned_buckets'', ''shard_draining_buckets'',
        ''rooms_both'', ''rooms_mac_only'', ''rooms_phone_only'']"

definition PUSH_COLUMNS :: "string list" where
  "PUSH_COLUMNS = PUSH_FIELDS"

section \<open>One table\<close>

text \<open>A column the table does not have is read as 0 in \<open>col\<close>; no statement asks for one.\<close>

record table =
  tb_cols :: "string list"
  tb_rows :: "row list"

definition add_column :: "string \<Rightarrow> table \<Rightarrow> table" where
  "add_column c t =
     t\<lparr>tb_cols := tb_cols t @ [c], tb_rows := map (\<lambda>r. r\<lparr>col := (col r)(c := 0)\<rparr>) (tb_rows t)\<rparr>"

definition ensureColumns :: "string list \<Rightarrow> table \<Rightarrow> table" where
  "ensureColumns columns t =
     (let have = tb_cols t in fold (\<lambda>c t'. if c \<in> set have then t' else add_column c t') columns t)"

text \<open>
  The constructor for one table: \<open>CREATE TABLE IF NOT EXISTS\<close>, the migration, and the insert statement,
  which cannot be prepared (\<open>None\<close>) if a column is missing.
\<close>

definition open_table :: "string list \<Rightarrow> table option \<Rightarrow> table option" where
  "open_table columns existing =
     (let t = ensureColumns columns
                (case existing of None \<Rightarrow> \<lparr>tb_cols = ''ts'' # columns, tb_rows = []\<rparr> | Some t \<Rightarrow> t)
      in if list_all (\<lambda>c. c \<in> set (tb_cols t)) (''ts'' # columns) then Some t else None)"

definition row_of :: "string list \<Rightarrow> int \<Rightarrow> (string \<times> rat) list \<Rightarrow> row" where
  "row_of columns t sample =
     \<lparr>ts = t, col = (\<lambda>c. if c \<in> set columns then or_zero (map_of sample c) else 0)\<rparr>"

text \<open>\<open>INSERT OR REPLACE\<close>.\<close>

fun put_row :: "row \<Rightarrow> row list \<Rightarrow> row list" where
  "put_row r [] = [r]"
| "put_row r (x # xs) =
     (if ts r < ts x then r # x # xs else if ts r = ts x then r # xs else x # put_row r xs)"

definition insert_sample :: "string list \<Rightarrow> int \<Rightarrow> (string \<times> rat) list \<Rightarrow> table \<Rightarrow> table" where
  "insert_sample columns t sample tb = tb\<lparr>tb_rows := put_row (row_of columns t sample) (tb_rows tb)\<rparr>"

definition range_rows :: "rat \<Rightarrow> rat \<Rightarrow> table \<Rightarrow> row list" where
  "range_rows fromT toT tb = filter (\<lambda>r. of_int (ts r) \<ge> fromT \<and> of_int (ts r) \<le> toT) (tb_rows tb)"

definition latest_row :: "table \<Rightarrow> row option" where
  "latest_row tb = last_row (tb_rows tb)"

definition prune_rows :: "rat \<Rightarrow> table \<Rightarrow> table \<times> nat" where
  "prune_rows cutoff tb =
     (let kept = filter (\<lambda>r. \<not> of_int (ts r) < cutoff) (tb_rows tb)
      in (tb\<lparr>tb_rows := kept\<rparr>, length (tb_rows tb) - length kept))"

section \<open>The collector\<close>

record 's collector =
  pruneAccum :: rat
  store :: 's
  reported :: nat

text \<open>What a scrape gives: no answer, or whether its status is good, and its text.\<close>

type_synonym scrape = "(bool \<times> string) option"

text \<open>
  \<open>tick\<close> from the end of its fetch on: nothing before that changes state, and nothing after it waits,
  so ticks that overlap are steps in the order in which their fetches end. The clock is read once for
  the sample and once for the pruning. A store operation that throws is not modelled.
\<close>

definition collect ::
  "(string \<Rightarrow> 'p) \<Rightarrow> (int \<Rightarrow> 'p \<Rightarrow> 's \<Rightarrow> 's) \<Rightarrow> (rat \<Rightarrow> 's \<Rightarrow> 's) \<Rightarrow> rat \<Rightarrow> rat \<Rightarrow> scrape \<times> int \<times> int \<Rightarrow>
   's collector \<Rightarrow> 's collector" where
  "collect parse put prune intervalMs retentionMs ev c =
     (case ev of (answer, now1, now2) \<Rightarrow>
        let c1 = (case answer of
                    Some (True, body) \<Rightarrow> c\<lparr>store := put now1 (parse body) (store c)\<rparr>
                  | _ \<Rightarrow> c\<lparr>reported := reported c + 1\<rparr>);
            accum = pruneAccum c1 + intervalMs
        in if accum \<ge> 3600000
           then c1\<lparr>pruneAccum := 0, store := prune (of_int now2 - retentionMs) (store c1)\<rparr>
           else c1\<lparr>pruneAccum := accum\<rparr>)"

text \<open>The readings of a clock that does not go back, from \<open>t\<close> on.\<close>

fun clocked :: "int \<Rightarrow> (scrape \<times> int \<times> int) list \<Rightarrow> bool" where
  "clocked t [] \<longleftrightarrow> True"
| "clocked t ((a, n1, n2) # evs) \<longleftrightarrow> t \<le> n1 \<and> n1 \<le> n2 \<and> clocked n2 evs"

lemma clocked_mono: "clocked t evs \<Longrightarrow> s \<le> t \<Longrightarrow> clocked s evs"
  by (cases evs) auto

section \<open>What the collector needs of a store\<close>

locale sample_store =
  fixes valid :: "'s \<Rightarrow> bool"
    and lookup :: "'s \<Rightarrow> int \<Rightarrow> 'r option"
    and put :: "int \<Rightarrow> 'p \<Rightarrow> 's \<Rightarrow> 's"
    and prune :: "rat \<Rightarrow> 's \<Rightarrow> 's"
    and row :: "int \<Rightarrow> 'p \<Rightarrow> 'r"
  assumes valid_put: "valid s \<Longrightarrow> valid (put t p s)"
    and valid_prune: "valid s \<Longrightarrow> valid (prune c s)"
    and lookup_put: "valid s \<Longrightarrow> lookup (put t p s) = (lookup s)(t \<mapsto> row t p)"
    and lookup_prune: "valid s \<Longrightarrow> lookup (prune c s) = (\<lambda>t. if of_int t < c then None else lookup s t)"
begin

definition steps :: "(string \<Rightarrow> 'p) \<Rightarrow> rat \<Rightarrow> rat \<Rightarrow> (scrape \<times> int \<times> int) list \<Rightarrow> 's collector \<Rightarrow> 's collector" where
  "steps parse every keep evs c = fold (collect parse put prune every keep) evs c"

lemma collect_valid: "valid (store c) \<Longrightarrow> valid (store (collect parse put prune every keep ev c))"
  by (auto simp: collect_def valid_put valid_prune Let_def split: prod.splits option.splits bool.splits)

lemma steps_valid: "valid (store c) \<Longrightarrow> valid (store (steps parse every keep evs c))"
  unfolding steps_def by (induction evs arbitrary: c) (simp_all add: collect_valid)

lemma collect_accum:
  assumes "0 < every" "0 \<le> pruneAccum c" "pruneAccum c < 3600000"
  shows "0 \<le> pruneAccum (collect parse put prune every keep ev c) \<and> pruneAccum (collect parse put prune every keep ev c) < 3600000"
  using assms by (auto simp: collect_def Let_def split: prod.splits option.splits bool.splits)

text \<open>A step keeps what is young enough, and adds nothing old.\<close>

lemma collect_keeps:
  assumes "valid (store c)" "n1 \<le> n2" "of_int t \<ge> of_int n2 - keep" "lookup (store c) t \<noteq> None"
  shows "lookup (store (collect parse put prune every keep (a, n1, n2) c)) t \<noteq> None"
  using assms by (auto simp: collect_def lookup_put lookup_prune valid_put Let_def split: option.splits bool.splits prod.splits)

lemma collect_young:
  assumes "valid (store c)" "t0 \<le> n1" "0 \<le> keep"
    and "lookup (store (collect parse put prune every keep (a, n1, n2) c)) t \<noteq> None"
  shows "of_int t \<ge> of_int t0 - keep \<or> lookup (store c) t \<noteq> None"
proof -
  have "of_int n1 \<ge> (of_int t0 - keep :: rat)"
    using assms(2,3) by (metis add_increasing2 diff_le_eq of_int_le_iff)
  then show ?thesis
    using assms by (auto simp: collect_def lookup_put lookup_prune valid_put Let_def
        split: option.splits bool.splits prod.splits if_splits)
qed

text \<open>A step that prunes leaves nothing older than the retention.\<close>

lemma collect_prunes:
  assumes "valid (store c)" "t0 \<le> n1" "n1 \<le> n2" "pruneAccum c + every \<ge> 3600000"
    and "lookup (store (collect parse put prune every keep (a, n1, n2) c)) t \<noteq> None"
  shows "of_int t \<ge> of_int t0 - keep"
proof -
  have "of_int n2 \<ge> (of_int t0 :: rat)" using assms(2,3) by simp
  moreover have "\<not> of_int t < of_int n2 - keep"
    using assms by (auto simp: collect_def lookup_put lookup_prune valid_put Let_def
        split: option.splits bool.splits prod.splits if_splits)
  ultimately show ?thesis by linarith
qed

definition young :: "int \<Rightarrow> rat \<Rightarrow> 's \<Rightarrow> bool" where
  "young t0 keep s \<longleftrightarrow> (\<forall>t. lookup s t \<noteq> None \<longrightarrow> of_int t \<ge> of_int t0 - keep)"

lemma steps_young:
  assumes "0 \<le> keep"
  shows "valid (store c) \<Longrightarrow> clocked t0 evs \<Longrightarrow> young t0 keep (store c) \<Longrightarrow> young t0 keep (store (steps parse every keep evs c))"
  unfolding steps_def
proof (induction evs arbitrary: c)
  case (Cons ev evs)
  obtain a n1 n2 where ev: "ev = (a, n1, n2)" using prod_cases3 by blast
  have "clocked t0 evs" using Cons.prems(2) ev clocked_mono [of n2 evs t0] by simp
  moreover have "young t0 keep (store (collect parse put prune every keep ev c))"
    using collect_young [OF Cons.prems(1) _ assms] Cons.prems(2,3) unfolding young_def ev by (simp, blast)
  ultimately show ?case using Cons.IH collect_valid [OF Cons.prems(1)] by simp
qed simp

lemma steps_prune:
  assumes "0 \<le> keep" "0 < every"
  shows "valid (store c) \<Longrightarrow> clocked t0 evs \<Longrightarrow> 0 \<le> pruneAccum c \<Longrightarrow>
    pruneAccum c + of_nat (length evs) * every \<ge> 3600000 \<Longrightarrow> evs \<noteq> [] \<Longrightarrow>
    young t0 keep (store (steps parse every keep evs c))"
proof (induction evs arbitrary: c)
  case (Cons ev evs)
  obtain a n1 n2 where ev: "ev = (a, n1, n2)" using prod_cases3 by blast
  let ?c = "collect parse put prune every keep ev c"
  have clk: "t0 \<le> n1" "n1 \<le> n2" "clocked t0 evs" using Cons.prems(2) ev clocked_mono [of n2 evs t0] by auto
  have v: "valid (store ?c)" by (rule collect_valid [OF Cons.prems(1)])
  show ?case
  proof (cases "pruneAccum c + every \<ge> 3600000")
    case True
    have "young t0 keep (store ?c)"
      using collect_prunes [OF Cons.prems(1) clk(1,2) True] unfolding young_def ev by blast
    from steps_young [OF assms(1) v clk(3) this] show ?thesis by (simp add: steps_def)
  next
    case False
    have acc: "pruneAccum ?c = pruneAccum c + every"
      using False by (auto simp: collect_def Let_def ev split: option.splits bool.splits prod.splits)
    have "evs \<noteq> []" using False Cons.prems(4) by auto
    with Cons.IH [OF v clk(3)] acc Cons.prems(3,4) assms(2) show ?thesis
      by (simp add: steps_def algebra_simps)
  qed
qed simp

lemma steps_keep:
  assumes "0 \<le> keep"
  shows "valid (store c) \<Longrightarrow> clocked t0 evs \<Longrightarrow> \<forall>(a, n1, n2) \<in> set evs. n2 \<le> t1 \<Longrightarrow> of_int t \<ge> of_int t1 - keep \<Longrightarrow>
    lookup (store c) t \<noteq> None \<Longrightarrow> lookup (store (steps parse every keep evs c)) t \<noteq> None"
proof (induction evs arbitrary: c)
  case (Cons ev evs)
  obtain a n1 n2 where ev: "ev = (a, n1, n2)" using prod_cases3 by blast
  have clk: "n1 \<le> n2" "clocked t0 evs" "n2 \<le> t1" using Cons.prems(2,3) ev clocked_mono [of n2 evs t0] by auto
  have "(of_int t1 :: rat) \<ge> of_int n2" using clk(3) by simp
  with Cons.prems(4) have t: "of_int t \<ge> of_int n2 - keep" by linarith
  have "lookup (store (collect parse put prune every keep ev c)) t \<noteq> None"
    unfolding ev by (rule collect_keeps [OF Cons.prems(1) clk(1) t Cons.prems(5)])
  with Cons.IH [OF collect_valid [OF Cons.prems(1)] clk(2) _ Cons.prems(4)] Cons.prems(3)
  show ?case by (simp add: steps_def)
qed (simp add: steps_def)

end

section \<open>The two tables keep the laws\<close>

definition valid_table :: "table \<Rightarrow> bool" where
  "valid_table tb \<longleftrightarrow> sorted_wrt (<) (map ts (tb_rows tb))"

definition row_at :: "table \<Rightarrow> int \<Rightarrow> row option" where
  "row_at tb = map_of (map (\<lambda>r. (ts r, r)) (tb_rows tb))"

definition prune_table :: "rat \<Rightarrow> table \<Rightarrow> table" where
  "prune_table cutoff tb = fst (prune_rows cutoff tb)"

lemma set_put_row: "set (put_row r rows) \<subseteq> insert r (set rows)"
  by (induction r rows rule: put_row.induct) auto

lemma put_row_sorted: "sorted_wrt (<) (map ts rows) \<Longrightarrow> sorted_wrt (<) (map ts (put_row r rows))"
proof (induction r rows rule: put_row.induct)
  case (2 r x xs)
  then show ?case using set_put_row [of r xs] by (auto dest: order.strict_trans)
qed simp

lemma map_of_put_row:
  "sorted_wrt (<) (map ts rows) \<Longrightarrow>
    map_of (map (\<lambda>r. (ts r, r)) (put_row r rows)) = (map_of (map (\<lambda>r. (ts r, r)) rows))(ts r \<mapsto> r)"
proof (induction r rows rule: put_row.induct)
  case (2 r x xs)
  then show ?case by (auto simp: fun_upd_twist)
qed simp

lemma row_at_Some: "valid_table tb \<Longrightarrow> row_at tb t = Some r \<longleftrightarrow> r \<in> set (tb_rows tb) \<and> ts r = t"
proof -
  assume "valid_table tb"
  then have "distinct (map fst (map (\<lambda>r. (ts r, r)) (tb_rows tb)))"
    by (simp add: valid_table_def comp_def strict_sorted_iff)
  from map_of_eq_Some_iff [OF this] show ?thesis by (auto simp: row_at_def)
qed

lemma sorted_filter_rows: "sorted_wrt (<) (map ts rows) \<Longrightarrow> sorted_wrt (<) (map ts (filter P rows))"
  by (induction rows) auto

lemma prune_valid: "valid_table tb \<Longrightarrow> valid_table (prune_table c tb)"
  by (simp add: prune_table_def prune_rows_def valid_table_def Let_def sorted_filter_rows)

lemma insert_valid: "valid_table tb \<Longrightarrow> valid_table (insert_sample columns t sample tb)"
  by (simp add: insert_sample_def valid_table_def put_row_sorted)

lemma row_at_prune:
  assumes "valid_table tb"
  shows "row_at (prune_table c tb) = (\<lambda>t. if of_int t < c then None else row_at tb t)"
proof
  fix t
  have "row_at (prune_table c tb) t = Some r \<longleftrightarrow> (if of_int t < c then None else row_at tb t) = Some r" for r
    using row_at_Some [OF assms] row_at_Some [OF prune_valid [OF assms]] by (auto simp: prune_table_def prune_rows_def Let_def)
  then show "row_at (prune_table c tb) t = (if of_int t < c then None else row_at tb t)" by (metis option.exhaust)
qed

lemma sample_store_table: "sample_store valid_table row_at (insert_sample columns) prune_table (row_of columns)"
proof
  fix s t p
  assume "valid_table s"
  then show "row_at (insert_sample columns t p s) = (row_at s)(t \<mapsto> row_of columns t p)"
    by (simp add: row_at_def insert_sample_def valid_table_def map_of_put_row) (simp add: row_of_def)
qed (simp_all add: insert_valid prune_valid row_at_prune)

interpretation relay_db: sample_store valid_table row_at "insert_sample COLUMNS" prune_table "row_of COLUMNS"
  by (rule sample_store_table)

interpretation push_db: sample_store valid_table row_at "insert_sample PUSH_COLUMNS" prune_table "row_of PUSH_COLUMNS"
  by (rule sample_store_table)

definition relay_tick :: "rat \<Rightarrow> rat \<Rightarrow> scrape \<times> int \<times> int \<Rightarrow> table collector \<Rightarrow> table collector" where
  "relay_tick every keep = collect parseMetrics (insert_sample COLUMNS) prune_table every keep"

definition push_tick :: "rat \<Rightarrow> rat \<Rightarrow> scrape \<times> int \<times> int \<Rightarrow> table collector \<Rightarrow> table collector" where
  "push_tick every keep = collect parsePushMetrics (insert_sample PUSH_COLUMNS) prune_table every keep"

section \<open>The history keeps its length\<close>

lemma row_at_lookup: "valid_table tb \<Longrightarrow> r \<in> set (tb_rows tb) \<Longrightarrow> row_at tb (ts r) \<noteq> None"
  using row_at_Some [of tb "ts r" r] by simp

text \<open>
  C28. The history of the dashboard stays as long as configured, however scrapes fail: after as many ticks
  as fill an hour, no row is older than the retention before the first of them; and no row that is younger than
  the retention at the last reading of the clock is lost on the way.
\<close>

theorem history_keeps_its_length:
  assumes "valid_table (store c)" "0 \<le> keep" "0 < every" "0 \<le> pruneAccum c" "clocked t0 evs" "evs \<noteq> []"
    and "\<forall>(a, n1, n2) \<in> set evs. n2 \<le> t1"
  shows "(of_nat (length evs) * every \<ge> 3600000 \<longrightarrow>
      (\<forall>r \<in> set (tb_rows (store (fold (relay_tick every keep) evs c))). of_int (ts r) \<ge> of_int t0 - keep))
    \<and> (\<forall>r \<in> set (tb_rows (store c)). of_int (ts r) \<ge> of_int t1 - keep \<longrightarrow>
      ts r \<in> ts ` set (tb_rows (store (fold (relay_tick every keep) evs c))))"
proof -
  let ?c = "fold (relay_tick every keep) evs c"
  have c: "?c = relay_db.steps parseMetrics every keep evs c" by (simp add: relay_db.steps_def relay_tick_def)
  have v: "valid_table (store ?c)" unfolding c by (rule relay_db.steps_valid [OF assms(1)])
  have "\<forall>r \<in> set (tb_rows (store ?c)). of_int (ts r) \<ge> of_int t0 - keep" if "of_nat (length evs) * every \<ge> 3600000"
  proof -
    from that assms(4) have "pruneAccum c + of_nat (length evs) * every \<ge> 3600000" by linarith
    from relay_db.steps_prune [OF assms(2,3,1,5,4) this assms(6), of parseMetrics]
    show ?thesis using row_at_lookup [OF v] unfolding c relay_db.young_def by blast
  qed
  moreover have "ts r \<in> ts ` set (tb_rows (store ?c))"
    if "r \<in> set (tb_rows (store c))" "of_int (ts r) \<ge> of_int t1 - keep" for r
  proof -
    have "row_at (store ?c) (ts r) \<noteq> None"
      unfolding c by (rule relay_db.steps_keep [OF assms(2,1,5,7) that(2) row_at_lookup [OF assms(1) that(1)]])
    then obtain r' where "row_at (store ?c) (ts r) = Some r'" by blast
    then show ?thesis using row_at_Some [OF v] by (metis image_eqI)
  qed
  ultimately show ?thesis by blast
qed

theorem history_keeps_its_length_witness:
  "list_all (\<lambda>r. of_int (ts r) \<ge> (of_int 5000 - 1000 :: rat))
     (tb_rows (store (fold (relay_tick 1800000 1000) [(None, 5000, 5000), (Some (True, []), 6000, 6000)]
        \<lparr>pruneAccum = 0, store = \<lparr>tb_cols = ''ts'' # COLUMNS, tb_rows = [\<lparr>ts = 10, col = \<lambda>_. 0\<rparr>]\<rparr>, reported = 0\<rparr>)))"
proof -
  let ?c = "\<lparr>pruneAccum = 0, store = \<lparr>tb_cols = ''ts'' # COLUMNS, tb_rows = [\<lparr>ts = 10, col = \<lambda>_. 0\<rparr>]\<rparr>, reported = 0\<rparr>"
  have "valid_table (store ?c)" by (simp add: valid_table_def)
  from history_keeps_its_length [OF this, of 1000 1800000 5000 "[(None, 5000, 5000), (Some (True, []), 6000, 6000)]" 6000]
  show ?thesis by (simp add: list_all_iff)
qed

section \<open>Opening an older database\<close>

lemma add_columns:
  "tb_cols (fold (\<lambda>c t'. if c \<in> have then t' else add_column c t') cs t) = tb_cols t @ filter (\<lambda>c. c \<notin> have) cs
   \<and> tb_rows (fold (\<lambda>c t'. if c \<in> have then t' else add_column c t') cs t)
     = map (\<lambda>r. r\<lparr>col := (\<lambda>f. if f \<in> set cs \<and> f \<notin> have then 0 else col r f)\<rparr>) (tb_rows t)"
proof (induction cs arbitrary: t)
  case (Cons c cs)
  then show ?case by (cases "c \<in> have") (auto simp: add_column_def fun_upd_def fun_eq_iff comp_def)
qed simp

lemma no_columns: "\<forall>c \<in> set cs. c \<in> have \<Longrightarrow> fold (\<lambda>c t'. if c \<in> have then t' else add_column c t') cs t = t"
  by (induction cs) simp_all

text \<open>
  A database written by any older version opens: every column is there afterwards, so a sample can be
  stored, the rows keep their times and their values, a new column reads 0 in them, and opening it once more
  changes nothing.
\<close>

theorem older_database_opens:
  assumes "''ts'' \<in> set (tb_cols t)"
  shows "\<exists>t'. open_table columns (Some t) = Some t'
    \<and> tb_rows t' = map (\<lambda>r. r\<lparr>col := (\<lambda>f. if f \<in> set columns \<and> f \<notin> set (tb_cols t) then 0 else col r f)\<rparr>) (tb_rows t)
    \<and> open_table columns (Some t') = Some t'"
proof -
  let ?t = "ensureColumns columns t"
  have e: "tb_cols ?t = tb_cols t @ filter (\<lambda>c. c \<notin> set (tb_cols t)) columns"
    "tb_rows ?t = map (\<lambda>r. r\<lparr>col := (\<lambda>f. if f \<in> set columns \<and> f \<notin> set (tb_cols t) then 0 else col r f)\<rparr>) (tb_rows t)"
    using add_columns [of "set (tb_cols t)" columns t] by (simp_all add: ensureColumns_def)
  have all: "list_all (\<lambda>c. c \<in> set (tb_cols ?t)) (''ts'' # columns)" using assms e(1) by (auto simp: list_all_iff)
  then have "ensureColumns columns ?t = ?t" by (simp add: ensureColumns_def Let_def list_all_iff no_columns)
  with all e(2) show ?thesis by (simp add: open_table_def Let_def)
qed

theorem older_database_opens_witness:
  "\<exists>t'. open_table [''push'', ''devices''] (Some \<lparr>tb_cols = [''ts'', ''push''], tb_rows = [\<lparr>ts = 4, col = \<lambda>_. 7\<rparr>]\<rparr>) = Some t'
     \<and> col (hd (tb_rows t')) ''push'' = 7 \<and> col (hd (tb_rows t')) ''devices'' = 0"
  using older_database_opens [of "\<lparr>tb_cols = [''ts'', ''push''], tb_rows = [\<lparr>ts = 4, col = \<lambda>_. 7\<rparr>]\<rparr>" "[''push'', ''devices'']"]
  by fastforce

text \<open>
  The zeros of a new column are read as a counter's value: the first interval counts all that the relay
  had counted before, unless it restarted with the upgrade.
\<close>

lemma backfilled_counter_jumps:
  assumes "open_table columns (Some t) = Some t'" "tb_rows t = [r]" "f \<in> set columns" "f \<notin> set (tb_cols t)"
    and "map_of sample f = Some x" "0 \<le> x" "ts r < now"
  shows "windowTotal (tb_rows (insert_sample columns now sample t')) f = x"
proof -
  have "t' = ensureColumns columns t" using assms(1) by (simp add: open_table_def Let_def split: if_splits)
  then have "tb_rows t' = [r\<lparr>col := (\<lambda>f. if f \<in> set columns \<and> f \<notin> set (tb_cols t) then 0 else col r f)\<rparr>]"
    using add_columns [of "set (tb_cols t)" columns t] assms(2) by (simp add: ensureColumns_def)
  then show ?thesis using assms(3-7) by (simp add: insert_sample_def row_of_def step_of_def or_zero_def)
qed

section \<open>From the relay to the newest row\<close>

lemma put_row_newest:
  "\<forall>x \<in> set rows. ts x \<le> ts r \<Longrightarrow> sorted_wrt (<) (map ts rows) \<Longrightarrow> \<exists>older. put_row r rows = older @ [r]"
proof (induction r rows rule: put_row.induct)
  case (2 r x xs)
  show ?case
  proof (cases "ts x = ts r")
    case True
    with 2 have "xs = []" by (cases xs) auto
    with True show ?thesis by simp
  next
    case False
    with 2 obtain older where "put_row r xs = older @ [r]" by fastforce
    with False 2 show ?thesis by auto
  qed
qed simp

lemma plain_stored: "list_all (\<lambda>f. f \<in> set [''ws_upgrades'', ''http_requests'', ''http_errors'', ''exceptions'', ''push_errors'',
      ''rooms_live'', ''sockets_live'', ''life_count'', ''life_sum'', ''quota_exceeded'', ''shard_reject'', ''shard_map_reloads'',
      ''shard_map_fetch_errors'', ''shard_map_version'', ''shard_owned_buckets'', ''shard_draining_buckets'',
      ''rooms_both'', ''rooms_mac_only'', ''rooms_phone_only'']) (map snd PLAIN)"
  by (simp add: PLAIN_def)

lemma stored_columns:
  "\<forall>f \<in> set (map snd PLAIN). f \<in> set COLUMNS" "''ws_rejected'' \<in> set COLUMNS"
  "\<forall>b \<in> set LIFETIME_BUCKETS. life_col (show_nat b) \<in> set COLUMNS" "''life_sum'' \<in> set COLUMNS" "''life_count'' \<in> set COLUMNS"
proof -
  show "\<forall>f \<in> set (map snd PLAIN). f \<in> set COLUMNS"
  proof
    fix f
    assume "f \<in> set (map snd PLAIN)"
    from plain_stored [unfolded list_all_iff, THEN bspec, OF this] show "f \<in> set COLUMNS" unfolding COLUMNS_def by auto
  qed
qed (simp_all add: COLUMNS_def)

lemma newest_after_tick:
  assumes "valid_table (store c)" "\<forall>r \<in> set (tb_rows (store c)). ts r \<le> n1" "of_int n2 - keep \<le> of_int n1"
  shows "latest_row (store (relay_tick every keep (Some (True, body), n1, n2) c)) = Some (row_of COLUMNS n1 (parseMetrics body))"
proof -
  let ?r = "row_of COLUMNS n1 (parseMetrics body)"
  have r: "ts ?r = n1" by (simp add: row_of_def)
  obtain older where o: "put_row ?r (tb_rows (store c)) = older @ [?r]"
    using put_row_newest [of "tb_rows (store c)" ?r] assms(1,2) r by (auto simp: valid_table_def)
  then have "tb_rows (insert_sample COLUMNS n1 (parseMetrics body) (store c)) = older @ [?r]" by (simp add: insert_sample_def)
  then show ?thesis using assms(3) r
    by (auto simp: relay_tick_def collect_def latest_row_def last_row_def prune_table_def prune_rows_def Let_def)
qed



end
