(* ===== verification/HttpAuth.thy ===== *)
theory HttpAuth
  imports MonitorPush
begin

text \<open>
  Who may read the dashboard and the monitor, and who may push to the monitor: the credential checks of
  \<^verbatim>\<open>monitor/src/server.js\<close> and \<^verbatim>\<open>dashboard/auth.js\<close>. A text is compared by its UTF-8 bytes, which
  determine it. Decoding UTF-8 and SHA-256 are arguments.
\<close>

section \<open>Base64 as a Buffer reads it\<close>

text \<open>
  \<open>Buffer.from(s, "base64")\<close> never throws: it reads both alphabets, skips every other character, and
  drops a last group of one.
\<close>

definition buffer_val :: "char \<Rightarrow> nat option" where
  "buffer_val c = (if c = CHR ''-'' then Some 62 else if c = CHR ''_'' then Some 63 else b64_val c)"

definition buffer_b64 :: "string \<Rightarrow> bytes" where
  "buffer_b64 s =
     (let xs = List.map_filter buffer_val s
      in case b64_groups (if length xs mod 4 = 1 then butlast xs else xs) of None \<Rightarrow> [] | Some bs \<Rightarrow> bs)"

lemma b64_groups_total: "length xs mod 4 \<noteq> 1 \<Longrightarrow> b64_groups xs \<noteq> None"
proof (induction xs rule: b64_groups.induct)
  case (5 p q r s rest)
  have "length (p # q # r # s # rest) mod 4 = length rest mod 4" by simp
  with "5.prems" have "b64_groups rest \<noteq> None" by (intro "5.IH") presburger
  then show ?case by auto
qed simp_all

lemma buffer_val_facts:
  "\<forall>n \<in> set [0..<64]. buffer_val (b64_char n) = Some n \<and> \<not> js_space (b64_char n)" "buffer_val (CHR ''='') = None"
  by code_simp+

lemma buffer_val_char [simp]: "n < 64 \<Longrightarrow> buffer_val (b64_char n) = Some n"
  using buffer_val_facts(1) by simp

lemma buffer_b64_round [simp]: "buffer_b64 (b64 bs) = bs"
proof -
  have pad: "List.map_filter buffer_val (b64_padding bs) = []"
    using b64_padding_cases [of bs] buffer_val_facts(2) by (auto simp: List.map_filter_def)
  have "List.map_filter buffer_val (map b64_char ns) = ns" if "\<forall>n \<in> set ns. n < 64" for ns
    using that by (induction ns) (simp_all add: List.map_filter_def)
  then have "List.map_filter buffer_val (map b64_char (b64_sx bs)) = b64_sx bs" using b64_sx_less by blast
  then have sx: "List.map_filter buffer_val (b64 bs) = b64_sx bs"
    by (simp only: b64_split map_filter_append pad append_Nil2)
  have "length (b64_sx bs) mod 4 \<noteq> 1"
  proof (induction bs rule: b64_sx.induct)
    case (4 a b c rest)
    then show ?case by simp
  qed simp_all
  then show ?thesis by (simp add: buffer_b64_def Let_def sx b64_groups_sx)
qed

lemma b64_spaceless: "\<forall>c \<in> set (b64 bs). \<not> js_space c"
proof -
  have "\<not> js_space (CHR ''='')" by code_simp
  then have "\<forall>c \<in> set (b64_padding bs). \<not> js_space c" using b64_padding_cases [of bs] by auto
  moreover have "\<forall>c \<in> set (map b64_char (b64_sx bs)). \<not> js_space c"
    using buffer_val_facts(1) b64_sx_less by auto
  ultimately show ?thesis by (auto simp: b64_split)
qed

section \<open>The monitor's secrets\<close>

definition secretEquals :: "string option \<Rightarrow> string option \<Rightarrow> bool" where
  "secretEquals a expected =
     (case nonempty expected of
        None \<Rightarrow> False
      | Some e \<Rightarrow>
          (case a of
             None \<Rightarrow> False
           | Some s \<Rightarrow>
               let ab = utf8_encode s; eb = utf8_encode e in if length ab \<noteq> length eb then False else ab = eb))"

definition line_end :: "char \<Rightarrow> bool" where
  "line_end c \<longleftrightarrow> of_char c \<in> {10 :: nat, 13}"

text \<open>
  The match of \<open>/^Scheme\s+(.+)$/i\<close>: the blanks take all they can, but leave the last one if nothing
  else follows; the rest has no line end.
\<close>

definition scheme_value :: "string \<Rightarrow> string \<Rightarrow> string option" where
  "scheme_value scheme h =
     (let rest = drop (length scheme) h; blanks = takeWhile js_space rest; v = dropWhile js_space rest
      in if lower (take (length scheme) h) \<noteq> scheme \<or> blanks = [] then None
         else if v \<noteq> [] then (if list_ex line_end v then None else Some v)
         else if length blanks \<ge> 2 \<and> \<not> line_end (List.last blanks) then Some [List.last blanks]
         else None)"

definition bearerOk :: "string option \<Rightarrow> string option \<Rightarrow> bool" where
  "bearerOk authHeader expected =
     (case scheme_value ''bearer'' (or_else authHeader []) of
        None \<Rightarrow> False
      | Some v \<Rightarrow> secretEquals (Some v) expected)"

definition basicAuthOk :: "(bytes \<Rightarrow> string) \<Rightarrow> string option \<Rightarrow> string option \<Rightarrow> bool" where
  "basicAuthOk utf8 authHeader expected =
     (case scheme_value ''basic'' (or_else authHeader []) of
        None \<Rightarrow> False
      | Some v \<Rightarrow>
          let decoded = utf8 (buffer_b64 v)
          in secretEquals (Some (case cut (CHR '':'') decoded of None \<Rightarrow> decoded | Some (_, p) \<Rightarrow> p)) expected)"

lemma secretEquals_iff: "secretEquals a expected \<longleftrightarrow> (\<exists>s. s \<noteq> [] \<and> a = Some s \<and> expected = Some s)"
  by (auto simp: secretEquals_def nonempty_def utf8_encode_inj Let_def split: option.splits)

lemma no_secret_no_entry:
  assumes "nonempty expected = None"
  shows "\<not> bearerOk h expected" "\<not> basicAuthOk utf8 h expected" "\<not> secretEquals h expected"
  using assms
  by (auto simp: bearerOk_def basicAuthOk_def secretEquals_iff nonempty_def Let_def split: option.splits if_splits)

section \<open>The dashboard's login\<close>

definition safeEqual :: "(bytes \<Rightarrow> bytes) \<Rightarrow> string \<Rightarrow> string \<Rightarrow> bool" where
  "safeEqual sha a b \<longleftrightarrow> sha (utf8_encode a) = sha (utf8_encode b)"

definition credentials :: "(bytes \<Rightarrow> string) \<Rightarrow> string option \<Rightarrow> string \<times> string" where
  "credentials utf8 header =
     (case header of
        None \<Rightarrow> ([], [])
      | Some h \<Rightarrow>
          if prefix ''Basic '' h
          then (case cut (CHR '':'') (utf8 (buffer_b64 (trim (drop 6 h)))) of None \<Rightarrow> ([], []) | Some (u, p) \<Rightarrow> (u, p))
          else ([], []))"

definition checkBasicAuth :: "(bytes \<Rightarrow> bytes) \<Rightarrow> (bytes \<Rightarrow> string) \<Rightarrow> string option \<Rightarrow> string \<Rightarrow> string \<Rightarrow> bool" where
  "checkBasicAuth sha utf8 header user pass =
     (case credentials utf8 header of (gotUser, gotPass) \<Rightarrow> safeEqual sha gotUser user \<and> safeEqual sha gotPass pass)"

definition requireAuth :: "(bytes \<Rightarrow> bytes) \<Rightarrow> (bytes \<Rightarrow> string) \<Rightarrow> string option \<Rightarrow> string \<Rightarrow> string \<Rightarrow> bool" where
  "requireAuth sha utf8 header user pass =
     (if user = [] \<or> pass = [] then True else checkBasicAuth sha utf8 header user pass)"

section \<open>A client's header is read back\<close>

lemma scheme_value_client:
  assumes "lower (take n h) = scheme" "length scheme = n" "drop n h = CHR '' '' # v" "v \<noteq> []" "\<forall>c \<in> set v. \<not> js_space c"
  shows "scheme_value scheme h = Some v"
proof -
  have sp: "js_space (CHR '' '')" by code_simp
  have nl: "line_end c \<Longrightarrow> js_space c" for c by (auto simp: line_end_def js_space_def)
  have "takeWhile js_space (CHR '' '' # v) = '' ''" "dropWhile js_space (CHR '' '' # v) = v"
    using sp assms(4,5) by (cases v; simp)+
  then show ?thesis using assms nl by (auto simp: scheme_value_def Let_def list_ex_iff)
qed

lemma bearer_client:
  assumes "token \<noteq> []" "\<forall>c \<in> set token. \<not> js_space c"
  shows "bearerOk (Some (''Bearer '' @ token)) (Some token)"
proof -
  have "lower ''Bearer'' = ''bearer''" by code_simp
  then have "scheme_value ''bearer'' (''Bearer '' @ token) = Some token"
    using assms by (intro scheme_value_client [where n = 6]) simp_all
  then show ?thesis using assms(1) by (simp add: bearerOk_def or_else_def secretEquals_iff)
qed

lemma b64_nonempty: "bs \<noteq> [] \<Longrightarrow> b64 bs \<noteq> []"
  by (cases bs rule: b64.cases) simp_all

lemma scheme_value_basic:
  assumes "s \<noteq> []"
  shows "scheme_value ''basic'' (basic_auth s) = Some (b64 (utf8_encode s))"
proof (rule scheme_value_client)
  have "lower ''Basic'' = ''basic''" by code_simp
  then show "lower (take 5 (basic_auth s)) = ''basic''" by (simp add: basic_auth_def)
  show "b64 (utf8_encode s) \<noteq> []" using assms by (intro b64_nonempty) (cases s; simp add: utf8_encode_def)
qed (simp_all add: basic_auth_def b64_spaceless)

lemma credentials_basic:
  assumes "CHR '':'' \<notin> set u" "utf8 (utf8_encode (u @ '':'' @ p)) = u @ '':'' @ p"
  shows "credentials utf8 (Some (basic_auth (u @ '':'' @ p))) = (u, p)"
proof -
  have "trim (b64 bs) = b64 bs" for bs using b64_spaceless by (intro trim_spaceless)
  moreover have "cut (CHR '':'') (u @ '':'' @ p) = Some (u, p)" using cut_word [OF assms(1), of p] by simp
  ultimately show ?thesis using assms(2) by (simp add: credentials_def basic_auth_def)
qed

text \<open>
  A client that logs in with a user name and a password, in the form every browser sends and the
  monitor itself uses to scrape, is let in exactly if they are right: the monitor's page takes
  any user name with the operator's secret, and the dashboard takes the credentials whose digests are
  those of the configured ones, also when they contain blanks, colons in the password, or letters outside ASCII.
\<close>

theorem login_read_back:
  assumes "CHR '':'' \<notin> set u" "utf8 (utf8_encode (u @ '':'' @ p)) = u @ '':'' @ p"
  shows "(basicAuthOk utf8 (Some (basic_auth (u @ '':'' @ p))) (Some secret) \<longleftrightarrow> p = secret \<and> secret \<noteq> [])
    \<and> (checkBasicAuth sha utf8 (Some (basic_auth (u @ '':'' @ p))) user pass
       \<longleftrightarrow> sha (utf8_encode u) = sha (utf8_encode user) \<and> sha (utf8_encode p) = sha (utf8_encode pass))"
proof -
  have "cut (CHR '':'') (u @ '':'' @ p) = Some (u, p)" using cut_word [OF assms(1), of p] by simp
  moreover have "or_else (Some (basic_auth (u @ '':'' @ p))) [] = basic_auth (u @ '':'' @ p)"
    by (simp add: or_else_def)
  moreover have "scheme_value ''basic'' (basic_auth (u @ '':'' @ p)) = Some (b64 (utf8_encode (u @ '':'' @ p)))"
    by (rule scheme_value_basic) simp
  ultimately have "basicAuthOk utf8 (Some (basic_auth (u @ '':'' @ p))) (Some secret) \<longleftrightarrow> p = secret \<and> secret \<noteq> []"
    using assms(2) by (auto simp: basicAuthOk_def secretEquals_iff Let_def)
  moreover have "credentials utf8 (Some (basic_auth (u @ '':'' @ p))) = (u, p)"
    using assms by (rule credentials_basic)
  ultimately show ?thesis by (simp add: checkBasicAuth_def safeEqual_def)
qed

definition ascii :: "bytes \<Rightarrow> string" where
  "ascii bs = map (\<lambda>b. char_of (unat b)) bs"

theorem login_read_back_witness:
  "basicAuthOk ascii (Some (basic_auth (''op'' @ '':'' @ ''a:b''))) (Some ''a:b'')
   \<and> \<not> checkBasicAuth id ascii (Some (basic_auth (''op'' @ '':'' @ ''a:b''))) ''op'' ''a''"
proof -
  have "ascii (utf8_encode ''op:a:b'') = ''op:a:b''" by code_simp
  then have d: "ascii (utf8_encode (''op'' @ '':'' @ ''a:b'')) = ''op'' @ '':'' @ ''a:b''" by simp
  have u: "CHR '':'' \<notin> set ''op''" by simp
  show ?thesis
    using login_read_back [of "''op''" ascii "''a:b''" "''a:b''" id "''op''" "''a''"] u d by (simp add: utf8_encode_inj)
qed

end
