(* ===== verification/DashServer.thy ===== *)
theory DashServer
  imports DashStore HttpAuth
begin

text \<open>
  The dashboard's server, \<^verbatim>\<open>dashboard/server.js\<close>: how it starts, what it answers, and its run together
  with its two collectors. The URL of a request is given parsed; a table is looked up by its own keys;
  nothing of the database throws.
\<close>

section \<open>Configuration and start\<close>

record dash_config =
  dc_metricsUrl :: string
  dc_pushMetricsUrl :: string
  scrapeIntervalMs :: rat
  retentionMs :: rat
  dc_user :: string
  dc_pass :: string
  dc_buckets :: nat
  dc_caps :: caps
  dc_errorCfg :: error_cfg
  startCollectorOnListen :: bool
  allowUnauthenticated :: bool

definition default_config :: dash_config where
  "default_config =
     \<lparr>dc_metricsUrl = ''http://127.0.0.1:8788/metrics'', dc_pushMetricsUrl = ''http://127.0.0.1:8790/metrics'',
      scrapeIntervalMs = 30000, retentionMs = 90 * 24 * 60 * 60 * 1000, dc_user = [], dc_pass = [], dc_buckets = 240,
      dc_caps = default_caps, dc_errorCfg = default_errors, startCollectorOnListen = True, allowUnauthenticated = False\<rparr>"

record dash =
  da_cfg :: dash_config
  da_relay :: "table collector"
  da_push :: "table collector"

text \<open>The two tables of the database that is opened, if it has them already.\<close>

definition createDashboard :: "dash_config \<Rightarrow> table option \<Rightarrow> table option \<Rightarrow> unit + dash" where
  "createDashboard cfg relay push =
     (if (dc_user cfg = [] \<or> dc_pass cfg = []) \<and> \<not> allowUnauthenticated cfg then Inl ()
      else case (open_table COLUMNS relay, open_table PUSH_COLUMNS push) of
        (Some r, Some p) \<Rightarrow>
          Inr \<lparr>da_cfg = cfg, da_relay = \<lparr>pruneAccum = 0, store = r, reported = 0\<rparr>,
               da_push = \<lparr>pruneAccum = 0, store = p, reported = 0\<rparr>\<rparr>
      | _ \<Rightarrow> Inl ())"

section \<open>The data\<close>

definition RANGE_MS :: "(string \<times> int) list" where
  "RANGE_MS =
     [(''1h'', 3600000), (''6h'', 6 * 3600000), (''24h'', 24 * 3600000), (''7d'', 7 * 24 * 3600000),
      (''30d'', 30 * 24 * 3600000)]"

definition span_of :: "string option \<Rightarrow> int" where
  "span_of rng =
     (case map_of RANGE_MS (or_else (nonempty rng) ''24h'') of None \<Rightarrow> 24 * 3600000 | Some n \<Rightarrow> n)"

definition buckets_of :: "dash_config \<Rightarrow> int \<Rightarrow> nat" where
  "buckets_of cfg ms = min (dc_buckets cfg) (nat (max 60 (js_round (of_int ms / scrapeIntervalMs cfg))))"

record payload =
  pl_window :: window
  pl_relay :: "(tiles \<times> alert list \<times> (string \<times> series) list) option"
  pl_push :: "(tiles \<times> (string \<times> rat) list \<times> (string \<times> series) list) option"

definition rows_in :: "window \<Rightarrow> table \<Rightarrow> row list" where
  "rows_in w tb = range_rows (of_int (fromMs w)) (of_int (toMs w)) tb"

definition handleData :: "texts \<Rightarrow> int \<Rightarrow> dash \<Rightarrow> string option \<Rightarrow> payload" where
  "handleData tx now d rng =
     (let cfg = da_cfg d; ms = span_of rng;
          w = \<lparr>fromMs = now - ms, toMs = now, slots = buckets_of cfg ms\<rparr>;
          relay = store (da_relay d); push = store (da_push d)
      in \<lparr>pl_window = w,
          pl_relay = (if dc_metricsUrl cfg = [] then None
                      else Some (buildDashboard tx (dc_caps cfg) (dc_errorCfg cfg) (rows_in w relay) (latest_row relay) w now)),
          pl_push = (if dc_pushMetricsUrl cfg = [] then None
                     else Some (buildPush (rows_in w push) (latest_row push) w now))\<rparr>)"

section \<open>Requests\<close>

datatype answer =
    Bad_request
  | Healthz
  | Challenge
  | Page
  | Data payload
  | Not_found

record request =
  rq_url :: "(string \<times> string option) option"
  rq_auth :: "string option"

definition answer_to ::
  "(bytes \<Rightarrow> bytes) \<Rightarrow> (bytes \<Rightarrow> string) \<Rightarrow> texts \<Rightarrow> int \<Rightarrow> dash \<Rightarrow> request \<Rightarrow> answer" where
  "answer_to sha utf8 tx now d rq =
     (case rq_url rq of
        None \<Rightarrow> Bad_request
      | Some (path, rng) \<Rightarrow>
          if path = ''/healthz'' then Healthz
          else if \<not> requireAuth sha utf8 (rq_auth rq) (dc_user (da_cfg d)) (dc_pass (da_cfg d)) then Challenge
          else if path = ''/'' \<or> path = ''/index.html'' then Page
          else if path = ''/api/data'' then Data (handleData tx now d rng)
          else Not_found)"

section \<open>The process\<close>

text \<open>\<open>listen\<close> starts a collector for each URL that is configured.\<close>

definition listen_relay :: "dash_config \<Rightarrow> bool" where
  "listen_relay cfg \<longleftrightarrow> startCollectorOnListen cfg \<and> dc_metricsUrl cfg \<noteq> []"

definition listen_push :: "dash_config \<Rightarrow> bool" where
  "listen_push cfg \<longleftrightarrow> startCollectorOnListen cfg \<and> dc_pushMetricsUrl cfg \<noteq> []"

datatype dash_event =
    Relay_scraped "scrape \<times> int \<times> int"
  | Push_scraped "scrape \<times> int \<times> int"

fun dash_step :: "dash_event \<Rightarrow> dash \<Rightarrow> dash" where
  "dash_step (Relay_scraped ev) d =
     (let cfg = da_cfg d
      in if listen_relay cfg then d\<lparr>da_relay := relay_tick (scrapeIntervalMs cfg) (retentionMs cfg) ev (da_relay d)\<rparr> else d)"
| "dash_step (Push_scraped ev) d =
     (let cfg = da_cfg d
      in if listen_push cfg then d\<lparr>da_push := push_tick (scrapeIntervalMs cfg) (retentionMs cfg) ev (da_push d)\<rparr> else d)"

inductive dash_reach :: "dash_config \<Rightarrow> dash \<Rightarrow> bool" for cfg where
  started: "createDashboard cfg relay push = Inr d \<Longrightarrow> pred_option valid_table relay \<Longrightarrow> pred_option valid_table push \<Longrightarrow> dash_reach cfg d"
| stepped: "dash_reach cfg d \<Longrightarrow> dash_reach cfg (dash_step ev d)"

inductive_cases dash_reachE: "dash_reach cfg d"

section \<open>What holds in every state\<close>

lemma ensure_rows: "map ts (tb_rows (ensureColumns columns t)) = map ts (tb_rows t)"
  using add_columns [of "set (tb_cols t)" columns t] by (simp add: ensureColumns_def comp_def)

lemma open_valid: "open_table columns existing = Some t \<Longrightarrow> (\<And>e. existing = Some e \<Longrightarrow> valid_table e) \<Longrightarrow> valid_table t"
  by (auto simp: open_table_def valid_table_def ensure_rows Let_def split: option.splits if_splits)

lemma create_facts:
  assumes "createDashboard cfg relay push = Inr d"
  shows "da_cfg d = cfg" "allowUnauthenticated cfg \<or> dc_user cfg \<noteq> [] \<and> dc_pass cfg \<noteq> []"
    "open_table COLUMNS relay = Some (store (da_relay d))" "open_table PUSH_COLUMNS push = Some (store (da_push d))"
    "pruneAccum (da_relay d) = 0" "pruneAccum (da_push d) = 0"
  using assms by (auto simp: createDashboard_def split: if_splits option.splits)

lemma dash_reach_facts:
  assumes "dash_reach cfg d"
  shows "da_cfg d = cfg \<and> (allowUnauthenticated cfg \<or> dc_user cfg \<noteq> [] \<and> dc_pass cfg \<noteq> [])
    \<and> valid_table (store (da_relay d)) \<and> valid_table (store (da_push d))"
  using assms
proof induction
  case (started relay push d)
  have "valid_table (store (da_relay d))"
    using open_valid [OF create_facts(3) [OF started(1)]] started(2) by (auto simp: pred_option_def)
  moreover have "valid_table (store (da_push d))"
    using open_valid [OF create_facts(4) [OF started(1)]] started(3) by (auto simp: pred_option_def)
  ultimately show ?case using create_facts(1,2) [OF started(1)] by simp
next
  case (stepped d ev)
  then show ?case
    by (cases ev) (auto simp: Let_def relay_tick_def push_tick_def intro: relay_db.collect_valid push_db.collect_valid)
qed

text \<open>
  C29. A dashboard that was not told to go without a login never serves anything else: whatever it has
  collected, a request without the right user name and password gets the health line, an error or
  the login challenge, and its answer does not depend on what is stored.
\<close>

theorem no_data_without_login:
  assumes "dash_reach cfg d" "\<not> allowUnauthenticated cfg" "\<not> checkBasicAuth sha utf8 (rq_auth rq) (dc_user cfg) (dc_pass cfg)"
  shows "answer_to sha utf8 tx now d rq = (case rq_url rq of
      None \<Rightarrow> Bad_request | Some (path, _) \<Rightarrow> if path = ''/healthz'' then Healthz else Challenge)"
  using dash_reach_facts [OF assms(1)] assms(2,3)
  by (auto simp: answer_to_def requireAuth_def split: option.split)

definition login_config :: dash_config where
  "login_config = default_config\<lparr>dc_user := ''op'', dc_pass := ''pw''\<rparr>"

definition plain_texts :: texts where
  "plain_texts = \<lparr>num = \<lambda>q. show_int \<lfloor>q\<rfloor>, fixed1 = \<lambda>_. []\<rparr>"

definition fresh_dash :: dash where
  "fresh_dash =
     \<lparr>da_cfg = login_config,
      da_relay = \<lparr>pruneAccum = 0, store = \<lparr>tb_cols = ''ts'' # COLUMNS, tb_rows = []\<rparr>, reported = 0\<rparr>,
      da_push = \<lparr>pruneAccum = 0, store = \<lparr>tb_cols = ''ts'' # PUSH_COLUMNS, tb_rows = []\<rparr>, reported = 0\<rparr>\<rparr>"

lemma open_fresh: "open_table columns None = Some \<lparr>tb_cols = ''ts'' # columns, tb_rows = []\<rparr>"
proof -
  have "ensureColumns columns \<lparr>tb_cols = ''ts'' # columns, tb_rows = []\<rparr> = \<lparr>tb_cols = ''ts'' # columns, tb_rows = []\<rparr>"
    by (simp add: ensureColumns_def Let_def no_columns del: set_simps) (rule no_columns; simp)
  then show ?thesis by (simp add: open_table_def Let_def list_all_iff)
qed

lemma fresh_reach: "dash_reach login_config fresh_dash"
  by (rule started [of login_config None None])
    (simp_all add: createDashboard_def open_fresh fresh_dash_def login_config_def default_config_def)

lemma wrong_login:
  assumes "credentials utf8 h = ([], [])" "user \<noteq> []"
  shows "\<not> checkBasicAuth id utf8 h user pass"
  using assms utf8_encode_inj [of "[]" user] by (simp add: checkBasicAuth_def safeEqual_def)

theorem no_data_without_login_witness:
  "answer_to id ascii plain_texts 0 fresh_dash \<lparr>rq_url = Some (''/api/data'', None), rq_auth = None\<rparr> = Challenge"
  using no_data_without_login [OF fresh_reach, of id ascii "\<lparr>rq_url = Some (''/api/data'', None), rq_auth = None\<rparr>" plain_texts 0]
    wrong_login [of ascii None]
  by (simp add: login_config_def default_config_def credentials_def)

section \<open>What is served adds up\<close>

lemma covered_sorted: "sorted_wrt (<) (map ts rows) \<Longrightarrow> rows \<noteq> [] \<Longrightarrow> covered_ms rows = ts (List.last rows) - ts (hd rows)"
proof (induction rows rule: covered_ms.induct)
  case (1 prev cur rows)
  then show ?case by (simp split: if_splits)
qed simp_all

lemma rows_in_facts:
  assumes "valid_table tb"
  shows "sorted_wrt (<) (map ts (rows_in w tb))" "\<forall>r \<in> set (rows_in w tb). fromMs w \<le> ts r \<and> ts r \<le> toMs w"
  using assms by (auto simp: rows_in_def range_rows_def valid_table_def sorted_filter_rows)

lemma covered_in_window:
  assumes "valid_table tb" "fromMs w \<le> toMs w"
  shows "covered_ms (rows_in w tb) \<le> toMs w - fromMs w"
proof (cases "rows_in w tb = []")
  case False
  then have "hd (rows_in w tb) \<in> set (rows_in w tb)" "List.last (rows_in w tb) \<in> set (rows_in w tb)" by simp_all
  then have "fromMs w \<le> ts (hd (rows_in w tb))" "ts (List.last (rows_in w tb)) \<le> toMs w"
    using rows_in_facts(2) [OF assms(1), of w] by blast+
  then have "ts (List.last (rows_in w tb)) - ts (hd (rows_in w tb)) \<le> toMs w - fromMs w" by simp
  with covered_sorted [OF rows_in_facts(1) [OF assms(1)] False] show ?thesis by simp
qed (use assms in simp)

lemma span_positive: "0 < span_of rng"
proof -
  have "list_all (\<lambda>(k, n). 0 < n) RANGE_MS" by (simp add: RANGE_MS_def)
  then show ?thesis by (auto simp: span_of_def list_all_iff dest!: map_of_SomeD split: option.splits)
qed



end
