(* ===== verification/MonitorPage.thy ===== *)
theory MonitorPage
  imports MonitorSafety
begin

text \<open>
  The fleet page of the monitor, \<^verbatim>\<open>monitor/src/server.js\<close>: what it shows is the health document of the
  last tick with the liveness and the gauges recomputed from the stored pushes, and then its HTML. The style sheet, the
  clock in Pacific time and the warning sign are arguments. A pushed snapshot is a JSON value; its fields
  are numbers.
\<close>

section \<open>Stored pushes\<close>

record stored =
  sd_receivedAt :: int
  sd_snapshot :: jsval

text \<open>Reading a field of a null snapshot throws; a value that is no object has no fields.\<close>

definition snapshot_fields :: "jsval \<Rightarrow> unit + snap" where
  "snapshot_fields v =
     (case v of
        JNull \<Rightarrow> Inl ()
      | JObj ps \<Rightarrow> Inr (List.map_filter (\<lambda>(k, x). case x of JNum q \<Rightarrow> Some (k, q) | _ \<Rightarrow> None) ps)
      | _ \<Rightarrow> Inr [])"

definition kv_view :: "(string \<Rightarrow> stored option) \<Rightarrow> string \<Rightarrow> latest option" where
  "kv_view kv k =
     map_option (\<lambda>s. \<lparr>receivedAt = sd_receivedAt s,
                      lt_snapshot = (case snapshot_fields (sd_snapshot s) of Inl _ \<Rightarrow> [] | Inr f \<Rightarrow> f)\<rparr>) (kv k)"

section \<open>Live health\<close>

record live =
  lv_health :: health
  lv_pushAges :: "int list"
  lv_probeAt :: int

definition live_key :: "bool \<Rightarrow> string \<Rightarrow> string" where
  "live_key fleet h = (if fleet then ''latest:'' @ h else LATEST_KEY)"

definition live_host :: "mconfig \<Rightarrow> bool \<Rightarrow> (string \<Rightarrow> stored option) \<Rightarrow> int \<Rightarrow> summary \<Rightarrow> unit + summary" where
  "live_host cfg fleet kv now h =
     (let st = kv (live_key fleet (sm_host h));
          age = map_option (\<lambda>s. now - sd_receivedAt s) st;
          reporting = (case age of None \<Rightarrow> False | Some a \<Rightarrow> of_int a \<le> staleMs cfg);
          gauges = (case st of
                      None \<Rightarrow> Inr None
                    | Some s \<Rightarrow> (case snapshot_fields (sd_snapshot s) of
                                   Inl e \<Rightarrow> Inl e | Inr f \<Rightarrow> Inr (Some (snd (normalizeSnapshot f)))));
          probeFailing = (sm_probeOk h = Some False);
          otherWarn = list_ex soft_reason (sm_reasons h);
          reasons = filter (\<lambda>k. k \<noteq> ''liveness'') (sm_reasons h)
      in case gauges of
           Inl e \<Rightarrow> Inl e
         | Inr g \<Rightarrow>
             Inr (h\<lparr>sm_ageMs := age, sm_sockets := map_option socketsLive g, sm_rooms := map_option roomsLive g,
                    sm_status := (if \<not> reporting \<or> probeFailing then Crit_st else if otherWarn then Warn_st else Ok_st),
                    sm_reasons := (if reporting then reasons else ''liveness'' # reasons)\<rparr>))"

text \<open>\<open>Promise.all\<close>: one host that throws makes the whole fail.\<close>

fun all_right :: "('e + 'a) list \<Rightarrow> 'e + 'a list" where
  "all_right [] = Inr []"
| "all_right (Inl e # xs) = Inl e"
| "all_right (Inr x # xs) = (case all_right xs of Inl e \<Rightarrow> Inl e | Inr ys \<Rightarrow> Inr (x # ys))"

definition liveHealth ::
  "(string \<Rightarrow> string option) \<Rightarrow> (string \<Rightarrow> stored option) \<Rightarrow> int \<Rightarrow> health option \<Rightarrow> unit + live option" where
  "liveHealth env kv now health =
     (case health of
        None \<Rightarrow> Inr None
      | Some hl \<Rightarrow>
          (case all_right (map (live_host (parseConfig env) (hl_fleet hl) kv now) (hl_hosts hl)) of
             Inl e \<Rightarrow> Inl e
           | Inr hosts \<Rightarrow>
               let states = map sm_status hosts @ map pm_status (hl_pushes hl)
               in Inr (Some \<lparr>lv_health = hl\<lparr>hl_at := now, hl_hosts := hosts,
                      hl_counts := (length states, count_status Ok_st states, count_status Warn_st states, count_status Crit_st states)\<rparr>,
                    lv_pushAges = map (\<lambda>p. now - pm_checkedAt p) (hl_pushes hl), lv_probeAt = hl_at hl\<rparr>)))"

section \<open>Text\<close>

definition N_BUCKETS :: rat where "N_BUCKETS = 65536"

definition esc_char :: "char \<Rightarrow> string" where
  \<open>esc_char c =
     (if c = CHR ''&'' then ''&amp;'' else if c = CHR ''<'' then ''&lt;'' else if c = CHR ''>'' then ''&gt;''
      else if c = CHR ''"'' then ''&quot;'' else [c])\<close>

definition esc :: "string \<Rightarrow> string" where
  "esc s = concat (map esc_char s)"

definition ago :: "rat option \<Rightarrow> string" where
  "ago ms =
     (case ms of
        None \<Rightarrow> ''never''
      | Some x \<Rightarrow>
          let s = js_round (x / 1000); m = js_round (of_int s / 60); h = js_round (of_int m / 60)
          in if s < 90 then show_int s @ ''s''
             else if m < 90 then show_int m @ ''m''
             else if h < 48 then show_int h @ ''h'' else show_int (js_round (of_int h / 24)) @ ''d'')"

definition rank :: "status \<Rightarrow> nat" where
  "rank s = (case s of Crit_st \<Rightarrow> 2 | Warn_st \<Rightarrow> 1 | Ok_st \<Rightarrow> 0)"

definition status_name :: "status \<Rightarrow> string" where
  "status_name s = (case s of Ok_st \<Rightarrow> ''ok'' | Warn_st \<Rightarrow> ''warn'' | Crit_st \<Rightarrow> ''crit'')"

definition status_upper :: "status \<Rightarrow> string" where
  "status_upper s = (case s of Ok_st \<Rightarrow> ''OK'' | Warn_st \<Rightarrow> ''WARN'' | Crit_st \<Rightarrow> ''CRIT'')"

definition row_html :: "string \<times> string \<Rightarrow> string" where
  "row_html kv = ''<div class=r><span class=k>'' @ esc (fst kv) @ ''</span><span class=v>'' @ esc (snd kv) @ ''</span></div>''"

definition age_text :: "rat option \<Rightarrow> string \<Rightarrow> string" where
  "age_text ms none = (case ms of None \<Rightarrow> none | Some x \<Rightarrow> ago (Some x) @ '' ago'')"

section \<open>Cards\<close>

definition optional :: "string \<Rightarrow> ('a \<Rightarrow> string) \<Rightarrow> 'a option \<Rightarrow> (string \<times> string) list" where
  "optional k f v = (case v of None \<Rightarrow> [] | Some x \<Rightarrow> [(k, f x)])"

definition inbound :: "bool option \<Rightarrow> string" where
  "inbound p = (case p of None \<Rightarrow> ''-'' | Some up \<Rightarrow> if up then ''ok'' else ''FAILING'')"

definition relay_rows :: "texts \<Rightarrow> summary \<Rightarrow> (string \<times> string) list" where
  "relay_rows tx h =
     [(''seen'', age_text (map_option of_int (sm_ageMs h)) ''never'')]
     @ optional ''sockets'' (num tx) (sm_sockets h) @ optional ''rooms'' (num tx) (sm_rooms h)
     @ optional ''buckets'' (\<lambda>b. show_int b @ '' ('' @ fixed1 tx (Some (of_int b / N_BUCKETS * 100)) @ ''%)'') (sm_buckets h)
     @ [(''inbound'', inbound (sm_probeOk h))]"

definition push_rows :: "texts \<Rightarrow> int \<Rightarrow> push_summary \<Rightarrow> (string \<times> string) list" where
  "push_rows tx age h =
     [(''checked'', age_text (Some (of_int age)) ''never'')]
     @ (case pm_push h of
          None \<Rightarrow> []
        | Some p \<Rightarrow>
            [(''last delivery'', age_text (pd_lastDeliveryAgeMs p) ''none yet'')]
            @ optional ''last check'' (\<lambda>(good, bad, late). num tx good @ '' ok / '' @ num tx bad @ '' failed'') (pd_interval p)
            @ (case pd_interval p of Some (_, _, late) \<Rightarrow> if late = 0 then [] else [(''APNs timeouts'', num tx late)] | None \<Rightarrow> [])
            @ [(''APNs sessions'', num tx (pd_sessions p)), (''devices'', num tx (pd_devices p))]
            @ (case pd_peerOutbox p of
                 None \<Rightarrow> []
               | Some queue \<Rightarrow>
                   let skew = (case pd_peerSkewMs p of None \<Rightarrow> 0 | Some x \<Rightarrow> x)
                   in [(''peer queue'', num tx queue), (''peer clock'', (if skew \<ge> 0 then ''+'' else []) @ num tx skew @ ''ms'')]
                      @ (if pd_peerLastOkKnown p then [(''peer answered'', age_text (pd_peerLastOkAgeMs p) ''not yet'')] else [])))
     @ [(''inbound'', inbound (pm_probeOk h))]"

definition card_html :: "string \<Rightarrow> status \<Rightarrow> string list \<Rightarrow> (string \<times> string) list \<Rightarrow> string option \<Rightarrow> string" where
  \<open>card_html name st reasons rows url =
     (let why = (if st \<noteq> Ok_st \<and> reasons \<noteq> [] then ''<div class=why>'' @ esc (join '', '' reasons) @ ''</div>'' else []);
          inner = ''<div class=top><span class=host>'' @ esc name @ ''</span><span class="badge '' @ esc (status_name st) @ ''">''
            @ esc (status_upper st) @ ''</span></div><div class=rows>'' @ concat (map row_html rows) @ ''</div>'' @ why
      in case url of
           Some u \<Rightarrow> ''<a class="card link '' @ esc (status_name st) @ ''" href="'' @ esc u
             @ ''" target="_blank" rel="noopener">'' @ inner @ ''<div class=open>detail &#8599;</div></a>''
         | None \<Rightarrow> ''<div class="card '' @ esc (status_name st) @ ''">'' @ inner @ ''</div>'')\<close>

definition detail_url :: "string \<Rightarrow> string \<Rightarrow> string option" where
  "detail_url detailTpl h = (if detailTpl \<noteq> [] \<and> CHR ''.'' \<in> set h then Some (replace_first ''{host}'' h detailTpl) else None)"

text \<open>A card of the page: its rank, its host, and its HTML.\<close>

definition relay_card :: "texts \<Rightarrow> string \<Rightarrow> summary \<Rightarrow> nat \<times> string \<times> string" where
  "relay_card tx detailTpl h =
     (rank (sm_status h), sm_host h,
      card_html (sm_host h) (sm_status h) (sm_reasons h) (relay_rows tx h) (detail_url detailTpl (sm_host h)))"

definition push_card :: "texts \<Rightarrow> push_summary \<times> int \<Rightarrow> nat \<times> string \<times> string" where
  "push_card tx p =
     (case p of (h, age) \<Rightarrow>
        (rank (pm_status h), pm_host h,
         card_html (pm_host h) (pm_status h) (pm_reasons h) (push_rows tx age h) (nonempty (pm_detailUrl h))))"

section \<open>The page\<close>

record page_texts =
  css :: string
  pacific :: "int \<Rightarrow> string"
  warning_sign :: string

definition THEME_SWAP_MS :: int where "THEME_SWAP_MS = 30 * 60 * 1000"

definition themeAt :: "int \<Rightarrow> string" where
  "themeAt now = (if now div THEME_SWAP_MS mod 2 \<noteq> 0 then ''dark'' else ''light'')"

definition head_html :: "page_texts \<Rightarrow> int \<Rightarrow> string \<Rightarrow> string \<Rightarrow> string" where
  \<open>head_html pt now title refresh =
     ''<!doctype html><html data-theme='' @ themeAt now
     @ ''><meta charset=utf-8><meta name=viewport content="width=device-width,initial-scale=1"><meta http-equiv=refresh content=''
     @ refresh @ ''><title>'' @ esc title @ ''</title><style>'' @ css pt @ ''</style>''\<close>

text \<open>The order of the cards: worst first, then by host, as \<open>collate\<close> orders names.\<close>

definition sorted_cards :: "((nat \<times> string \<times> string) list \<Rightarrow> (nat \<times> string \<times> string) list) \<Rightarrow> (nat \<times> string \<times> string) list \<Rightarrow> (nat \<times> string \<times> string) list" where
  "sorted_cards collate cards = sort_key (\<lambda>c. - int (fst c)) (collate cards)"

definition summary_text :: "nat \<times> nat \<times> nat \<times> nat \<Rightarrow> string" where
  "summary_text counts =
     (case counts of (n, fine, warned, down) \<Rightarrow>
        if down > 0 \<or> warned > 0
        then (if down > 0 then show_nat down @ '' critical'' else []) @ (if down > 0 \<and> warned > 0 then '', '' else [])
             @ (if warned > 0 then show_nat warned @ '' warning'' else [])
        else ''all systems normal'')"

definition overall :: "nat \<times> nat \<times> nat \<times> nat \<Rightarrow> string" where
  "overall counts = (case counts of (n, fine, warned, down) \<Rightarrow> if down > 0 then ''crit'' else if warned > 0 then ''warn'' else ''ok'')"

definition renderDashboard ::
  "texts \<Rightarrow> page_texts \<Rightarrow> ((nat \<times> string \<times> string) list \<Rightarrow> (nat \<times> string \<times> string) list) \<Rightarrow> live option \<Rightarrow> int \<Rightarrow> string \<Rightarrow> string \<Rightarrow> string" where
  \<open>renderDashboard tx pt collate health now detailTpl lab =
     (case health of
        None \<Rightarrow> head_html pt now ''Relay fleet'' ''15''
          @ ''<div class=wrap><h1>iTerm2 relay fleet</h1><p class=muted>Collecting data. The first check runs within the analysis interval; reload shortly.</p></div>''
      | Some lv \<Rightarrow>
          let hl = lv_health lv; counts = hl_counts hl;
              cards = concat (map (\<lambda>c. snd (snd c)) (sorted_cards collate
                (map (relay_card tx detailTpl) (hl_hosts hl) @ map (push_card tx) (zip (hl_pushes hl) (lv_pushAges lv)))));
              mapLine = (if lab = [] then [] else esc lab @ '' &middot; '')
                @ (if hl_fleet hl then ''map v'' @ esc (case mapVersion hl of None \<Rightarrow> ''?'' | Some v \<Rightarrow> show_int v) else ''direct mode'');
              banner = (case mapError hl of None \<Rightarrow> [] | Some e \<Rightarrow> ''<div class=banner>shard map fetch failed: '' @ esc e @ ''</div>'')
          in head_html pt now (trim (''Relay fleet '' @ (if snd (snd (snd counts)) > 0 then warning_sign pt else []))) ''30''
             @ ''<div class=wrap><header class="hdr '' @ overall counts @ ''"><div class=big>'' @ show_nat (fst (snd counts)) @ ''/''
             @ show_nat (fst counts) @ '' healthy</div><div class=sub>'' @ esc (summary_text counts) @ ''</div><div class=meta>''
             @ mapLine @ '' &middot; updated '' @ esc (pacific pt now) @ '' &middot; probed '' @ esc (pacific pt (lv_probeAt lv))
             @ ''</div></header>'' @ banner @ ''<div class=grid>'' @ cards @ ''</div></div>'')\<close>

section \<open>What the page shows is what the tick found\<close>

lemma push_side_reasons:
  "snd (fst (push_side tx cfg fleet h now lt hs)) = (if stale cfg now lt then [''liveness''] else snd (fst (push_side tx cfg fleet h now lt hs)))
   \<and> (\<not> stale cfg now lt \<longrightarrow> set (snd (fst (push_side tx cfg fleet h now lt hs))) \<subseteq> set ANALYSIS_KEYS)"
  by (auto simp: push_side_def Let_def dest: analyze_keys split: prod.splits)

lemma probe_side_reasons: "set (snd (fst (probe_side cfg fleet h p k))) \<subseteq> {''probe''}"
  by (auto simp: probe_side_def split: option.splits)

lemma filter_no: "''liveness'' \<notin> set xs \<Longrightarrow> filter (\<lambda>k. k \<noteq> ''liveness'') xs = xs"
  by (induction xs) auto

lemma live_card:
  assumes "kv_latest w = kv_view kv" "fleet \<longrightarrow> h \<noteq> DIRECT_HOST" "\<not> fleet \<longrightarrow> h = DIRECT_HOST"
    and "live_host cfg fleet kv now (snd (snd (check_host tx w cfg env fleet mp now st h))) = Inr c"
  shows "sm_status c = sm_status (snd (snd (check_host tx w cfg env fleet mp now st h)))
    \<and> sm_reasons c = sm_reasons (snd (snd (check_host tx w cfg env fleet mp now st h)))
    \<and> sm_ageMs c = sm_ageMs (snd (snd (check_host tx w cfg env fleet mp now st h)))"
proof -
  let ?lt = "kv_view kv (latestKeyFor h)" and ?hs = "or_else (map_of (st_hosts st) h) no_host_state"
  let ?probe = "probe_host w cfg env fleet mp h"
  obtain a1 r1 g nxt where ps: "push_side tx cfg fleet h now ?lt ?hs = ((a1, r1), g, nxt)" by (metis prod.exhaust)
  obtain a2 r2 k where pr: "probe_side cfg fleet h ?probe (hs_probeFailStreak ?hs) = ((a2, r2), k)" by (metis prod.exhaust)
  let ?card = "snd (snd (check_host tx w cfg env fleet mp now st h))"
  have card: "sm_reasons ?card = r1 @ r2" "sm_ageMs ?card = map_option (\<lambda>l. now - receivedAt l) ?lt"
    "sm_probeOk ?card = map_option ok ?probe" "fleet \<Longrightarrow> sm_host ?card = h"
    "sm_status ?card = status_of (stale cfg now ?lt \<or> (case ?probe of None \<Rightarrow> False | Some p \<Rightarrow> \<not> ok p)) (r1 @ r2)"
    unfolding check_host_def Let_def assms(1) ps pr by simp_all
  have key: "live_key fleet (sm_host ?card) = latestKeyFor h"
    using assms(2,3) card(4) by (auto simp: live_key_def latestKeyFor_def)
  have r1: "stale cfg now ?lt \<Longrightarrow> r1 = [''liveness'']" "\<not> stale cfg now ?lt \<Longrightarrow> ''liveness'' \<notin> set r1"
    using push_side_reasons [of tx cfg fleet h now ?lt ?hs] not_liveness unfolding ps by auto
  have r2: "''liveness'' \<notin> set r2" using probe_side_reasons [of cfg fleet h ?probe "hs_probeFailStreak ?hs"] unfolding pr by auto
  let ?age = "map_option (\<lambda>s. now - sd_receivedAt s) (kv (latestKeyFor h))"
  have rep: "(case ?age of None \<Rightarrow> False | Some a \<Rightarrow> of_int a \<le> staleMs cfg) \<longleftrightarrow> \<not> stale cfg now ?lt"
    by (simp add: stale_def kv_view_def split: option.split) linarith?
  have fail: "sm_probeOk ?card = Some False \<longleftrightarrow> (case ?probe of None \<Rightarrow> False | Some p \<Rightarrow> \<not> ok p)"
    by (simp add: card(3) split: option.split)
  have reasons: "(if \<not> stale cfg now ?lt then filter (\<lambda>k. k \<noteq> ''liveness'') (r1 @ r2) else ''liveness'' # filter (\<lambda>k. k \<noteq> ''liveness'') (r1 @ r2)) = r1 @ r2"
    using r1 r2 by (auto simp: filter_no)
  have age: "?age = map_option (\<lambda>l. now - receivedAt l) ?lt" by (simp add: kv_view_def option.map_comp comp_def)
  show ?thesis
    using assms(4) unfolding live_host_def key Let_def rep fail card(1)
    by (auto simp: reasons age card(1,2,5) status_of_def split: sum.splits)
qed

lemma all_right_map [simp]: "all_right (map Inr ys) = Inr ys"
  by (induction ys) simp_all

lemma all_right_Inr: "all_right xs = Inr ys \<longleftrightarrow> xs = map Inr ys"
proof (induction xs arbitrary: ys)
  case (Cons x xs)
  show ?case by (cases x; cases ys) (auto simp: Cons.IH split: sum.splits)
qed auto

text \<open>
  C34. The fleet page agrees with the pager. A page that is loaded at the moment of a tick, over the same
  stored pushes, shows every host with the status, the reasons and the age the tick found, and counts the
  same hosts as healthy, although it recomputes them from other data: the page has only the health document and the store.
\<close>

theorem page_agrees_with_tick:
  assumes "run_tick tx dry w env now st = (hl, due, st')" "kv_latest w = kv_view kv"
    and "map_now w env \<noteq> None \<longrightarrow> DIRECT_HOST \<notin> set (watched (map_now w env) (if dry then no_mstate else st))"
    and "liveHealth env kv now (Some hl) = Inr (Some lv)"
  shows "map sm_status (hl_hosts (lv_health lv)) = map sm_status (hl_hosts hl)
    \<and> map sm_reasons (hl_hosts (lv_health lv)) = map sm_reasons (hl_hosts hl)
    \<and> map sm_ageMs (hl_hosts (lv_health lv)) = map sm_ageMs (hl_hosts hl)
    \<and> hl_counts (lv_health lv) = hl_counts hl"
proof -
  let ?st = "if dry then no_mstate else st" and ?m = "map_now w env" and ?cfg = "parseConfig env"
  define chk where "chk = check_host tx w ?cfg env (?m \<noteq> None) (found_map ?m) now ?st"
  have hl: "hl_hosts hl = map (\<lambda>h. snd (snd (chk h))) (watched ?m ?st)" "hl_fleet hl \<longleftrightarrow> ?m \<noteq> None"
    "hl_counts hl = (let states = map sm_status (hl_hosts hl) @ map pm_status (hl_pushes hl)
       in (length states, count_status Ok_st states, count_status Warn_st states, count_status Crit_st states))"
    using assms(1) unfolding run_tick_def tick_checks_def Let_def chk_def found_map_def
    by (auto simp: check_hosts_parts check_pushes_parts split: prod.splits)
  obtain hosts where h: "map (live_host ?cfg (?m \<noteq> None) kv now) (hl_hosts hl) = map Inr hosts"
    and lv: "hl_hosts (lv_health lv) = hosts" "hl_counts (lv_health lv) = (let states = map sm_status hosts @ map pm_status (hl_pushes hl)
       in (length states, count_status Ok_st states, count_status Warn_st states, count_status Crit_st states))"
    using assms(4) hl(2) by (auto simp: liveHealth_def all_right_Inr Let_def split: sum.splits)
  have len: "length hosts = length (watched ?m ?st)" using arg_cong [OF h, of length] hl(1) by simp
  have each: "sm_status (hosts ! i) = sm_status (hl_hosts hl ! i) \<and> sm_reasons (hosts ! i) = sm_reasons (hl_hosts hl ! i)
      \<and> sm_ageMs (hosts ! i) = sm_ageMs (hl_hosts hl ! i)" if "i < length hosts" for i
  proof -
    let ?h = "watched ?m ?st ! i"
    have mem: "?h \<in> set (watched ?m ?st)" using that len by simp
    have "live_host ?cfg (?m \<noteq> None) kv now (snd (snd (chk ?h))) = Inr (hosts ! i)"
      using arg_cong [OF h, of "\<lambda>xs. xs ! i"] that len hl(1) by simp
    moreover have "?m \<noteq> None \<longrightarrow> ?h \<noteq> DIRECT_HOST" using assms(3) mem by auto
    moreover have "\<not> ?m \<noteq> None \<longrightarrow> ?h = DIRECT_HOST" using mem by (auto simp: watched_def)
    ultimately show ?thesis using live_card [OF assms(2), of "?m \<noteq> None" ?h] that len hl(1) unfolding chk_def by simp
  qed
  have n: "length hosts = length (hl_hosts hl)" using len hl(1) by simp
  have "map sm_status hosts = map sm_status (hl_hosts hl)" "map sm_reasons hosts = map sm_reasons (hl_hosts hl)"
    "map sm_ageMs hosts = map sm_ageMs (hl_hosts hl)"
    using each n by (simp_all add: list_eq_iff_nth_eq)
  then show ?thesis by (simp add: lv hl(3))
qed

theorem page_agrees_with_tick_witness:
  "\<exists>hl due st' lv. run_tick demo_texts False (demo_world\<lparr>kv_latest := kv_view (\<lambda>_. None)\<rparr>) demo_vars 0 no_mstate = (hl, due, st')
     \<and> liveHealth demo_vars (\<lambda>_. None) 0 (Some hl) = Inr (Some lv) \<and> hl_counts (lv_health lv) = hl_counts hl"
proof -
  let ?w = "demo_world\<lparr>kv_latest := kv_view (\<lambda>_. None)\<rparr>"
  obtain hl due st' where r: "run_tick demo_texts False ?w demo_vars 0 no_mstate = (hl, due, st')" by (metis prod_cases3)
  have m: "map_now ?w demo_vars = map_now demo_world demo_vars" by (simp add: map_now_def)
  have d: "map_now ?w demo_vars \<noteq> None \<longrightarrow> DIRECT_HOST \<notin> set (watched (map_now ?w demo_vars) (if False then no_mstate else no_mstate))"
    by (simp add: m demo_vars_facts DIRECT_HOST_def)
  have "\<forall>h. \<exists>c. live_host (parseConfig demo_vars) (hl_fleet hl) (\<lambda>_. None) 0 h = Inr c" by (simp add: live_host_def Let_def)
  then obtain f where "\<forall>h. live_host (parseConfig demo_vars) (hl_fleet hl) (\<lambda>_. None) 0 h = Inr (f h)" by metis
  then have "all_right (map (live_host (parseConfig demo_vars) (hl_fleet hl) (\<lambda>_. None) 0) (hl_hosts hl)) = Inr (map f (hl_hosts hl))"
    by (simp add: all_right_Inr comp_def)
  then obtain lv where l: "liveHealth demo_vars (\<lambda>_. None) 0 (Some hl) = Inr (Some lv)" by (simp add: liveHealth_def Let_def)
  have "kv_latest ?w = kv_view (\<lambda>_. None)" by simp
  from page_agrees_with_tick [OF r this d l] r l show ?thesis by blast
qed

section \<open>Escaping\<close>

lemma esc_char_inert: \<open>set (esc_char c) \<inter> {CHR ''<'', CHR ''>'', CHR ''"''} = {}\<close>
  by (auto simp: esc_char_def)

lemma esc_inert: \<open>set (esc s) \<inter> {CHR ''<'', CHR ''>'', CHR ''"''} = {}\<close>
  using esc_char_inert by (fastforce simp: esc_def)

end
