(* ===== verification/MonitorServer.thy ===== *)
theory MonitorServer
  imports MonitorPage HttpAuth
begin

text \<open>
  The monitor as a process, \<^verbatim>\<open>monitor/src/server.js\<close>: its environment file and what it insists on, its HTTP
  server with the ingest of pushes, the fleet page and the operator's endpoints, and its timers. URLs are given
  parsed; \<open>decodeURIComponent\<close> and \<open>JSON.parse\<close> are arguments. A handler that throws is an unhandled
  rejection, which ends the process.
\<close>

section \<open>The environment\<close>

definition unquote :: "string \<Rightarrow> string" where
  \<open>unquote v =
     (if v \<noteq> [] \<and> (hd v = CHR ''"'' \<and> List.last v = CHR ''"'' \<or> hd v = CHR 0x27 \<and> List.last v = CHR 0x27)
      then butlast (tl v) else v)\<close>

definition env_line :: "string \<Rightarrow> (string \<times> string) option" where
  "env_line line =
     (let t = trim line
      in if t = [] \<or> hd t = CHR ''#'' then None
         else map_option (\<lambda>(k, v). (trim k, unquote (trim v))) (cut (CHR ''='') t))"

definition loadEnvFile :: "string \<Rightarrow> (string \<Rightarrow> string option) \<Rightarrow> string \<Rightarrow> string option" where
  "loadEnvFile file env =
     fold (\<lambda>line e. case env_line line of
             None \<Rightarrow> e | Some (k, v) \<Rightarrow> if e k \<noteq> None then e else e(k := Some v)) (split_on NL file) env"

definition email_off :: "(string \<Rightarrow> string option) \<Rightarrow> bool" where
  "email_off env \<longleftrightarrow> lower (or_else (env ''ALERT_EMAIL'') []) \<in> set [''off'', ''false'', ''0'', ''no'']"

definition required_env :: "(string \<Rightarrow> string option) \<Rightarrow> string list" where
  "required_env env =
     (if nonempty (env ''RELAY_PULL_URL_TEMPLATE'') \<noteq> None then [] else [''INGEST_TOKEN''])
     @ (if email_off env then [] else [''ALERT_FROM'', ''ALERT_TO'', ''RESEND_API_KEY''])"

text \<open>The first variable that is missing, for which \<open>main\<close> exits.\<close>

definition missing_env :: "(string \<Rightarrow> string option) \<Rightarrow> string option" where
  "missing_env env = List.find (\<lambda>k. nonempty (env k) = None) (required_env env)"

section \<open>Mail\<close>

definition severity_upper :: "severity \<Rightarrow> string" where
  "severity_upper s = (case s of Warn \<Rightarrow> ''WARN'' | Critical \<Rightarrow> ''CRITICAL'')"

text \<open>\<open>sendResend\<close>: subject and text of the mail.\<close>

definition sendResend :: "alert list \<Rightarrow> string \<times> string" where
  "sendResend alerts =
     (''[iTerm2 relay] '' @ show_nat (length alerts) @ '' alert(s) (''
        @ (if list_ex (\<lambda>a. al_severity a = Critical) alerts then ''CRITICAL'' else ''warning'') @ '')'',
      join [NL, NL] (map (\<lambda>a. ''['' @ severity_upper (al_severity a) @ ''] '' @ al_title a @ [NL] @ al_body a) alerts))"

text \<open>\<open>probePushOrigin\<close>, given the status of the answer or the message of the error.\<close>

definition probePushOrigin :: "string \<Rightarrow> string + nat \<Rightarrow> probe_result" where
  "probePushOrigin url answer =
     (case answer of
        Inl e \<Rightarrow> \<lparr>ok = False, detail = e\<rparr>
      | Inr status \<Rightarrow>
          if status = 405 then \<lparr>ok = True, detail = ''ok''\<rparr>
          else \<lparr>ok = False, detail = ''unexpected HTTP '' @ show_nat status @ '' from '' @ url @ '' (expected 405)''\<rparr>)"

section \<open>State and requests\<close>

record monitor =
  mo_kv :: "string \<Rightarrow> stored option"
  mo_state :: mstate
  mo_health :: "health option"
  mo_pulled :: "string list"

record mon_request =
  mr_method :: string
  mr_url :: "(string \<times> string option) option"
  mr_auth :: "string option"
  mr_key :: "string option"
  mr_body :: "bytes list option"

text \<open>\<open>readBody\<close>: the chunks of a body, \<open>None\<close> if the stream fails before its end.\<close>

fun take_body :: "nat \<Rightarrow> nat \<Rightarrow> bytes list \<Rightarrow> bytes option" where
  "take_body limit sz [] = Some []"
| "take_body limit sz (c # cs) =
     (let sz' = sz + length c in if sz' > limit then None else map_option (\<lambda>bs. c @ bs) (take_body limit sz' cs))"

definition BODY_LIMIT :: nat where "BODY_LIMIT = 64 * 1024"

lemma take_body_all: "sz + length (concat cs) \<le> limit \<Longrightarrow> take_body limit sz cs = Some (concat cs)"
  by (induction cs arbitrary: sz) (simp_all add: Let_def)

lemma take_body_over: "sz \<le> limit \<Longrightarrow> limit < sz + length (concat cs) \<Longrightarrow> take_body limit sz cs = None"
  by (induction cs arbitrary: sz) (simp_all add: Let_def)

datatype mon_reply =
    Failed_reply nat string
  | Stored_reply
  | Login_reply
  | Page_reply string
  | Mail_off
  | Mail_sent bool
  | Dry_run health
  | Crash

definition label_char :: "char \<Rightarrow> bool" where
  "label_char c \<longleftrightarrow> is_digit c \<or> in_span (CHR ''a'') (CHR ''z'') c \<or> in_span (CHR ''A'') (CHR ''Z'') c"

definition host_label :: "string \<Rightarrow> bool" where
  "host_label l \<longleftrightarrow> l \<noteq> [] \<and> label_char (hd l) \<and> label_char (List.last l) \<and> list_all (\<lambda>c. label_char c \<or> c = CHR ''-'') l"

text \<open>\<open>HOST_RE\<close>: labels joined by dots, at most 253 characters.\<close>

definition host_ok :: "string \<Rightarrow> bool" where
  "host_ok h \<longleftrightarrow> 1 \<le> length h \<and> length h \<le> 253 \<and> list_all host_label (split_on (CHR ''.'') h)"

text \<open>What the process is given besides its state: environment, parsers, texts, and the injected functions.\<close>

record shell =
  sh_env :: "string \<Rightarrow> string option"
  sh_uri :: "string \<Rightarrow> unit + string"
  sh_json :: "bytes \<Rightarrow> jsval option"
  sh_utf8 :: "bytes \<Rightarrow> string"
  sh_texts :: texts
  sh_page :: page_texts
  sh_collate :: "(nat \<times> string \<times> string) list \<Rightarrow> (nat \<times> string \<times> string) list"
  sh_world :: world

text \<open>
  \<open>run\<close> over the store. Reading the counters of a null snapshot throws, and then the whole tick fails:
  nothing is persisted and nothing is sent.
\<close>

definition null_push :: "shell \<Rightarrow> monitor \<Rightarrow> int \<Rightarrow> string \<Rightarrow> bool" where
  "null_push sh mo now h =
     (case mo_kv mo (latestKeyFor h) of
        None \<Rightarrow> False
      | Some s \<Rightarrow> sd_snapshot s = JNull \<and> \<not> stale (parseConfig (sh_env sh)) now (kv_view (mo_kv mo) (latestKeyFor h)))"

definition run_over :: "shell \<Rightarrow> bool \<Rightarrow> int \<Rightarrow> monitor \<Rightarrow> unit + health \<times> alert list \<times> mstate" where
  "run_over sh dry now mo =
     (let w = sh_world sh; st = (if dry then no_mstate else mo_state mo)
      in if list_ex (null_push sh mo now) (watched (map_now w (sh_env sh)) st) then Inl ()
         else Inr (run_tick (sh_texts sh) dry (w\<lparr>kv_latest := kv_view (mo_kv mo)\<rparr>) (sh_env sh) now (mo_state mo)))"

section \<open>The handlers\<close>

definition ingest_key :: "shell \<Rightarrow> string \<Rightarrow> mon_reply + string" where
  "ingest_key sh path =
     (if path = ''/ingest'' then Inr LATEST_KEY
      else case sh_uri sh (drop 8 path) of
             Inl _ \<Rightarrow> Inl Crash
           | Inr h \<Rightarrow> if host_ok h then Inr (latestKeyFor h) else Inl (Failed_reply 400 ''bad host''))"

definition ingest :: "shell \<Rightarrow> int \<Rightarrow> string \<Rightarrow> mon_request \<Rightarrow> monitor \<Rightarrow> mon_reply \<times> monitor" where
  "ingest sh now path rq mo =
     (if \<not> bearerOk (mr_auth rq) (sh_env sh ''INGEST_TOKEN'') then (Failed_reply 401 ''unauthorized'', mo)
      else case ingest_key sh path of
             Inl r \<Rightarrow> (r, mo)
           | Inr key \<Rightarrow>
               (case Option.bind (Option.bind (mr_body rq) (take_body BODY_LIMIT 0)) (sh_json sh) of
                  None \<Rightarrow> (Failed_reply 400 ''bad json'', mo)
                | Some v \<Rightarrow> (Stored_reply, mo\<lparr>mo_kv := (mo_kv mo)(key \<mapsto> \<lparr>sd_receivedAt = now, sd_snapshot = v\<rparr>)\<rparr>)))"

definition fleet_page :: "shell \<Rightarrow> int \<Rightarrow> mon_request \<Rightarrow> monitor \<Rightarrow> mon_reply" where
  "fleet_page sh now rq mo =
     (if \<not> basicAuthOk (sh_utf8 sh) (mr_auth rq) (sh_env sh ''MANUAL_TRIGGER_SECRET'') then Login_reply
      else case liveHealth (sh_env sh) (mo_kv mo) now (mo_health mo) of
             Inl _ \<Rightarrow> Crash
           | Inr hl \<Rightarrow>
               Page_reply (renderDashboard (sh_texts sh) (sh_page sh) (sh_collate sh) hl now
                 (or_else (sh_env sh ''DASHBOARD_URL_TEMPLATE'') ''https://{host}/dashboard/'')
                 (or_else (sh_env sh ''MONITOR_LABEL'') [])))"

definition test_alert :: alert where
  "test_alert =
     \<lparr>al_key = ''test'', al_severity = Warn, al_title = ''Relay monitor test'',
      al_body = ''If you received this, the monitor'' @ [CHR 0x27] @ ''s email path works.''\<rparr>"

definition operator :: "shell \<Rightarrow> int \<Rightarrow> string option \<Rightarrow> mon_request \<Rightarrow> monitor \<Rightarrow> mon_reply" where
  "operator sh now test rq mo =
     (if \<not> secretEquals (mr_key rq) (sh_env sh ''MANUAL_TRIGGER_SECRET'') then Failed_reply 404 ''not found''
      else if test = Some ''1''
      then (if email_off (sh_env sh) then Mail_off else Mail_sent (sendEmail (sh_world sh) [test_alert]))
      else case run_over sh True now mo of Inl _ \<Rightarrow> Crash | Inr (hl, _, _) \<Rightarrow> Dry_run hl)"

definition handle :: "shell \<Rightarrow> int \<Rightarrow> mon_request \<Rightarrow> monitor \<Rightarrow> mon_reply \<times> monitor" where
  "handle sh now rq mo =
     (case mr_url rq of
        None \<Rightarrow> (Failed_reply 400 ''bad url'', mo)
      | Some (path, test) \<Rightarrow>
          if mr_method rq = ''POST'' \<and> (path = ''/ingest'' \<or> prefix ''/ingest/'' path) then ingest sh now path rq mo
          else if mr_method rq = ''GET'' \<and> path = ''/dashboard'' then (fleet_page sh now rq mo, mo)
          else if mr_method rq = ''GET'' then (operator sh now test rq mo, mo)
          else (Failed_reply 404 ''not found'', mo))"

section \<open>The timers\<close>

text \<open>A tick that fails is logged and leaves everything; the alerts that are due, and the process after it.\<close>

definition timer_tick :: "shell \<Rightarrow> int \<Rightarrow> monitor \<Rightarrow> alert list \<times> monitor" where
  "timer_tick sh now mo =
     (case run_over sh False now mo of
        Inl _ \<Rightarrow> ([], mo)
      | Inr (hl, due, st) \<Rightarrow> (due, mo\<lparr>mo_state := st, mo_health := Some hl\<rparr>))"

definition stored_pull :: "latest \<Rightarrow> stored" where
  "stored_pull l = \<lparr>sd_receivedAt = receivedAt l, sd_snapshot = JObj (map (\<lambda>(k, q). (k, JNum q)) (lt_snapshot l))\<rparr>"

definition pull_tick :: "shell \<Rightarrow> (string \<Rightarrow> string option \<Rightarrow> string + string) \<Rightarrow> int \<Rightarrow> monitor \<Rightarrow> monitor" where
  "pull_tick sh scrape now mo =
     (case pullRelays (sh_env sh) now (fetchMap (sh_world sh)) scrape (mo_pulled mo) (\<lambda>_. None) of
        (hosts, _, _, pulled) \<Rightarrow>
          mo\<lparr>mo_pulled := hosts, mo_kv := (\<lambda>k. case pulled k of None \<Rightarrow> mo_kv mo k | Some l \<Rightarrow> Some (stored_pull l))\<rparr>)"

section \<open>Nothing without the secrets\<close>

lemma split_on_chars: "c \<in> set s \<Longrightarrow> c = d \<or> (\<exists>l \<in> set (split_on d s). c \<in> set l)"
proof (induction s)
  case (Cons a s)
  obtain l ls where "split_on d s = l # ls" by (cases "split_on d s") auto
  with Cons show ?case by auto
qed simp

lemma host_ok_chars:
  assumes "host_ok h" "c \<in> set h"
  shows "label_char c \<or> c = CHR ''-'' \<or> c = CHR ''.''"
proof -
  have "c = CHR ''.'' \<or> (\<exists>l \<in> set (split_on (CHR ''.'') h). c \<in> set l)" using split_on_chars [OF assms(2)] by blast
  then show ?thesis using assms(1) by (auto simp: host_ok_def host_label_def list_all_iff)
qed

lemma label_char_not: "label_char c \<Longrightarrow> c \<notin> set ''/_%: ''"
  by (auto simp: label_char_def is_digit_def in_span_def less_eq_char_def)

lemma host_ok_no_slash: "host_ok h \<Longrightarrow> CHR ''/'' \<notin> set h \<and> CHR ''_'' \<notin> set h"
  using host_ok_chars [of h] label_char_not by fastforce

text \<open>
  C35. Only a push with the ingest token changes what the monitor has stored, and it changes one snapshot: that of
  the single relay, or that of one host, whose name has no slash, so that the file of its key lies in the state
  directory. Without a token in the environment no push is accepted. Everything else a client asks leaves the monitor as it is.
\<close>

theorem only_pushes_store:
  assumes "handle sh now rq mo = (r, mo')" "mo' \<noteq> mo"
  shows "r = Stored_reply \<and> mr_method rq = ''POST''
    \<and> (\<exists>token. token \<noteq> [] \<and> sh_env sh ''INGEST_TOKEN'' = Some token \<and> scheme_value ''bearer'' (or_else (mr_auth rq) []) = Some token)
    \<and> (\<exists>key v. mo' = mo\<lparr>mo_kv := (mo_kv mo)(key \<mapsto> \<lparr>sd_receivedAt = now, sd_snapshot = v\<rparr>)\<rparr>
        \<and> (key = LATEST_KEY \<or> (\<exists>h. host_ok h \<and> key = ''latest:'' @ h)) \<and> CHR ''/'' \<notin> set key)"
proof -
  obtain path test where u: "mr_url rq = Some (path, test)" "mr_method rq = ''POST''" "ingest sh now path rq mo = (r, mo')"
    using assms by (auto simp: handle_def split: option.splits if_splits)
  have b: "bearerOk (mr_auth rq) (sh_env sh ''INGEST_TOKEN'')" using u(3) assms(2) by (auto simp: ingest_def split: if_splits)
  then obtain key v where k: "ingest_key sh path = Inr key" "r = Stored_reply"
    "mo' = mo\<lparr>mo_kv := (mo_kv mo)(key \<mapsto> \<lparr>sd_receivedAt = now, sd_snapshot = v\<rparr>)\<rparr>"
    using u(3) assms(2) by (auto simp: ingest_def split: sum.splits option.splits)
  have "key = LATEST_KEY \<or> (\<exists>h. host_ok h \<and> key = ''latest:'' @ h)"
    using k(1) host_ok_no_slash
    by (auto simp: ingest_key_def latestKeyFor_def DIRECT_HOST_def split: if_splits sum.splits)
  moreover from this have "CHR ''/'' \<notin> set key" using host_ok_no_slash by (auto simp: LATEST_KEY_def)
  moreover have "\<exists>token. token \<noteq> [] \<and> sh_env sh ''INGEST_TOKEN'' = Some token \<and> scheme_value ''bearer'' (or_else (mr_auth rq) []) = Some token"
    using b by (auto simp: bearerOk_def secretEquals_iff split: option.splits)
  ultimately show ?thesis using u(2) k(2,3) by blast
qed

text \<open>The answers that show something of the fleet or send a mail.\<close>

fun reveals :: "mon_reply \<Rightarrow> bool" where
  "reveals (Page_reply _) = True"
| "reveals (Dry_run _) = True"
| "reveals Mail_off = True"
| "reveals (Mail_sent _) = True"
| "reveals _ = False"

text \<open>
  C36. Nothing about the fleet is shown and no mail is sent without the operator's secret: a request that does not
  carry it, in the password of its login or in its key, gets an error, the login challenge or the answer to a push;
  and if the secret is not set, nobody has it.
\<close>

theorem operator_secret_needed:
  assumes "fst (handle sh now rq mo) = r" "reveals r"
  shows "\<exists>secret. secret \<noteq> [] \<and> sh_env sh ''MANUAL_TRIGGER_SECRET'' = Some secret
    \<and> (mr_key rq = Some secret \<or> basicAuthOk (sh_utf8 sh) (mr_auth rq) (Some secret))"
proof -
  have "\<not> reveals (fst (ingest sh now path rq mo))" for path
    by (simp add: ingest_def ingest_key_def split: sum.splits option.splits)
  with assms have "(\<exists>test. operator sh now test rq mo = r) \<or> fleet_page sh now rq mo = r"
    by (auto simp: handle_def split: option.splits if_splits)
  then obtain test where "fleet_page sh now rq mo = r \<or> operator sh now test rq mo = r" by blast
  then show ?thesis
  proof
    assume "fleet_page sh now rq mo = r"
    then have b: "basicAuthOk (sh_utf8 sh) (mr_auth rq) (sh_env sh ''MANUAL_TRIGGER_SECRET'')"
      using assms(2) by (auto simp: fleet_page_def split: if_splits)
    then have "nonempty (sh_env sh ''MANUAL_TRIGGER_SECRET'') \<noteq> None" using no_secret_no_entry(2) by blast
    with b show ?thesis by (auto simp: nonempty_def split: option.splits if_splits)
  next
    assume "operator sh now test rq mo = r"
    then have "secretEquals (mr_key rq) (sh_env sh ''MANUAL_TRIGGER_SECRET'')"
      using assms(2) by (auto simp: operator_def split: if_splits)
    then show ?thesis by (auto simp: secretEquals_iff)
  qed
qed

section \<open>A null snapshot\<close>

text \<open>
  A client with the token can push the JSON null. Until that push is stale or replaced every tick fails: whatever
  happens to the other hosts, nothing is sent and nothing is persisted; and the page ends the process.
\<close>

lemma null_push_blinds_fleet:
  assumes "mo_kv mo (latestKeyFor h) = Some \<lparr>sd_receivedAt = at0, sd_snapshot = JNull\<rparr>"
    and "of_int (now - at0) \<le> staleMs (parseConfig (sh_env sh))"
    and "h \<in> set (watched (map_now (sh_world sh) (sh_env sh)) (mo_state mo))"
  shows "timer_tick sh now mo = ([], mo)"
proof -
  have "null_push sh mo now h" using assms(1,2) by (simp add: null_push_def stale_def kv_view_def)
  then have "list_ex (null_push sh mo now) (watched (map_now (sh_world sh) (sh_env sh)) (mo_state mo))"
    using assms(3) by (auto simp: list_ex_iff)
  then show ?thesis by (simp add: timer_tick_def run_over_def Let_def)
qed

lemma all_right_Inl: "Inl e \<in> set xs \<Longrightarrow> \<exists>e'. all_right xs = Inl e'"
  by (induction xs rule: all_right.induct) (auto split: sum.split)

lemma null_push_ends_process:
  assumes "mo_kv mo (live_key (hl_fleet hl) (sm_host c)) = Some \<lparr>sd_receivedAt = at0, sd_snapshot = JNull\<rparr>"
    and "mo_health mo = Some hl" "c \<in> set (hl_hosts hl)"
    and "basicAuthOk (sh_utf8 sh) (mr_auth rq) (sh_env sh ''MANUAL_TRIGGER_SECRET'')"
  shows "fleet_page sh now rq mo = Crash"
proof -
  have "live_host (parseConfig (sh_env sh)) (hl_fleet hl) (mo_kv mo) now c = Inl ()"
    by (simp add: live_host_def assms(1) snapshot_fields_def Let_def)
  then have "Inl () \<in> set (map (live_host (parseConfig (sh_env sh)) (hl_fleet hl) (mo_kv mo) now) (hl_hosts hl))"
    using assms(3) by force
  from all_right_Inl [OF this] show ?thesis using assms(2,4) by (auto simp: fleet_page_def liveHealth_def)
qed

text \<open>So does a push with the token whose host is not well-formed percent encoding.\<close>

lemma malformed_host_ends_process:
  assumes "bearerOk (mr_auth rq) (sh_env sh ''INGEST_TOKEN'')" "mr_method rq = ''POST''"
    and "mr_url rq = Some (''/ingest/'' @ p, test)" "sh_uri sh p = Inl ()"
  shows "handle sh now rq mo = (Crash, mo)"
  using assms by (simp add: handle_def ingest_def ingest_key_def)

section \<open>A concrete monitor\<close>

definition shell_env :: "string \<Rightarrow> string option" where
  "shell_env = map_of [(''SHARD_MAP_URL'', ''u''), (''INGEST_TOKEN'', ''tok''), (''MANUAL_TRIGGER_SECRET'', ''op'')]"

definition demo_shell :: shell where
  "demo_shell =
     \<lparr>sh_env = shell_env, sh_uri = Inr, sh_json = \<lambda>_. Some (JObj [(''sockets_live'', JNum 3)]), sh_utf8 = ascii,
      sh_texts = demo_texts, sh_page = \<lparr>css = [], pacific = show_int, warning_sign = ''!''\<rparr>, sh_collate = id, sh_world = demo_world\<rparr>"

definition demo_monitor :: monitor where
  "demo_monitor = \<lparr>mo_kv = \<lambda>_. None, mo_state = no_mstate, mo_health = None, mo_pulled = []\<rparr>"

lemma demo_names: "host_ok ''a''" "latestKeyFor ''a'' = ''latest:a''" "\<forall>c \<in> set ''tok''. \<not> js_space c"
proof -
  show "host_ok ''a''" by (simp add: host_ok_def host_label_def label_char_def in_span_def less_eq_char_def)
  show "latestKeyFor ''a'' = ''latest:a''" by (simp add: latestKeyFor_def DIRECT_HOST_def)
  show "\<forall>c \<in> set ''tok''. \<not> js_space c" by (simp add: js_space_def)
qed

definition demo_push :: mon_request where
  "demo_push = \<lparr>mr_method = ''POST'', mr_url = Some (''/ingest/a'', None), mr_auth = Some (''Bearer '' @ ''tok''), mr_key = None, mr_body = Some []\<rparr>"

lemma demo_handled:
  "handle demo_shell 5 demo_push demo_monitor = (Stored_reply, demo_monitor\<lparr>mo_kv :=
     (\<lambda>_. None)(''latest:a'' \<mapsto> \<lparr>sd_receivedAt = 5, sd_snapshot = JObj [(''sockets_live'', JNum 3)]\<rparr>)\<rparr>)"
  using bearer_client [OF _ demo_names(3)] demo_names
  by (simp add: handle_def demo_push_def ingest_def ingest_key_def demo_shell_def shell_env_def demo_monitor_def)

theorem only_pushes_store_witness:
  "\<exists>key v. snd (handle demo_shell 5 demo_push demo_monitor)
      = demo_monitor\<lparr>mo_kv := (mo_kv demo_monitor)(key \<mapsto> \<lparr>sd_receivedAt = 5, sd_snapshot = v\<rparr>)\<rparr> \<and> CHR ''/'' \<notin> set key"
proof -
  have "mo_kv (snd (handle demo_shell 5 demo_push demo_monitor)) ''latest:a'' \<noteq> mo_kv demo_monitor ''latest:a''"
    unfolding demo_handled by (simp add: demo_monitor_def)
  then have "snd (handle demo_shell 5 demo_push demo_monitor) \<noteq> demo_monitor" by auto
  from only_pushes_store [OF surjective_pairing this] show ?thesis by blast
qed

theorem operator_secret_needed_witness:
  "\<exists>secret. sh_env demo_shell ''MANUAL_TRIGGER_SECRET'' = Some secret \<and> Some ''op'' = Some secret"
proof -
  let ?rq = "\<lparr>mr_method = ''GET'', mr_url = Some (''/'', Some ''1''), mr_auth = None, mr_key = Some ''op'', mr_body = None\<rparr>"
  have "sh_env demo_shell ''MANUAL_TRIGGER_SECRET'' = Some ''op''" by (simp add: demo_shell_def shell_env_def)
  then have "\<exists>b. fst (handle demo_shell 5 ?rq demo_monitor) = Mail_sent b \<or> fst (handle demo_shell 5 ?rq demo_monitor) = Mail_off"
    by (auto simp: handle_def operator_def secretEquals_iff)
  then have "reveals (fst (handle demo_shell 5 ?rq demo_monitor))" by auto
  from operator_secret_needed [OF refl this] show ?thesis by (auto simp: basicAuthOk_def scheme_value_def or_else_def)
qed

end
