(* ===== verification/PushPath.thy ===== *)
theory PushPath
  imports Scrape MonitorServer
begin

text \<open>
  The way of a relay's metrics into the monitor: the relay's pusher, \<^verbatim>\<open>host/metricspush.js\<close>, the monitor's ingest, and
  the tick that reads what was stored. \<open>JSON.stringify\<close> and the sending of the body in chunks are
  arguments.
\<close>

section \<open>The pusher\<close>

definition push_body :: "int \<Rightarrow> relay \<Rightarrow> jsval" where
  "push_body now r = JObj ((''ts'', JNum (of_int now)) # map (\<lambda>(k, v). (k, JNum (of_int v))) (push_snapshot r))"

text \<open>The request as the monitor gets it, its body in chunks.\<close>

definition push_request :: "string \<Rightarrow> string \<Rightarrow> bytes list \<Rightarrow> mon_request" where
  "push_request path token chunks =
     \<lparr>mr_method = ''POST'', mr_url = Some (path, None), mr_auth = Some (''Bearer '' @ token), mr_key = None,
      mr_body = Some chunks\<rparr>"

datatype push_outcome =
    Answered bool
  | No_answer
  | Threw_error

definition reports :: "push_outcome \<Rightarrow> bool" where
  "reports out = (case out of Answered good \<Rightarrow> \<not> good | No_answer \<Rightarrow> False | Threw_error \<Rightarrow> True)"

text \<open>What a push does to the relay: a failure is counted, nothing else changes.\<close>

definition after_push :: "push_outcome \<Rightarrow> relay \<Rightarrow> relay" where
  "after_push out r = (if reports out then r\<lparr>rl_metrics := inc ''metrics_push_errors_total'' 1 (rl_metrics r)\<rparr> else r)"

section \<open>From the relay to the card\<close>

lemma push_stored:
  assumes "token \<noteq> []" "\<forall>c \<in> set token. \<not> js_space c" "sh_env sh ''INGEST_TOKEN'' = Some token"
    and "host_ok h" "sh_uri sh p = Inr h" "length (concat chunks) \<le> BODY_LIMIT" "sh_json sh (concat chunks) = Some v"
  shows "handle sh now (push_request (''/ingest/'' @ p) token chunks) mo
    = (Stored_reply, mo\<lparr>mo_kv := (mo_kv mo)(latestKeyFor h \<mapsto> \<lparr>sd_receivedAt = now, sd_snapshot = v\<rparr>)\<rparr>)"
  using assms bearer_client [OF assms(1,2)] take_body_all [of 0 chunks BODY_LIMIT]
  by (simp add: handle_def push_request_def ingest_def ingest_key_def)

lemma field_Cons: "field n ((k, v) # s) = (if n = k then v else field n s)"
  by (simp add: field_def or_zero_def)

lemma pushed_fields:
  "\<exists>s. snapshot_fields (push_body now r) = Inr s \<and> normalizeSnapshot s = normalizeSnapshot (received (push_snapshot r))"
proof -
  have "snapshot_fields (push_body now r) = Inr ((''ts'', of_int now) # received (push_snapshot r))"
    by (simp add: MonitorPage.snapshot_fields_def push_body_def List.map_filter_def received_def comp_def case_prod_beta)
  moreover have "normalizeSnapshot ((''ts'', of_int now) # received (push_snapshot r)) = normalizeSnapshot (received (push_snapshot r))"
    by (simp add: normalizeSnapshot_def field_Cons)
  ultimately show ?thesis by blast
qed

lemma fresh_card:
  fixes tx w cfg env mp now st h
  defines "c \<equiv> snd (snd (check_host tx w cfg env True mp now st h))"
  assumes "kv_latest w (latestKeyFor h) = Some l" "of_int (now - receivedAt l) \<le> staleMs cfg"
  shows "sm_host c = h \<and> ''liveness'' \<notin> set (sm_reasons c)
    \<and> sm_sockets c = Some (socketsLive (snd (normalizeSnapshot (lt_snapshot l))))
    \<and> sm_rooms c = Some (roomsLive (snd (normalizeSnapshot (lt_snapshot l))))"
proof -
  let ?hs = "or_else (map_of (st_hosts st) h) no_host_state" and ?probe = "probe_host w cfg env True mp h"
  have fresh: "\<not> stale cfg now (Some l)" using assms(3) by (simp add: stale_def)
  obtain a1 r1 g nxt where ps: "push_side tx cfg True h now (Some l) ?hs = ((a1, r1), g, nxt)" by (metis prod.exhaust)
  obtain a2 r2 k where pr: "probe_side cfg True h ?probe (hs_probeFailStreak ?hs) = ((a2, r2), k)" by (metis prod.exhaust)
  have c: "sm_host c = h" "sm_reasons c = r1 @ r2" "sm_sockets c = map_option socketsLive g" "sm_rooms c = map_option roomsLive g"
    unfolding c_def check_host_def Let_def assms(2) ps pr by simp_all
  have "''liveness'' \<notin> set r1"
    using push_side_reasons [of tx cfg True h now "Some l" ?hs] fresh not_liveness unfolding ps by auto
  moreover have "''liveness'' \<notin> set r2"
    using probe_side_reasons [of cfg True h ?probe "hs_probeFailStreak ?hs"] unfolding pr by auto
  moreover have "g = Some (snd (normalizeSnapshot (lt_snapshot l)))"
    using ps fresh by (auto simp: push_side_def Let_def split: prod.splits)
  ultimately show ?thesis using c by simp
qed



end
