(* ===== verification/Spec2Isabelle.thy ===== *)
theory Spec2Isabelle
  imports Drain RoomSafety Runtime WireCodes ShardFetch DashParse Fleet MonitorFacts MonitorSafety Scrape DashServer PushPath
begin

text \<open>
  The iTerm2 companion relay pairs a Mac and a phone: each opens a WebSocket to a room named by 64 hex
  digits, proves that it holds the room's key, and from then on the relay copies frames between the
  two. A fleet of relays shares the rooms by a shard map; a monitor watches the fleet and a dashboard
  keeps its metrics. This development models the code of these programs and proves what makes it
  correct. File names are those of the repository under \<^verbatim>\<open>src/\<close>.

  \<^bold>\<open>Theories and code.\<close>

  \<^item> \<open>Prelude\<close>, \<open>Text\<close>: bytes, JavaScript values and their coercions, string operations and decimal
    numbers, shared lemmas. \<open>Meter\<close>: the locale of a windowed budget, the contract that the room's
    flood limits, quotas and pairing budget share.
  \<^item> \<open>Bytes\<close> (\<^verbatim>\<open>src/room.js\<close>: base64, canonical encoding, join and delete transcripts), \<open>Cbor\<close>
    (\<^verbatim>\<open>src/cbor.js\<close>), \<open>AppAttest\<close> (\<^verbatim>\<open>src/appattest.js\<close>).
  \<^item> The room (\<^verbatim>\<open>src/room.js\<close>): \<open>RoomState\<close> has its state, sockets, attachments and windows; \<open>RoomAdmit\<close>
    the WebSocket handlers, from the hello to the splice; \<open>RoomHttp\<close> attestation, registration and
    deletion; \<open>RoomMachine\<close> upgrades, the alarm and the step function over all events; \<open>RoomSafety\<close>
    what holds in every reachable state.
  \<^item> The host: \<open>Storage\<close> (\<^verbatim>\<open>host/storage.js\<close>), \<open>Runtime\<close> (\<^verbatim>\<open>host/runtime.js\<close>: contexts, pins, timers,
    eviction, shutdown), \<open>Gate\<close> (\<^verbatim>\<open>src/index.js\<close> and the limiter, client address and body reader of
    \<^verbatim>\<open>host/server.js\<close>), \<open>ShardFetch\<close> (its map fetching and boot), \<open>Server\<close> (the rest of \<^verbatim>\<open>host/server.js\<close>:
    configuration, gates, accounting, keepalive, drain tick), \<open>ServerSafety\<close> (its front door as a
    machine), \<open>Metrics\<close> (\<^verbatim>\<open>host/metrics.js\<close>).
  \<^item> Sharding (\<^verbatim>\<open>src/sharding/\<close>): \<open>ShardMap\<close> (buckets, room names, maps, owned sets), \<open>ShardStore\<close> (store,
    poller, mode, origin, ownership decision), \<open>Drain\<close> (the scheduler), \<open>WireCodes\<close> (close codes, and the
    exception budget of \<^verbatim>\<open>bin/relay.js\<close>); \<open>Fleet\<close> puts the poller, the gate, the registry and the
    scheduler of one box together.
  \<^item> \<open>DashParse\<close> (\<^verbatim>\<open>dashboard/parse.js\<close>); the monitor: \<open>Monitor\<close> and \<open>MonitorPush\<close>
    (\<^verbatim>\<open>monitor/src/monitor.js\<close>), \<open>MonitorCore\<close> (\<^verbatim>\<open>monitor/src/core.js\<close>), \<open>MonitorFacts\<close> and \<open>MonitorSafety\<close>
    (their properties); \<open>PullPush\<close> and \<open>Scrape\<close> compose the relay's metrics with the monitor's reading.

  \<^bold>\<open>How the code is modelled.\<close> State is a record that the operations take and return. A handler is one
  definition; where it awaits WebCrypto, other events can run, so it is split there into what it waits
  for and a continuation, and the machine of \<open>RoomMachine\<close> interleaves the pieces with all other events.
  Storage is synchronous, so its awaits are no such points; getting a context and pinning it is one
  step, and so are the gate and the acceptance of a connection in \<open>Fleet\<close>. JSON parsing, X.509,
  signatures, hashes, random values, the clock, fetched texts and injected callbacks are arguments;
  what is assumed of one is a premise of the theorem that needs it. JavaScript numbers that count or
  measure are integers or rationals, so rounding of doubles is not modelled; 32-bit shifts are words.
  The order in which a Set is walked is an argument. A table that is an object literal is looked up by
  its own keys. Strings are sequences of code units up to 255.

  \<^bold>\<open>What the lemmas show.\<close> Admission: one live socket per role, a phone only beside a parked Mac,
  signatures over a transcript that determines role, nonce, room and origin, tickets and challenges
  used once, frames only to the peer, budgets per window. Codecs: encodings are injective and read
  back, decoding is total. Sharding: valid maps tile the ring, ownership is a partition, a store never
  takes a worse map, a drain is never early, keeps its rate and ends; and in every run of a box a room with open
  sockets is in a bucket it owns or still drains. Host: one context per room, no event after shutdown,
  storage refines a map per room, addresses that a client cannot choose, exact socket accounting.
  Observation: what the relay renders is read back by the dashboard and, pulled or pushed, means the
  same to the monitor; a silent host is reported after exactly the configured number of ticks, and no
  alert is lost.

  \<^bold>\<open>Bounds and fuel.\<close> The CBOR decoder runs on fuel, one more than the length of its input;
  \<open>decode_total\<close> shows that it never runs out. The digits of a number are taken with fuel one above it, which its lemmas show to
  suffice. The boot loop, the fetch retries and the timer chain terminate by measures on the attempts
  and the time left.

  \<^bold>\<open>Not modelled.\<close> Sockets, TLS, HTTP objects and timers of Node; the text of JSON and of the SQL
  statements; logging; the file store, mail and HTTP pages of the monitor (\<^verbatim>\<open>monitor/src/store.js\<close>,
  \<^verbatim>\<open>monitor/src/server.js\<close>); the pages, database, login and series of the dashboard; the metrics pusher
  (\<^verbatim>\<open>host/metricspush.js\<close>), the command lines (\<^verbatim>\<open>bin/\<close>, except the exception budget), the watch script
  (\<^verbatim>\<open>ops/watch/tick.mjs\<close>) and the probing tool. They are input and output around the parts above; the
  series of the dashboard and the authentication of the monitor are the next candidates.
\<close>

end
